(* ===== verification/Prelude.thy ===== *)
theory Prelude
  imports Complex_Main "HOL-Library.AList" "HOL-Library.List_Lexorder"
    "HOL-Library.Char_ord" "HOL-Library.Product_Lexorder"
begin

text \<open>
  What every component theory shares: the reading of Python's values in HOL and the
  generic lemmas the component proofs use.

  \<^item> A Python \<open>int\<close> is an \<open>int\<close>; a \<open>float\<close> is the exact rational it denotes
    (\<open>rat\<close>), so float rounding is not modelled; NaN and the infinities appear only as
    constructors of the value types of the components whose code tests for them.
  \<^item> A \<open>str\<close> is a \<open>string\<close>, ordered character by character as Python orders it.
  \<^item> A \<open>dict\<close> is an association list with distinct keys, in insertion order:
    \<^term>\<open>map_of\<close> looks a key up, \<^term>\<open>AList.update\<close> stores one (in place when it is
    there, at the end when it is new, as Python does), \<^term>\<open>AList.delete\<close> removes one.
  \<^item> \<open>sorted(set(...))\<close> is \<open>sort (remdups ...)\<close>.
  \<^item> An exception is the left side of a sum; \<open>ebind\<close> sequences two calls.
\<close>

section \<open>Exceptions\<close>

datatype py_error = ZeroDivisionError | OverflowError | AttributeError | TypeError
  | ValueError string | KeyError string

definition ebind :: "'e + 'a \<Rightarrow> ('a \<Rightarrow> 'e + 'b) \<Rightarrow> 'e + 'b" where
  "ebind m f = (case m of Inl e \<Rightarrow> Inl e | Inr a \<Rightarrow> f a)"

lemma ebind_simps [simp]:
  "ebind (Inl e) f = Inl e"
  "ebind (Inr a) f = f a"
  by (simp_all add: ebind_def)

lemma ebind_eq_Inr:
  "ebind m f = Inr b \<longleftrightarrow> (\<exists>a. m = Inr a \<and> f a = Inr b)"
  by (cases m) auto

lemma ebind_eq_Inl:
  "ebind m f = Inl e \<longleftrightarrow> m = Inl e \<or> (\<exists>a. m = Inr a \<and> f a = Inl e)"
  by (cases m) auto

text \<open>A loop whose body may raise: the first error ends it.\<close>

fun efold :: "('a \<Rightarrow> 's \<Rightarrow> 'e + 's) \<Rightarrow> 'a list \<Rightarrow> 's \<Rightarrow> 'e + 's" where
  "efold f [] s = Inr s"
| "efold f (x # xs) s = ebind (f x s) (efold f xs)"

lemma efold_append:
  "efold f (xs @ ys) s = ebind (efold f xs s) (efold f ys)"
proof (induction xs arbitrary: s)
  case (Cons x xs)
  then show ?case by (cases "f x s") simp_all
qed simp

lemma efold_invariant:
  assumes "efold f xs s = Inr t" and "P s"
    and "\<And>x u v. x \<in> set xs \<Longrightarrow> P u \<Longrightarrow> f x u = Inr v \<Longrightarrow> P v"
  shows "P t"
  using assms
proof (induction xs arbitrary: s)
  case Nil
  then show ?case by simp
next
  case (Cons x xs)
  from Cons.prems(1) obtain u where u: "f x s = Inr u" and rest: "efold f xs u = Inr t"
    by (auto simp: ebind_eq_Inr)
  have "P u" using Cons.prems(2) u by (rule Cons.prems(3) [rotated]) simp
  with rest show ?case
    using Cons.IH Cons.prems(3) by (metis list.set_intros(2))
qed

lemma efold_total:
  assumes "\<And>x u. x \<in> set xs \<Longrightarrow> P u \<Longrightarrow> \<exists>v. f x u = Inr v \<and> P v" and "P s"
  shows "\<exists>t. efold f xs s = Inr t \<and> P t"
  using assms
proof (induction xs arbitrary: s)
  case (Cons x xs)
  then obtain u where "f x s = Inr u" "P u" by fastforce
  with Cons show ?case by fastforce
qed simp

text \<open>A fact one step establishes and every step keeps holds after the loop.\<close>

lemma efold_reaches:
  assumes "efold f xs s = Inr t" and "x \<in> set xs"
    and "\<And>u v. f x u = Inr v \<Longrightarrow> G v"
    and "\<And>y u v. y \<in> set xs \<Longrightarrow> f y u = Inr v \<Longrightarrow> G u \<Longrightarrow> G v"
  shows "G t"
  using assms
proof (induction xs arbitrary: s)
  case (Cons y xs)
  from Cons.prems(1) obtain u where u: "f y s = Inr u" and rest: "efold f xs u = Inr t"
    by (auto simp: ebind_eq_Inr)
  show ?case
  proof (cases "x = y")
    case True
    with Cons.prems(3) u have "G u" by simp
    then show ?thesis by (rule efold_invariant [OF rest]) (meson Cons.prems(4) list.set_intros(2))
  next
    case False
    with Cons.prems(2) have "x \<in> set xs" by simp
    then show ?thesis by (rule Cons.IH [OF rest _ Cons.prems(3)]) (auto intro: Cons.prems(4))
  qed
qed simp

lemma fold_reaches:
  assumes "x \<in> set xs"
    and "\<And>u. G (f x u)"
    and "\<And>y u. y \<in> set xs \<Longrightarrow> G u \<Longrightarrow> G (f y u)"
  shows "G (fold f xs s)"
  using assms
proof (induction xs arbitrary: s)
  case (Cons y xs)
  show ?case
  proof (cases "x = y")
    case True
    have "G (fold f xs (f y s))"
      by (rule fold_invariant [where Q = "\<lambda>z. z \<in> set xs"]) (use True Cons.prems in auto)
    then show ?thesis by simp
  next
    case False
    with Cons show ?thesis by simp
  qed
qed simp

section \<open>Dictionaries\<close>

type_synonym ('k, 'v) dict = "('k \<times> 'v) list"

definition dget :: "('k, 'v) dict \<Rightarrow> 'k \<Rightarrow> 'v \<Rightarrow> 'v" where
  "dget d k v = (case map_of d k of None \<Rightarrow> v | Some x \<Rightarrow> x)"

lemma dget_Some [simp]: "map_of d k = Some x \<Longrightarrow> dget d k v = x"
  by (simp add: dget_def)

lemma dget_None [simp]: "map_of d k = None \<Longrightarrow> dget d k v = v"
  by (simp add: dget_def)

lemma dget_update: "dget (AList.update k x d) j v = (if j = k then x else dget d j v)"
  by (simp add: dget_def update_conv)

text \<open>\<open>{k: f(k) for k in ks}\<close>\<close>

definition graph_on :: "'k list \<Rightarrow> ('k \<Rightarrow> 'v) \<Rightarrow> ('k, 'v) dict" where
  "graph_on ks f = map (\<lambda>k. (k, f k)) ks"

lemma map_of_graph_on [simp]:
  "map_of (graph_on ks f) k = (if k \<in> set ks then Some (f k) else None)"
  by (induction ks) (auto simp: graph_on_def)

lemma dget_graph_on [simp]:
  "dget (graph_on ks f) k v = (if k \<in> set ks then f k else v)"
  by (simp add: dget_def)

lemma map_fst_graph_on [simp]: "map fst (graph_on ks f) = ks"
  by (induction ks) (auto simp: graph_on_def)

lemma fst_set_graph_on [simp]: "fst ` set (graph_on ks f) = set ks"
  by (induction ks) (auto simp: graph_on_def)

lemma map_snd_graph_on [simp]: "map snd (graph_on ks f) = map f ks"
  by (induction ks) (auto simp: graph_on_def)

lemma graph_on_cong:
  "(\<And>k. k \<in> set ks \<Longrightarrow> f k = g k) \<Longrightarrow> graph_on ks f = graph_on ks g"
  by (simp add: graph_on_def)

lemma keys_iff_map_of: "k \<in> set (map fst d) \<longleftrightarrow> (\<exists>v. map_of d k = Some v)"
  by (metis map_of_eq_None_iff not_Some_eq set_map)

lemma map_of_filter_key:
  "map_of (filter (\<lambda>(k, v). P k) d) k = (if P k then map_of d k else None)"
  by (induction d) auto

section \<open>Sorted key lists\<close>

definition sorted_set :: "'a::linorder list \<Rightarrow> 'a list" where
  "sorted_set xs = sort (remdups xs)"

lemma set_sorted_set [simp]: "set (sorted_set xs) = set xs"
  by (simp add: sorted_set_def)

lemma distinct_sorted_set [simp]: "distinct (sorted_set xs)"
  by (simp add: sorted_set_def)

lemma sorted_sorted_set [simp]: "sorted (sorted_set xs)"
  by (simp add: sorted_set_def)

lemma sorted_set_cong: "set xs = set ys \<Longrightarrow> sorted_set xs = sorted_set ys"
  by (rule sorted_distinct_set_unique) simp_all

lemma sorted_set_Nil [simp]: "sorted_set [] = []"
  by (simp add: sorted_set_def)

lemma distinct_map_sort: "distinct (map f xs) \<Longrightarrow> distinct (map f (sort xs))"
  by (simp add: distinct_map)

section \<open>Sums over lists of distinct keys\<close>

lemma sum_list_remove1:
  fixes f :: "'a \<Rightarrow> 'b::comm_monoid_add"
  assumes "x \<in> set xs"
  shows "sum_list (map f xs) = f x + sum_list (map f (remove1 x xs))"
  using assms by (induction xs) (auto simp: add.left_commute)

lemma sum_list_pos:
  fixes f :: "'a \<Rightarrow> rat"
  assumes "xs \<noteq> []" and "\<And>x. x \<in> set xs \<Longrightarrow> 0 < f x"
  shows "0 < sum_list (map f xs)"
  using assms
proof (induction xs)
  case (Cons x xs)
  then show ?case by (cases xs) (auto intro: add_pos_pos)
qed simp

lemma sum_list_le:
  fixes f g :: "'a \<Rightarrow> 'b::ordered_comm_monoid_add"
  assumes "\<And>x. x \<in> set xs \<Longrightarrow> f x \<le> g x"
  shows "sum_list (map f xs) \<le> sum_list (map g xs)"
  using assms by (induction xs) (auto intro: add_mono)

lemma sum_list_nonneg_map:
  fixes f :: "'a \<Rightarrow> 'b::ordered_comm_monoid_add"
  assumes "\<And>x. x \<in> set xs \<Longrightarrow> 0 \<le> f x"
  shows "0 \<le> sum_list (map f xs)"
  using assms by (induction xs) auto

lemma sum_list_member_le:
  fixes f :: "'a \<Rightarrow> 'b::{ordered_ab_group_add}"
  assumes "\<And>y. y \<in> set xs \<Longrightarrow> 0 \<le> f y" and "x \<in> set xs"
  shows "f x \<le> sum_list (map f xs)"
proof -
  have "0 \<le> sum_list (map f (remove1 x xs))"
    by (rule sum_list_nonneg_map) (meson assms(1) notin_set_remove1)
  with assms(2) show ?thesis
    by (simp add: sum_list_remove1 [where f = f] add_increasing2)
qed

lemma of_int_sum_list: "(of_int (sum_list xs) :: rat) = sum_list (map of_int xs)"
  by (induction xs) auto

lemma sum_list_map_upd:
  fixes f :: "'a \<Rightarrow> 'b::comm_monoid_add"
  assumes "distinct xs" and "x \<in> set xs"
  shows "sum_list (map (\<lambda>y. if y = x then f y + k else f y) xs) = sum_list (map f xs) + k"
  using assms
proof (induction xs)
  case (Cons y ys)
  have same: "map (\<lambda>y. if y = x then f y + k else f y) ys = map f ys" if "x \<notin> set ys"
    using that by (intro map_cong) auto
  show ?case
  proof (cases "x = y")
    case True
    with Cons.prems have "x \<notin> set ys" by simp
    from same [OF this] True show ?thesis by (simp only: list.map sum_list.Cons) (simp add: ac_simps)
  next
    case False
    with Cons show ?thesis by (simp add: ac_simps)
  qed
qed simp

lemma sum_list_restrict:
  fixes f :: "'a \<Rightarrow> 'b::comm_monoid_add"
  shows "sum_list (map (\<lambda>x. if P x then f x else 0) xs) = sum_list (map f (filter P xs))"
  by (induction xs) auto

lemma sum_list_perm:
  fixes f :: "'a \<Rightarrow> 'b::comm_monoid_add"
  assumes "distinct xs" "distinct ys" "set xs = set ys"
  shows "sum_list (map f xs) = sum_list (map f ys)"
  using assms by (simp add: sum_list_distinct_conv_sum_set)

section \<open>Python's numeric conversions\<close>

text \<open>\<open>round(x)\<close> to an integer: to nearest, halves to even.\<close>

definition py_round :: "rat \<Rightarrow> int" where
  "py_round x =
     (let f = \<lfloor>x\<rfloor>; d = x - of_int f in
      if d < 1 / 2 then f else if d > 1 / 2 then f + 1
      else if even f then f else f + 1)"

text \<open>\<open>int(x)\<close> of a float: towards zero.\<close>

definition py_trunc :: "rat \<Rightarrow> int" where
  "py_trunc x = (if 0 \<le> x then \<lfloor>x\<rfloor> else \<lceil>x\<rceil>)"

lemma py_round_near: "\<bar>of_int (py_round x) - x\<bar> \<le> 1 / 2"
proof -
  have "of_int \<lfloor>x\<rfloor> \<le> x" "x < of_int \<lfloor>x\<rfloor> + 1"
    by linarith+
  then show ?thesis unfolding py_round_def Let_def by (simp add: abs_le_iff)
qed

lemma py_round_of_int [simp]: "py_round (of_int n) = n"
  by (simp add: py_round_def)

lemma py_trunc_of_int [simp]: "py_trunc (of_int n) = n"
  by (simp add: py_trunc_def)

lemma update_new: "map_of f p = None \<Longrightarrow> AList.update p n f = f @ [(p, n)]"
  by (induction f) (auto split: if_splits)

text \<open>A list comprehension whose elements may raise.\<close>

fun emap :: "('a \<Rightarrow> 'e + 'b) \<Rightarrow> 'a list \<Rightarrow> 'e + 'b list" where
  "emap f [] = Inr []"
| "emap f (x # xs) = ebind (f x) (\<lambda>y. ebind (emap f xs) (\<lambda>ys. Inr (y # ys)))"

lemma emap_cong [fundef_cong]:
  "xs = ys \<Longrightarrow> (\<And>x. x \<in> set ys \<Longrightarrow> f x = g x) \<Longrightarrow> emap f xs = emap g ys"
  by (induction ys arbitrary: xs) simp_all

lemma emap_Inr: "emap f xs = Inr ys \<longleftrightarrow> list_all2 (\<lambda>x y. f x = Inr y) xs ys"
  by (induction xs arbitrary: ys) (auto simp: ebind_eq_Inr list_all2_Cons1)

lemma emap_all_true: "emap f xs = Inr ys \<Longrightarrow> list_all id ys \<longleftrightarrow> list_all (\<lambda>x. f x = Inr True) xs"
  unfolding emap_Inr by (induction xs ys rule: list_all2_induct) auto

lemma emap_all: "list_all (\<lambda>x. f x = Inr True) xs \<Longrightarrow> emap f xs = Inr (map (\<lambda>_. True) xs)"
  by (induction xs) auto

lemma emap_member: "emap f xs = Inr ys \<Longrightarrow> y \<in> set ys \<Longrightarrow> \<exists>x \<in> set xs. f x = Inr y"
  by (induction xs arbitrary: ys) (auto simp: ebind_eq_Inr)

lemma emap_const: "(\<And>x. x \<in> set xs \<Longrightarrow> f x = Inr a) \<Longrightarrow> emap f xs = Inr (map (\<lambda>_. a) xs)"
  by (induction xs) simp_all

end
