(* ===== verification/StorageModel.thy ===== *)
theory StorageModel
  imports Prelude
begin

text \<open>
  \<^verbatim>\<open>lib/sigmond/storage/model.py\<close>: the storage ledger's data (stores, registrations,
  holdings, demands, allotments) and its arithmetic: the headroom and allottable space of a
  store, the pool limit, and the division of a store in equal days of coverage
  (\<open>merge_demands\<close>, \<open>water_fill\<close>, \<open>allot_days\<close>).  The lemmas show that the
  water level found by the loop fills the room exactly unless every client is capped, that
  the division never raises, keeps every floor, and hands out the whole room.
\<close>

section \<open>Data\<close>

definition CLASSES :: "string list" where
  "CLASSES = [''pinned'', ''raw'', ''derived'', ''sent'']"

datatype stage = OK | WATCH | TIGHTEN | DEMAND | FINAL

fun stage_val :: "stage \<Rightarrow> nat" where
  "stage_val OK = 0"
| "stage_val WATCH = 1"
| "stage_val TIGHTEN = 2"
| "stage_val DEMAND = 3"
| "stage_val FINAL = 4"

lemma stage_val_eq_iff [simp]: "stage_val a = stage_val b \<longleftrightarrow> a = b"
  by (cases a; cases b) simp_all

text \<open>\<open>IntEnum\<close>: the stages compare by value.\<close>

instantiation stage :: linorder
begin

definition less_eq_stage :: "stage \<Rightarrow> stage \<Rightarrow> bool" where
  "less_eq_stage a b \<longleftrightarrow> stage_val a \<le> stage_val b"

definition less_stage :: "stage \<Rightarrow> stage \<Rightarrow> bool" where
  "less_stage a b \<longleftrightarrow> stage_val a < stage_val b"

instance
  by standard (auto simp: less_eq_stage_def less_stage_def)

end

lemmas stage_order_defs = less_eq_stage_def less_stage_def

record levels =
  lv_watch :: rat
  lv_tighten :: rat
  lv_demand :: rat
  lv_final :: rat
  lv_client_watch :: rat

definition default_levels :: levels where
  "default_levels = \<lparr>lv_watch = 80, lv_tighten = 85, lv_demand = 90, lv_final = 95,
     lv_client_watch = 90\<rparr>"

record store =
  st_name :: string
  st_mount :: string
  st_kind :: string
  st_capacity :: int
  st_used :: int

definition used_pct :: "store \<Rightarrow> rat" where
  "used_pct s = (if 0 < st_capacity s then 100 * of_int (st_used s) / of_int (st_capacity s)
     else 100)"

record registration =
  rg_client :: string
  rg_store :: string
  rg_paths :: "string list"
  rg_floor_bytes :: int
  rg_policy :: "string option"
  rg_managed :: bool
  rg_mb_per_day :: rat
  rg_max_days :: "rat option"

record holding =
  hd_client :: string
  hd_store :: string
  hd_bytes_by_class :: "(string, int) dict"
  hd_estimated :: bool

definition holding_total :: "holding \<Rightarrow> int" where
  "holding_total h = sum_list (map snd (hd_bytes_by_class h))"

record allotments =
  al_per_client :: "(string, int) dict"
  al_floors_fit :: bool
  al_allottable :: int
  al_days :: "rat option"
  al_pool_caused :: bool

record demand =
  dm_client :: string
  dm_floor_bytes :: int
  dm_rate :: rat
  dm_weight :: rat
  dm_max_days :: "rat option"

section \<open>Space\<close>

definition HEADROOM_FLOOR_BYTES :: "(string, int) dict" where
  "HEADROOM_FLOOR_BYTES =
     [(''guest'', 2 * 2 ^ 30), (''archive'', 2 * 2 ^ 30), (''pool'', 10 * 2 ^ 30)]"

definition STATE_RESERVE_BYTES :: int where
  "STATE_RESERVE_BYTES = 2 ^ 30"

definition below_final :: "store \<Rightarrow> levels \<Rightarrow> int" where
  "below_final s lv = py_round (of_int (st_capacity s) * lv_final lv / 100)"

definition headroom_bytes :: "store \<Rightarrow> levels \<Rightarrow> int" where
  "headroom_bytes s lv =
     (let above_final = max 0 (st_capacity s - below_final s lv)
      in max above_final (dget HEADROOM_FLOOR_BYTES (st_kind s) 0))"

definition allottable_bytes :: "store \<Rightarrow> levels \<Rightarrow> int \<Rightarrow> int \<Rightarrow> int" where
  "allottable_bytes s lv registered_bytes state_reserve =
     (let unregistered = max 0 (st_used s - registered_bytes)
      in max 0 (st_capacity s - state_reserve - headroom_bytes s lv - unregistered))"

definition pool_room_bytes :: "store \<Rightarrow> levels \<Rightarrow> rat \<Rightarrow> int" where
  "pool_room_bytes pool lv share =
     max 0 (py_trunc (of_int (below_final pool lv - st_used pool) * share))"

definition apply_pool_limit :: "int \<Rightarrow> int \<Rightarrow> int \<Rightarrow> int" where
  "apply_pool_limit allottable registered_bytes pool_room =
     max 0 (min allottable (registered_bytes + pool_room))"

section \<open>The division in equal days\<close>

definition norm_weight :: "demand \<Rightarrow> rat" where
  "norm_weight d = (if dm_weight d > 0 then dm_weight d else 1)"

definition norm_cap :: "demand \<Rightarrow> rat option" where
  "norm_cap d = (case dm_max_days d of None \<Rightarrow> None | Some x \<Rightarrow> if x > 0 then Some x else None)"

definition min_cap :: "rat option \<Rightarrow> rat option \<Rightarrow> rat option" where
  "min_cap a b = (case a of None \<Rightarrow> b
     | Some x \<Rightarrow> Some (case b of None \<Rightarrow> x | Some y \<Rightarrow> min x y))"

definition merge_step :: "(string, demand) dict \<Rightarrow> demand \<Rightarrow> (string, demand) dict" where
  "merge_step out d =
     (let w = norm_weight d; rate = max 0 (dm_rate d); cap = norm_cap d in
      case map_of out (dm_client d) of
        None \<Rightarrow> AList.update (dm_client d)
          \<lparr>dm_client = dm_client d, dm_floor_bytes = dm_floor_bytes d, dm_rate = rate,
           dm_weight = w, dm_max_days = cap\<rparr> out
      | Some prev \<Rightarrow> AList.update (dm_client d)
          \<lparr>dm_client = dm_client d, dm_floor_bytes = dm_floor_bytes prev + dm_floor_bytes d,
           dm_rate = dm_rate prev + rate, dm_weight = dm_weight prev,
           dm_max_days = min_cap (dm_max_days prev) cap\<rparr> out)"

definition merge_demands :: "demand list \<Rightarrow> (string, demand) dict" where
  "merge_demands ds = foldl merge_step [] ds"

definition py_div :: "rat \<Rightarrow> rat \<Rightarrow> py_error + rat" where
  "py_div a b = (if b = 0 then Inl ZeroDivisionError else Inr (a / b))"

text \<open>
  The loop of \<open>_water_fill\<close>: the sorted (cap, client) pairs still to close, the open
  clients and the bytes the closed ones took.
\<close>

definition open_slope :: "(string, rat) dict \<Rightarrow> string list \<Rightarrow> rat" where
  "open_slope slopes op = sum_list (map (\<lambda>x. dget slopes x 0) op)"

fun fill_loop ::
  "(string, rat) dict \<Rightarrow> rat \<Rightarrow> (rat \<times> string) list \<Rightarrow> string list \<Rightarrow> rat \<Rightarrow> py_error + rat" where
  "fill_loop slopes room [] op used = py_div (room - used) (open_slope slopes op)"
| "fill_loop slopes room ((cap, c) # rest) op used =
     ebind (py_div (room - used) (open_slope slopes op)) (\<lambda>d.
       if d \<le> cap then Inr d
       else let used' = used + dget slopes c 0 * cap; op' = removeAll c op in
         if op' = [] then Inr cap else fill_loop slopes room rest op' used')"

definition cap_pairs :: "string list \<Rightarrow> (string \<Rightarrow> rat option) \<Rightarrow> (rat \<times> string) list" where
  "cap_pairs cs caps =
     sort (map (\<lambda>c. (case caps c of Some k \<Rightarrow> k | None \<Rightarrow> 0, c)) (filter (\<lambda>c. caps c \<noteq> None) cs))"

definition water_fill ::
  "(string, rat) dict \<Rightarrow> (string \<Rightarrow> rat option) \<Rightarrow> rat \<Rightarrow> py_error + rat" where
  "water_fill slopes caps room =
     fill_loop slopes room (cap_pairs (map fst slopes) caps) (map fst slopes) 0"

definition capped :: "rat option \<Rightarrow> rat \<Rightarrow> rat" where
  "capped cap days = (case cap of None \<Rightarrow> days | Some k \<Rightarrow> min days k)"

definition is_open :: "rat option \<Rightarrow> rat \<Rightarrow> bool" where
  "is_open cap days = (case cap of None \<Rightarrow> True | Some k \<Rightarrow> days < k)"

definition merged_floor :: "(string, demand) dict \<Rightarrow> string \<Rightarrow> int" where
  "merged_floor m c = (case map_of m c of None \<Rightarrow> 0 | Some d \<Rightarrow> dm_floor_bytes d)"

definition merged_rate :: "(string, demand) dict \<Rightarrow> string \<Rightarrow> rat" where
  "merged_rate m c = (case map_of m c of None \<Rightarrow> 0 | Some d \<Rightarrow> dm_rate d)"

definition merged_slope :: "(string, demand) dict \<Rightarrow> string \<Rightarrow> rat" where
  "merged_slope m c = (case map_of m c of None \<Rightarrow> 0 | Some d \<Rightarrow> dm_rate d * dm_weight d)"

definition merged_cap :: "(string, demand) dict \<Rightarrow> string \<Rightarrow> rat option" where
  "merged_cap m c = (case map_of m c of None \<Rightarrow> None | Some d \<Rightarrow> dm_max_days d)"

definition clients_of :: "(string, demand) dict \<Rightarrow> string list" where
  "clients_of m = sort (map fst m)"

definition rated_clients :: "(string, demand) dict \<Rightarrow> string list" where
  "rated_clients m = filter (\<lambda>c. merged_rate m c > 0) (clients_of m)"

text \<open>The bytes above its floor each client gets for \<open>days\<close>, before the remainder.\<close>

definition days_extra :: "(string, demand) dict \<Rightarrow> int \<Rightarrow> rat \<Rightarrow> string \<Rightarrow> int" where
  "days_extra m room days c =
     (if c \<in> set (rated_clients m)
      then min room \<lfloor>merged_slope m c * capped (merged_cap m c) days\<rfloor> else 0)"

definition allot_days :: "demand list \<Rightarrow> int \<Rightarrow> py_error + allotments" where
  "allot_days demands allottable =
     (let m = merge_demands demands;
          clients = clients_of m;
          slopes = graph_on (rated_clients m) (merged_slope m);
          room = allottable - sum_list (map (merged_floor m) clients)
      in if room < 0 then
           Inr \<lparr>al_per_client = graph_on clients (merged_floor m), al_floors_fit = False,
                al_allottable = allottable, al_days = (if slopes \<noteq> [] then Some 0 else None),
                al_pool_caused = False\<rparr>
         else if slopes = [] then
           Inr \<lparr>al_per_client = graph_on clients (merged_floor m), al_floors_fit = True,
                al_allottable = allottable, al_days = None, al_pool_caused = False\<rparr>
         else ebind (water_fill slopes (merged_cap m) (of_int room)) (\<lambda>days.
           let extra0 = graph_on clients (days_extra m room days);
               open_clients = filter (\<lambda>c. is_open (merged_cap m c) days) (sort (map fst slopes));
               extra = (case open_clients of [] \<Rightarrow> extra0
                 | c # _ \<Rightarrow> AList.update c
                     (dget extra0 c 0 + (room - sum_list (map snd extra0))) extra0)
           in Inr \<lparr>al_per_client = graph_on clients (\<lambda>c. merged_floor m c + dget extra c 0),
                   al_floors_fit = True, al_allottable = allottable, al_days = Some days,
                   al_pool_caused = False\<rparr>))"

section \<open>The merged demands\<close>

text \<open>What \<open>_merge\<close> leaves for each client: rates at least 0, weights and caps above 0.\<close>

definition demand_ok :: "demand \<Rightarrow> bool" where
  "demand_ok d \<longleftrightarrow> 0 \<le> dm_rate d \<and> 0 < dm_weight d \<and>
     (\<forall>k. dm_max_days d = Some k \<longrightarrow> 0 < k)"

definition merged_ok :: "(string, demand) dict \<Rightarrow> bool" where
  "merged_ok m \<longleftrightarrow> distinct (map fst m) \<and> (\<forall>c d. map_of m c = Some d \<longrightarrow> demand_ok d)"

lemma norm_cap_pos: "norm_cap d = Some k \<Longrightarrow> 0 < k"
  by (auto simp: norm_cap_def split: option.splits if_splits)

lemma min_cap_pos:
  "min_cap a b = Some k \<Longrightarrow> (\<And>x. a = Some x \<Longrightarrow> 0 < x) \<Longrightarrow> (\<And>x. b = Some x \<Longrightarrow> 0 < x) \<Longrightarrow> 0 < k"
  by (auto simp: min_cap_def min_def split: option.splits if_splits)

lemma merge_step_map_of_other:
  "c \<noteq> dm_client d \<Longrightarrow> map_of (merge_step out d) c = map_of out c"
  by (auto simp: merge_step_def Let_def update_conv split: option.split)

lemma merge_step_ok: "merged_ok out \<Longrightarrow> merged_ok (merge_step out d)"
proof -
  assume ok: "merged_ok out"
  have "distinct (map fst (merge_step out d))"
    using ok by (auto simp: merged_ok_def merge_step_def Let_def distinct_update split: option.split)
  moreover have "demand_ok e" if "map_of (merge_step out d) c = Some e" for c e
  proof (cases "c = dm_client d")
    case True
    have prev: "demand_ok p" if "map_of out c = Some p" for p
      using ok that by (simp add: merged_ok_def)
    show ?thesis
      using that True prev norm_cap_pos [of d]
      by (auto simp: merge_step_def Let_def update_conv demand_ok_def norm_weight_def
          split: option.splits if_splits elim!: min_cap_pos)
  next
    case False
    with that ok show ?thesis by (simp add: merge_step_map_of_other merged_ok_def)
  qed
  ultimately show ?thesis by (simp add: merged_ok_def)
qed

lemma foldl_merge_ok: "merged_ok out \<Longrightarrow> merged_ok (foldl merge_step out ds)"
  by (induction ds arbitrary: out) (simp_all add: merge_step_ok)

lemma merge_demands_ok: "merged_ok (merge_demands ds)"
  unfolding merge_demands_def by (rule foldl_merge_ok) (simp add: merged_ok_def)

lemma fst_merge_step: "fst ` set (merge_step out d) = insert (dm_client d) (fst ` set out)"
  by (auto simp: merge_step_def Let_def dom_update split: option.split)

lemma fst_foldl_merge:
  "fst ` set (foldl merge_step out ds) = fst ` set out \<union> dm_client ` set ds"
  by (induction ds arbitrary: out) (auto simp: fst_merge_step)

lemma merged_floor_step:
  "merged_floor (merge_step out d) c =
     merged_floor out c + (if dm_client d = c then dm_floor_bytes d else 0)"
  by (auto simp: merged_floor_def merge_step_def Let_def update_conv split: option.splits)

lemma merged_floor_foldl:
  "merged_floor (foldl merge_step out ds) c =
     merged_floor out c + (\<Sum>d\<leftarrow>filter (\<lambda>d. dm_client d = c) ds. dm_floor_bytes d)"
  by (induction ds arbitrary: out) (simp_all add: merged_floor_step)

lemma merged_rate_step:
  "merged_rate (merge_step out d) c =
     merged_rate out c + (if dm_client d = c then max 0 (dm_rate d) else 0)"
  by (auto simp: merged_rate_def merge_step_def Let_def update_conv split: option.splits)

lemma merged_rate_foldl:
  "merged_rate (foldl merge_step out ds) c =
     merged_rate out c + (\<Sum>d\<leftarrow>filter (\<lambda>d. dm_client d = c) ds. max 0 (dm_rate d))"
  by (induction ds arbitrary: out) (simp_all add: merged_rate_step)

lemma merged_floor_merge:
  "merged_floor (merge_demands ds) c = (\<Sum>d\<leftarrow>filter (\<lambda>d. dm_client d = c) ds. dm_floor_bytes d)"
  by (simp add: merge_demands_def merged_floor_foldl) (simp add: merged_floor_def)

lemma merged_rate_merge:
  "merged_rate (merge_demands ds) c = (\<Sum>d\<leftarrow>filter (\<lambda>d. dm_client d = c) ds. max 0 (dm_rate d))"
  by (simp add: merge_demands_def merged_rate_foldl) (simp add: merged_rate_def)

lemma clients_of_props:
  "set (clients_of (merge_demands ds)) = dm_client ` set ds"
  "distinct (clients_of (merge_demands ds))"
  using merge_demands_ok [of ds] fst_foldl_merge [of "[]" ds]
  by (simp_all add: clients_of_def merged_ok_def merge_demands_def)

lemma merged_slope_pos:
  assumes "merged_ok m" and "c \<in> set (rated_clients m)"
  shows "0 < merged_slope m c"
proof (cases "map_of m c")
  case None
  with assms(2) show ?thesis by (simp add: rated_clients_def merged_rate_def)
next
  case (Some d)
  with assms have "0 < dm_rate d" "demand_ok d"
    by (auto simp: rated_clients_def merged_rate_def merged_ok_def)
  with Some show ?thesis by (simp add: merged_slope_def demand_ok_def)
qed

lemma merged_cap_pos: "merged_ok m \<Longrightarrow> merged_cap m c = Some k \<Longrightarrow> 0 < k"
  by (auto simp: merged_cap_def merged_ok_def demand_ok_def split: option.splits)

section \<open>The water level\<close>

lemma set_cap_pairs: "(k, c) \<in> set (cap_pairs cs caps) \<longleftrightarrow> c \<in> set cs \<and> caps c = Some k"
  by (auto simp: cap_pairs_def image_iff)

lemma distinct_cap_pairs: "distinct cs \<Longrightarrow> distinct (map snd (cap_pairs cs caps))"
proof -
  assume "distinct cs"
  then have "distinct (map snd (map (\<lambda>c. (case caps c of Some k \<Rightarrow> k | None \<Rightarrow> 0, c))
      (filter (\<lambda>c. caps c \<noteq> None) cs)))"
    by (simp add: comp_def)
  then show ?thesis unfolding cap_pairs_def by (rule distinct_map_sort)
qed

lemma sorted_cap_pairs: "sorted (map fst (cap_pairs cs caps))"
proof -
  have "sorted (cap_pairs cs caps)" by (simp add: cap_pairs_def)
  then show ?thesis
    unfolding sorted_map by (rule sorted_wrt_mono_rel [rotated]) (auto simp: less_eq_prod_def)
qed

lemma open_slope_remove:
  "distinct op \<Longrightarrow> c \<in> set op \<Longrightarrow>
     open_slope slopes op = dget slopes c 0 + open_slope slopes (removeAll c op)"
  by (simp add: open_slope_def sum_list_remove1 distinct_remove1_removeAll)

lemma open_slope_pos:
  "op \<noteq> [] \<Longrightarrow> (\<And>x. x \<in> set op \<Longrightarrow> 0 < dget slopes x 0) \<Longrightarrow> 0 < open_slope slopes op"
  unfolding open_slope_def by (rule sum_list_pos)

text \<open>The bytes the clients of \<open>cs\<close> take in \<open>d\<close> days.\<close>

definition taken :: "(string, rat) dict \<Rightarrow> (string \<Rightarrow> rat option) \<Rightarrow> string list \<Rightarrow> rat \<Rightarrow> rat" where
  "taken slopes caps cs d = (\<Sum>c\<leftarrow>cs. dget slopes c 0 * capped (caps c) d)"

lemma taken_remove:
  "distinct op \<Longrightarrow> c \<in> set op \<Longrightarrow>
     taken slopes caps op d = dget slopes c 0 * capped (caps c) d + taken slopes caps (removeAll c op) d"
  by (simp add: taken_def sum_list_remove1 distinct_remove1_removeAll)

lemma taken_uncapped:
  assumes "\<And>c k. c \<in> set op \<Longrightarrow> caps c = Some k \<Longrightarrow> d \<le> k"
  shows "taken slopes caps op d = open_slope slopes op * d"
proof -
  have "taken slopes caps op d = (\<Sum>c\<leftarrow>op. dget slopes c 0 * d)"
    unfolding taken_def
    by (rule arg_cong [where f = sum_list], rule map_cong)
      (auto simp: capped_def min_def dest: assms split: option.split)
  then show ?thesis by (simp add: open_slope_def sum_list_mult_const)
qed

lemma fill_loop_level:
  assumes "distinct op" "op \<noteq> []"
    and "\<And>x. x \<in> set op \<Longrightarrow> 0 < dget slopes x 0"
    and "\<And>k c. (k, c) \<in> set rest \<longleftrightarrow> c \<in> set op \<and> caps c = Some k"
    and "distinct (map snd rest)" "sorted (map fst rest)"
    and "\<And>k c. (k, c) \<in> set rest \<Longrightarrow> l \<le> k"
    and "l * open_slope slopes op \<le> room - used"
  shows "\<exists>d. fill_loop slopes room rest op used = Inr d \<and> l \<le> d \<and>
     taken slopes caps op d \<le> room - used \<and>
     ((\<exists>c\<in>set op. is_open (caps c) d) \<longrightarrow> taken slopes caps op d = room - used)"
  using assms
proof (induction rest arbitrary: op used l)
  case Nil
  let ?S = "open_slope slopes op"
  let ?d = "(room - used) / ?S"
  have S: "0 < ?S" using Nil.prems by (intro open_slope_pos) auto
  have "taken slopes caps op ?d = ?S * ?d"
    using Nil.prems(4) by (intro taken_uncapped) auto
  then have "taken slopes caps op ?d = room - used" using S by simp
  moreover have "l \<le> ?d" using S Nil.prems(8) by (simp add: pos_le_divide_eq)
  ultimately show ?case using S by (simp add: py_div_def)
next
  case (Cons p rest)
  obtain cap c where p: "p = (cap, c)" by (cases p)
  let ?S = "open_slope slopes op"
  let ?d = "(room - used) / ?S"
  have S: "0 < ?S" using Cons.prems by (intro open_slope_pos) auto
  have c: "c \<in> set op" "caps c = Some cap" using Cons.prems(4) [of cap c] p by auto
  have least: "cap \<le> k" if "(k, x) \<in> set (p # rest)" for k x
    using Cons.prems(6) that p by auto
  show ?case
  proof (cases "?d \<le> cap")
    case True
    have "taken slopes caps op ?d = ?S * ?d"
      using Cons.prems(4) least True by (intro taken_uncapped) (meson order_trans)
    then have "taken slopes caps op ?d = room - used" using S by simp
    moreover have "l \<le> ?d" using S Cons.prems(8) by (simp add: pos_le_divide_eq)
    ultimately show ?thesis using S True p by (simp add: py_div_def)
  next
    case False
    let ?op = "removeAll c op" and ?used = "used + dget slopes c 0 * cap"
    have slope: "?S = dget slopes c 0 + open_slope slopes ?op"
      using Cons.prems(1) c(1) by (rule open_slope_remove)
    have "cap * ?S < room - used" using S False by (simp add: pos_less_divide_eq not_le)
    then have rise: "cap * open_slope slopes ?op < room - ?used"
      by (simp add: slope algebra_simps)
    have l: "l \<le> cap" using Cons.prems(7) p by auto
    have split: "taken slopes caps op d = dget slopes c 0 * cap + taken slopes caps ?op d"
      if "cap \<le> d" for d
      using taken_remove [OF Cons.prems(1) c(1), of slopes caps d] c(2) that
      by (simp add: capped_def min_def)
    show ?thesis
    proof (cases "?op = []")
      case True
      have none: "\<not> is_open (caps x) cap" if "x \<in> set op" for x
        using that True c(2) by (auto simp: is_open_def removeAll_filter_not_eq filter_empty_conv)
      have "taken slopes caps op cap \<le> room - used"
        using rise split [of cap] True by (simp add: taken_def open_slope_def)
      then show ?thesis using S False True p l none by (simp add: py_div_def Let_def)
    next
      case ne: False
      have iff: "(k, x) \<in> set rest \<longleftrightarrow> x \<in> set ?op \<and> caps x = Some k" for k x
        using Cons.prems(4) [of k x] Cons.prems(5) p c
        by (auto simp: image_iff)
      have "\<exists>d. fill_loop slopes room rest ?op ?used = Inr d \<and> cap \<le> d \<and>
          taken slopes caps ?op d \<le> room - ?used \<and>
          ((\<exists>c\<in>set ?op. is_open (caps c) d) \<longrightarrow> taken slopes caps ?op d = room - ?used)"
      proof (rule Cons.IH)
        show "distinct ?op" using Cons.prems(1) by (simp add: distinct_removeAll)
        show "?op \<noteq> []" by (rule ne)
        show "0 < dget slopes x 0" if "x \<in> set ?op" for x using Cons.prems(3) that by auto
        show "(k, x) \<in> set rest \<longleftrightarrow> x \<in> set ?op \<and> caps x = Some k" for k x by (rule iff)
        show "distinct (map snd rest)" "sorted (map fst rest)" using Cons.prems(5,6) by auto
        show "cap \<le> k" if "(k, x) \<in> set rest" for k x using least that by auto
        show "cap * open_slope slopes ?op \<le> room - ?used" using rise by simp
      qed
      then obtain d where d: "fill_loop slopes room rest ?op ?used = Inr d" "cap \<le> d"
        "taken slopes caps ?op d \<le> room - ?used"
        "(\<exists>c\<in>set ?op. is_open (caps c) d) \<longrightarrow> taken slopes caps ?op d = room - ?used"
        by blast
      have "\<not> is_open (caps c) d" using c(2) d(2) by (simp add: is_open_def)
      then have "(\<exists>x\<in>set op. is_open (caps x) d) \<longrightarrow> (\<exists>x\<in>set ?op. is_open (caps x) d)" by auto
      with d split [OF d(2)] show ?thesis
        using S False ne p l by (auto simp: py_div_def Let_def)
    qed
  qed
qed

lemma water_fill_level:
  assumes "distinct (map fst slopes)" "slopes \<noteq> []" "0 \<le> room"
    and "\<And>c. c \<in> set (map fst slopes) \<Longrightarrow> 0 < dget slopes c 0"
    and "\<And>c k. caps c = Some k \<Longrightarrow> 0 < k"
  obtains d where "water_fill slopes caps room = Inr d" "0 \<le> d"
    "taken slopes caps (map fst slopes) d \<le> room"
    "(\<exists>c\<in>set (map fst slopes). is_open (caps c) d) \<longrightarrow> taken slopes caps (map fst slopes) d = room"
proof -
  have "\<exists>d. fill_loop slopes room (cap_pairs (map fst slopes) caps) (map fst slopes) 0 = Inr d \<and>
      0 \<le> d \<and> taken slopes caps (map fst slopes) d \<le> room - 0 \<and>
      ((\<exists>c\<in>set (map fst slopes). is_open (caps c) d) \<longrightarrow>
        taken slopes caps (map fst slopes) d = room - 0)"
    using assms
    by (intro fill_loop_level distinct_cap_pairs sorted_cap_pairs)
      (auto simp: set_cap_pairs intro: less_imp_le)
  with that show ?thesis by (auto simp: water_fill_def)
qed

section \<open>The allotments\<close>

definition allot_room :: "demand list \<Rightarrow> int \<Rightarrow> int" where
  "allot_room ds a = a - sum_list (map (merged_floor (merge_demands ds)) (clients_of (merge_demands ds)))"

text \<open>The level, as \<open>allot_days\<close> asks for it.\<close>

lemma allot_level:
  assumes "rated_clients (merge_demands ds) \<noteq> []" and "0 \<le> room"
  obtains d where
    "water_fill (graph_on (rated_clients (merge_demands ds)) (merged_slope (merge_demands ds)))
       (merged_cap (merge_demands ds)) (of_int room) = Inr d"
    "0 \<le> d"
    "(\<Sum>c\<leftarrow>rated_clients (merge_demands ds).
        merged_slope (merge_demands ds) c * capped (merged_cap (merge_demands ds) c) d) \<le> of_int room"
proof -
  let ?m = "merge_demands ds"
  let ?slopes = "graph_on (rated_clients ?m) (merged_slope ?m)"
  have ok: "merged_ok ?m" by (rule merge_demands_ok)
  have dist: "distinct (rated_clients ?m)"
    using clients_of_props(2) by (simp add: rated_clients_def)
  obtain d where d: "water_fill ?slopes (merged_cap ?m) (of_int room) = Inr d" "0 \<le> d"
    "taken ?slopes (merged_cap ?m) (map fst ?slopes) d \<le> of_int room"
  proof (rule water_fill_level [of ?slopes "of_int room" "merged_cap ?m"])
    show "distinct (map fst ?slopes)" "0 \<le> (of_int room :: rat)" using dist assms(2) by simp_all
    show "?slopes \<noteq> []" using assms(1) by (simp add: graph_on_def)
    show "0 < dget ?slopes c 0" if "c \<in> set (map fst ?slopes)" for c
      using that merged_slope_pos [OF ok] by simp
    show "0 < k" if "merged_cap ?m c = Some k" for c k using ok that by (rule merged_cap_pos)
  qed
  have "taken ?slopes (merged_cap ?m) (map fst ?slopes) d =
      (\<Sum>c\<leftarrow>rated_clients ?m. merged_slope ?m c * capped (merged_cap ?m c) d)"
    unfolding taken_def map_fst_graph_on
    by (rule arg_cong [where f = sum_list], rule map_cong) simp_all
  with d that show ?thesis by simp
qed

lemma capped_nonneg: "0 \<le> d \<Longrightarrow> (\<And>k. cap = Some k \<Longrightarrow> 0 < k) \<Longrightarrow> 0 \<le> capped cap d"
  by (cases cap) (auto simp: capped_def less_imp_le)

lemma days_extra_bounds:
  fixes ds :: "demand list" and days :: rat
  defines "m \<equiv> merge_demands ds"
  assumes "0 \<le> room" "0 \<le> days"
    and level: "(\<Sum>c\<leftarrow>rated_clients m. merged_slope m c * capped (merged_cap m c) days) \<le> of_int room"
  shows "0 \<le> days_extra m room days c"
    and "sum_list (map (days_extra m room days) (clients_of m)) \<le> room"
    and "c \<in> set (rated_clients m) \<Longrightarrow>
      days_extra m room days c = \<lfloor>merged_slope m c * capped (merged_cap m c) days\<rfloor>"
proof -
  let ?t = "\<lambda>c. merged_slope m c * capped (merged_cap m c) days"
  have ok: "merged_ok m" unfolding m_def by (rule merge_demands_ok)
  have t: "0 \<le> ?t x" if "x \<in> set (rated_clients m)" for x
    using merged_slope_pos [OF ok that] capped_nonneg [OF assms(3)] merged_cap_pos [OF ok]
    by (simp add: mult_nonneg_nonneg less_imp_le)
  show "0 \<le> days_extra m room days c"
    using t [of c] assms(2) by (simp add: days_extra_def)
  have le: "of_int (days_extra m room days x) \<le> ?t x" if "x \<in> set (rated_clients m)" for x
    using that by (simp add: days_extra_def min_def) (meson floor_le_iff linear of_int_floor_le order_trans of_int_le_iff)
  have "sum_list (map (days_extra m room days) (clients_of m))
      = sum_list (map (days_extra m room days) (rated_clients m))"
  proof -
    have "map (days_extra m room days) (clients_of m) =
        map (\<lambda>c. if merged_rate m c > 0 then days_extra m room days c else 0) (clients_of m)"
      by (rule map_cong) (auto simp: days_extra_def rated_clients_def)
    then show ?thesis by (simp only: sum_list_restrict) (simp add: rated_clients_def)
  qed
  moreover have "(of_int (sum_list (map (days_extra m room days) (rated_clients m))) :: rat) \<le> of_int room"
  proof -
    have "(of_int (sum_list (map (days_extra m room days) (rated_clients m))) :: rat)
        = (\<Sum>x\<leftarrow>rated_clients m. of_int (days_extra m room days x))"
      by (simp add: of_int_sum_list comp_def)
    also have "\<dots> \<le> (\<Sum>x\<leftarrow>rated_clients m. ?t x)" by (rule sum_list_le) (rule le)
    finally show ?thesis using level by simp
  qed
  ultimately show "sum_list (map (days_extra m room days) (clients_of m)) \<le> room" by simp
  show "days_extra m room days c = \<lfloor>?t c\<rfloor>" if c: "c \<in> set (rated_clients m)"
  proof -
    have "?t c \<le> (\<Sum>x\<leftarrow>rated_clients m. ?t x)" by (rule sum_list_member_le [OF t c])
    then have "?t c \<le> of_int room" using level by simp
    then have "\<lfloor>?t c\<rfloor> \<le> room" by linarith
    then show ?thesis using c by (simp add: days_extra_def)
  qed
qed

text \<open>The client that takes the rounding remainder: the first open one by name.\<close>

definition remainder_client :: "(string, demand) dict \<Rightarrow> rat \<Rightarrow> string option" where
  "remainder_client m days =
     (case filter (\<lambda>c. is_open (merged_cap m c) days) (sort (rated_clients m)) of
        [] \<Rightarrow> None | c # _ \<Rightarrow> Some c)"

text \<open>The three ways \<open>allot_days\<close> ends.\<close>

lemma allot_days_cases:
  fixes ds :: "demand list"
  defines "m \<equiv> merge_demands ds"
  obtains
    (short) "allot_room ds a < 0"
      "allot_days ds a = Inr \<lparr>al_per_client = graph_on (clients_of m) (merged_floor m),
         al_floors_fit = False, al_allottable = a,
         al_days = (if rated_clients m \<noteq> [] then Some 0 else None), al_pool_caused = False\<rparr>"
  | (unrated) "0 \<le> allot_room ds a" "rated_clients m = []"
      "allot_days ds a = Inr \<lparr>al_per_client = graph_on (clients_of m) (merged_floor m),
         al_floors_fit = True, al_allottable = a, al_days = None, al_pool_caused = False\<rparr>"
  | (rated) days extra where "0 \<le> allot_room ds a" "rated_clients m \<noteq> []" "0 \<le> days"
      "allot_days ds a = Inr \<lparr>al_per_client = graph_on (clients_of m) (\<lambda>c. merged_floor m c + extra c),
         al_floors_fit = True, al_allottable = a, al_days = Some days, al_pool_caused = False\<rparr>"
      "\<And>c. 0 \<le> extra c"
      "sum_list (map extra (clients_of m)) \<le> allot_room ds a"
      "\<And>c. c \<in> set (rated_clients m) \<Longrightarrow>
         \<lfloor>merged_slope m c * capped (merged_cap m c) days\<rfloor> \<le> extra c"
      "\<And>c. c \<in> set (rated_clients m) \<Longrightarrow> is_open (merged_cap m c) days \<Longrightarrow>
         sum_list (map extra (clients_of m)) = allot_room ds a"
      "\<And>c. c \<notin> set (rated_clients m) \<Longrightarrow> extra c = 0"
      "\<And>c. c \<in> set (rated_clients m) \<Longrightarrow> remainder_client m days \<noteq> Some c \<Longrightarrow>
         extra c = \<lfloor>merged_slope m c * capped (merged_cap m c) days\<rfloor>"
proof -
  let ?room = "allot_room ds a"
  let ?slopes = "graph_on (rated_clients m) (merged_slope m)"
  have slopes_Nil: "?slopes = [] \<longleftrightarrow> rated_clients m = []" by (simp add: graph_on_def)
  consider "?room < 0" | "0 \<le> ?room" "rated_clients m = []" | "0 \<le> ?room" "rated_clients m \<noteq> []"
    by linarith
  then show thesis
  proof cases
    case 1
    then show ?thesis by (intro short) (simp_all add: allot_days_def Let_def allot_room_def m_def graph_on_def)
  next
    case 2
    then show ?thesis by (intro unrated) (simp_all add: allot_days_def Let_def allot_room_def m_def graph_on_def)
  next
    case 3
    obtain days where w: "water_fill ?slopes (merged_cap m) (of_int ?room) = Inr days" and "0 \<le> days"
      and level: "(\<Sum>c\<leftarrow>rated_clients m. merged_slope m c * capped (merged_cap m c) days) \<le> of_int ?room"
      using allot_level 3 unfolding m_def by blast
    note bounds = days_extra_bounds [OF 3(1) \<open>0 \<le> days\<close> level [unfolded m_def], folded m_def]
    let ?e0 = "days_extra m ?room days" and ?cs = "clients_of m"
    let ?oc = "filter (\<lambda>c. is_open (merged_cap m c) days) (sort (rated_clients m))"
    define rem where "rem = ?room - sum_list (map ?e0 ?cs)"
    define extra where "extra = (\<lambda>c. if ?oc \<noteq> [] \<and> c = hd ?oc then ?e0 c + rem else ?e0 c)"
    have rem: "0 \<le> rem" using bounds(2) by (simp add: rem_def)
    have dist: "distinct ?cs" unfolding m_def by (rule clients_of_props)
    have sub: "set (rated_clients m) \<subseteq> set ?cs" by (auto simp: rated_clients_def)
    have hd_oc: "hd ?oc \<in> set (rated_clients m)" "is_open (merged_cap m (hd ?oc)) days" if "?oc \<noteq> []"
      using hd_in_set [OF that] by auto
    have dist_upd: "sum_list (map extra ?cs) = ?room" if "?oc \<noteq> []"
      using sum_list_map_upd [of ?cs "hd ?oc" ?e0 rem] dist hd_oc(1) [OF that] sub that
      by (auto simp: extra_def rem_def)
    have all: "sum_list (map extra ?cs) \<le> ?room"
      using dist_upd bounds(2) by (cases "?oc = []") (auto simp: extra_def)
    have al: "allot_days ds a = Inr \<lparr>al_per_client = graph_on ?cs (\<lambda>c. merged_floor m c + extra c),
        al_floors_fit = True, al_allottable = a, al_days = Some days, al_pool_caused = False\<rparr>"
    proof -
      have "dget (case ?oc of [] \<Rightarrow> graph_on ?cs ?e0
            | c # _ \<Rightarrow> AList.update c (dget (graph_on ?cs ?e0) c 0 +
                (?room - sum_list (map snd (graph_on ?cs ?e0)))) (graph_on ?cs ?e0)) c 0 = extra c"
        if "c \<in> set ?cs" for c
        using that hd_oc sub by (cases ?oc) (auto simp: extra_def rem_def dget_update)
      then have eq: "graph_on ?cs (\<lambda>c. merged_floor m c + dget (case ?oc of [] \<Rightarrow> graph_on ?cs ?e0
            | c # _ \<Rightarrow> AList.update c (dget (graph_on ?cs ?e0) c 0 +
                (?room - sum_list (map snd (graph_on ?cs ?e0)))) (graph_on ?cs ?e0)) c 0)
          = graph_on ?cs (\<lambda>c. merged_floor m c + extra c)"
        by (intro graph_on_cong) simp
      have room: "a - sum_list (map (merged_floor m) ?cs) = ?room"
        by (simp add: allot_room_def m_def)
      show ?thesis
        unfolding allot_days_def Let_def m_def [symmetric] room
        using 3 w eq slopes_Nil by (simp del: of_int_diff)
    qed
    show thesis
    proof (rule rated [OF 3 \<open>0 \<le> days\<close> al _ all])
      show "0 \<le> extra c" for c using bounds(1) [of c] rem by (auto simp: extra_def)
      show "\<lfloor>merged_slope m c * capped (merged_cap m c) days\<rfloor> \<le> extra c"
        if "c \<in> set (rated_clients m)" for c
        using bounds(3) [OF that] rem by (auto simp: extra_def)
      show "sum_list (map extra ?cs) = ?room"
        if "c \<in> set (rated_clients m)" "is_open (merged_cap m c) days" for c
        using that dist_upd by (metis (no_types, lifting) filter_empty_conv set_sort)
      show "extra c = 0" if "c \<notin> set (rated_clients m)" for c
        using that hd_oc(1) by (auto simp: extra_def days_extra_def)
      show "extra c = \<lfloor>merged_slope m c * capped (merged_cap m c) days\<rfloor>"
        if "c \<in> set (rated_clients m)" "remainder_client m days \<noteq> Some c" for c
        using that(2) bounds(3) [OF that(1)]
        by (auto simp: extra_def remainder_client_def split: list.splits)
    qed
  qed
qed

section \<open>What an allotment promises\<close>

lemma allot_days_total: "\<exists>al. allot_days ds a = Inr al"
  by (rule allot_days_cases [of ds a]) auto

lemma allot_days_keys:
  "allot_days ds a = Inr al \<Longrightarrow> map fst (al_per_client al) = clients_of (merge_demands ds)"
  by (rule allot_days_cases [of ds a]) auto

lemma floor_in_allotment:
  assumes "allot_days ds a = Inr al" and "c \<in> dm_client ` set ds"
  shows "merged_floor (merge_demands ds) c \<le> dget (al_per_client al) c 0"
  using assms by (cases rule: allot_days_cases [of ds a]) (auto simp: clients_of_props(1))

lemma allot_days_fit:
  "allot_days ds a = Inr al \<Longrightarrow> al_floors_fit al \<longleftrightarrow> 0 \<le> allot_room ds a"
  by (rule allot_days_cases [of ds a]) auto

lemma allot_days_frame:
  "allot_days ds a = Inr al \<Longrightarrow> al_allottable al = a \<and> \<not> al_pool_caused al"
  by (rule allot_days_cases [of ds a]) auto

lemma sum_floors_split:
  "sum_list (map (\<lambda>c. merged_floor m c + extra c) cs) =
     sum_list (map (merged_floor m) cs) + sum_list (map extra cs)"
  by (simp add: sum_list_addf)

lemma allot_days_within:
  assumes "allot_days ds a = Inr al" and "al_floors_fit al"
  shows "sum_list (map snd (al_per_client al)) \<le> a"
  using assms
  by (cases rule: allot_days_cases [of ds a]) (auto simp: sum_floors_split allot_room_def)


definition example_demands :: "demand list" where
  "example_demands =
     [\<lparr>dm_client = ''wspr'', dm_floor_bytes = 100, dm_rate = 10, dm_weight = 1, dm_max_days = None\<rparr>,
      \<lparr>dm_client = ''psk'', dm_floor_bytes = 50, dm_rate = 5, dm_weight = 2, dm_max_days = Some 3\<rparr>]"

lemma example_allotment:
  "allot_days example_demands 1001 =
     Inr \<lparr>al_per_client = [(''psk'', 80), (''wspr'', 921)], al_floors_fit = True,
          al_allottable = 1001, al_days = Some (821 / 10), al_pool_caused = False\<rparr>"
  by code_simp


text \<open>Equal days of coverage: when the floors fit and some client writes, there is one number
  of days \<open>D\<close> such that every client holds its floor plus its rate times its weight times
  the smaller of \<open>D\<close> and its own retention cap, rounded down (a client without a rate holds
  its floor); only the client that takes the rounding remainder may hold more.\<close>

theorem allot_days_equal_days:
  assumes "allot_days ds a = Inr al" and "al_days al = Some D" and "al_floors_fit al"
    and "c \<in> dm_client ` set ds"
  shows "let m = merge_demands ds;
             share = merged_floor m c +
               (if 0 < merged_rate m c then \<lfloor>merged_slope m c * capped (merged_cap m c) D\<rfloor> else 0)
         in share \<le> dget (al_per_client al) c 0 \<and>
            (remainder_client m D \<noteq> Some c \<longrightarrow> dget (al_per_client al) c 0 = share)"
proof -
  have "c \<in> set (clients_of (merge_demands ds))" using assms(4) by (simp only: clients_of_props(1))
  with assms(1-3) show ?thesis
    by (cases rule: allot_days_cases [of ds a]) (auto simp: rated_clients_def Let_def)
qed

theorem allot_days_equal_days_witness:
  "dget [(''psk'', 80), (''wspr'', 921)] ''psk'' 0 = (50 :: int) + \<lfloor>10 * capped (Some 3) (821 / 10)\<rfloor>"
proof -
  let ?m = "merge_demands example_demands"
  have c: "''psk'' \<in> dm_client ` set example_demands" by (simp add: example_demands_def)
  have facts: "remainder_client ?m (821 / 10) \<noteq> Some ''psk''" "merged_floor ?m ''psk'' = 50"
    "0 < merged_rate ?m ''psk''" "merged_slope ?m ''psk'' = 10" "merged_cap ?m ''psk'' = Some 3"
    by code_simp+
  show ?thesis
    using allot_days_equal_days [OF example_allotment _ _ c, of "821 / 10"] facts
    by (simp add: Let_def)
qed

end
