(* ===== verification/StorageLadder.thy ===== *)
theory StorageLadder
  imports StorageModel
begin

text \<open>
  \<^verbatim>\<open>lib/sigmond/storage/ladder.py\<close>: from one measurement to a decision.  A store's stage
  (with its hysteresis), the targets that bring a store back to its WATCH level, and
  \<open>decide\<close>, one pass over the stores and their clients that yields the stages, the
  actions, the alarms and the targets.  The alarm texts are kept as values of
  \<open>ladder_msg\<close>, one constructor per format string with what it interpolates.

  The contract the ladder relies on is the locale \<open>days_allotter\<close>: what a division of a store
  in days promises its caller.  It is interpreted on \<open>allot_days\<close>.
\<close>

section \<open>Data\<close>

definition DEMAND_DEADLINE_S :: rat where "DEMAND_DEADLINE_S = 600"
definition HYSTERESIS_PCT :: rat where "HYSTERESIS_PCT = 2"
definition UNMANAGED_FINAL_GRACE_S :: rat where "UNMANAGED_FINAL_GRACE_S = 900"

datatype severity = WARNING | ERROR | CRITICAL

fun severity_val :: "severity \<Rightarrow> int" where
  "severity_val WARNING = 4"
| "severity_val ERROR = 3"
| "severity_val CRITICAL = 2"

lemma severity_val_eq_iff [simp]: "severity_val a = severity_val b \<longleftrightarrow> a = b"
  by (cases a; cases b) simp_all

record trim_record =
  tr_requested_at :: rat
  tr_answered_at :: "rat option"
  tr_ok :: bool
  tr_final_since :: "rat option"

record action =
  ac_kind :: string
  ac_store :: string
  ac_client :: "string option"
  ac_fit_bytes :: "int option"
  ac_policy :: "string option"

datatype stop_reason = FailedToAnswer | UnmanagedOver

datatype ladder_msg =
    FloorsPoolMsg string int rat stage
  | FloorsMsg string int
  | StoreMsg string rat stage "(string \<times> int) list" "(rat \<times> rat \<times> rat) option"
  | DemandOverdueMsg string string rat
  | HandsOffHeldMsg string string stop_reason
  | ClientWatchMsg "(string \<times> int \<times> int \<times> string) list"
  | HostReportMsg string

type_synonym alarm_dict = "(string, severity \<times> ladder_msg) dict"

record decision =
  dc_stages :: "(string, stage) dict"
  dc_actions :: "action list"
  dc_alarms :: alarm_dict
  dc_targets :: "(string, (string, int) dict) dict"
  dc_fill_stages :: "(string, stage) dict"

section \<open>The stage of a store\<close>

definition hours_to_full :: "store \<Rightarrow> rat option \<Rightarrow> rat option" where
  "hours_to_full s churn = (case churn of None \<Rightarrow> None
     | Some g \<Rightarrow> if \<not> g > 0 then None else Some (of_int (max 0 (st_capacity s - st_used s)) / g))"

text \<open>The level a stage begins at; \<open>Stage.OK\<close> has none (the dictionary lookup would raise).\<close>

fun level_of :: "stage \<Rightarrow> levels \<Rightarrow> rat option" where
  "level_of OK lv = None"
| "level_of WATCH lv = Some (lv_watch lv)"
| "level_of TIGHTEN lv = Some (lv_tighten lv)"
| "level_of DEMAND lv = Some (lv_demand lv)"
| "level_of FINAL lv = Some (lv_final lv)"

definition raw_stage :: "store \<Rightarrow> levels \<Rightarrow> rat option \<Rightarrow> rat \<Rightarrow> stage" where
  "raw_stage s lv churn horizon_h =
     (let pct = used_pct s in
      if pct \<ge> lv_final lv then FINAL
      else if pct \<ge> lv_demand lv then DEMAND
      else if pct \<ge> lv_tighten lv then TIGHTEN
      else if pct \<ge> lv_watch lv then WATCH
      else case hours_to_full s churn of
        Some h \<Rightarrow> if h < horizon_h then WATCH else OK
      | None \<Rightarrow> OK)"

definition holds_level :: "levels \<Rightarrow> rat \<Rightarrow> stage \<Rightarrow> bool" where
  "holds_level lv pct s = (case level_of s lv of
     Some l \<Rightarrow> pct \<ge> l - HYSTERESIS_PCT | None \<Rightarrow> False)"

text \<open>\<open>range(int(previous), int(raw), -1)\<close> as stages.\<close>

definition stages_down :: "stage \<Rightarrow> stage \<Rightarrow> stage list" where
  "stages_down previous raw =
     filter (\<lambda>s. raw < s \<and> s \<le> previous) [FINAL, DEMAND, TIGHTEN, WATCH]"

definition store_stage ::
  "store \<Rightarrow> levels \<Rightarrow> rat option \<Rightarrow> rat \<Rightarrow> stage option \<Rightarrow> stage" where
  "store_stage s lv churn horizon_h previous =
     (let pct = used_pct s; raw = raw_stage s lv churn horizon_h in
      case previous of None \<Rightarrow> raw
      | Some p \<Rightarrow> if p \<le> raw then raw
          else case find (holds_level lv pct) (stages_down p raw) of
            Some st \<Rightarrow> st | None \<Rightarrow> raw)"

section \<open>Targets under pressure\<close>

definition demand_floor :: "demand list \<Rightarrow> string \<Rightarrow> int" where
  "demand_floor ds c = (\<Sum>d\<leftarrow>filter (\<lambda>d. dm_client d = c) ds. dm_floor_bytes d)"

definition zero_demand :: "string \<Rightarrow> demand" where
  "zero_demand c = \<lparr>dm_client = c, dm_floor_bytes = 0, dm_rate = 0, dm_weight = 1, dm_max_days = None\<rparr>"

definition watch_reduction :: "store \<Rightarrow> levels \<Rightarrow> int" where
  "watch_reduction s lv =
     max 0 \<lceil>of_int (st_used s) - of_int (st_capacity s) * lv_watch lv / 100\<rceil>"

definition tightened_targets_with ::
  "(demand list \<Rightarrow> int \<Rightarrow> py_error + allotments) \<Rightarrow> store \<Rightarrow> levels \<Rightarrow> (string, int) dict \<Rightarrow>
   demand list \<Rightarrow> (string, int) dict \<Rightarrow> py_error + (string, int) dict" where
  "tightened_targets_with allot s lv holdings demands allotted =
     (let clients = sorted_set (map fst holdings @ map dm_client demands @ map fst allotted);
          held = (\<lambda>c. dget holdings c 0);
          reduction = watch_reduction s lv
      in if reduction = 0 then
           Inr (graph_on clients (\<lambda>c. max (demand_floor demands c) (dget allotted c (held c))))
         else
           let space = max 0 (sum_list (map held clients) - reduction);
               unknown = filter (\<lambda>c. c \<notin> set (map dm_client demands)) clients
           in ebind (allot (demands @ map zero_demand unknown) space) (\<lambda>at_watch.
                Inr (graph_on clients (\<lambda>c. max (demand_floor demands c)
                  (min (dget allotted c (held c)) (dget (al_per_client at_watch) c 0))))))"

definition tightened_targets ::
  "store \<Rightarrow> levels \<Rightarrow> (string, int) dict \<Rightarrow> demand list \<Rightarrow> (string, int) dict \<Rightarrow>
   py_error + (string, int) dict" where
  "tightened_targets = tightened_targets_with allot_days"

section \<open>One pass\<close>

record decide_in =
  di_stores :: "(string, store) dict"
  di_allotments :: "(string, allotments) dict"
  di_holdings :: "(string \<times> string, holding) dict"
  di_registrations :: "registration list"
  di_levels :: levels
  di_trims :: "(string, trim_record) dict"
  di_directives :: "(string, string) dict"
  di_hands_off :: bool
  di_host_fault :: "string option"
  di_now :: rat
  di_demands :: "(string, demand list) dict option"
  di_churn :: "(string, rat option) dict"
  di_horizon_h :: rat
  di_previous :: "(string, stage) dict"

fun store_severity :: "stage \<Rightarrow> severity" where
  "store_severity OK = WARNING" \<comment> \<open>not in the table; never looked up\<close>
| "store_severity WATCH = WARNING"
| "store_severity TIGHTEN = WARNING"
| "store_severity DEMAND = ERROR"
| "store_severity FINAL = CRITICAL"

definition failed_to_answer :: "trim_record option \<Rightarrow> rat \<Rightarrow> bool" where
  "failed_to_answer rec now = (case rec of None \<Rightarrow> False
     | Some r \<Rightarrow> \<not> tr_ok r \<and> now - tr_requested_at r > DEMAND_DEADLINE_S)"

definition growth_of :: "decide_in \<Rightarrow> string \<Rightarrow> rat option" where
  "growth_of e name = dget (di_churn e) name None"

definition fill_stage :: "decide_in \<Rightarrow> string \<Rightarrow> store \<Rightarrow> stage" where
  "fill_stage e name s =
     store_stage s (di_levels e) (growth_of e name) (di_horizon_h e) (map_of (di_previous e) name)"

text \<open>A floors shortfall of the store's own forces FINAL; one the pool caused does not.\<close>

definition pass_stage :: "decide_in \<Rightarrow> string \<Rightarrow> store \<Rightarrow> stage" where
  "pass_stage e name s = (case map_of (di_allotments e) name of
       Some al \<Rightarrow> if \<not> al_floors_fit al \<and> \<not> al_pool_caused al then FINAL else fill_stage e name s
     | None \<Rightarrow> fill_stage e name s)"

definition regs_on :: "decide_in \<Rightarrow> string \<Rightarrow> registration list" where
  "regs_on e name = filter (\<lambda>r. rg_store r = name) (di_registrations e)"

definition reg_floor :: "decide_in \<Rightarrow> string \<Rightarrow> string \<Rightarrow> int" where
  "reg_floor e name c = (\<Sum>r\<leftarrow>filter (\<lambda>r. rg_client r = c) (regs_on e name). rg_floor_bytes r)"

definition reg_managed :: "decide_in \<Rightarrow> string \<Rightarrow> string \<Rightarrow> bool" where
  "reg_managed e name c \<longleftrightarrow> (\<exists>r \<in> set (regs_on e name). rg_client r = c \<and> rg_managed r)"

definition held_on :: "decide_in \<Rightarrow> string \<Rightarrow> (string, int) dict" where
  "held_on e name = map (\<lambda>((c, s), h). (c, holding_total h))
     (filter (\<lambda>((c, s), h). s = name) (di_holdings e))"

definition pass_clients :: "decide_in \<Rightarrow> string \<Rightarrow> allotments \<Rightarrow> string list" where
  "pass_clients e name al = sorted_set (map rg_client (regs_on e name) @ map fst (al_per_client al))"

definition pass_allotted :: "decide_in \<Rightarrow> string \<Rightarrow> allotments \<Rightarrow> (string, int) dict" where
  "pass_allotted e name al = graph_on (pass_clients e name al)
     (\<lambda>c. dget (al_per_client al) c (reg_floor e name c))"

definition pass_hold :: "decide_in \<Rightarrow> string \<Rightarrow> allotments \<Rightarrow> (string, int) dict" where
  "pass_hold e name al = graph_on (pass_clients e name al) (\<lambda>c. dget (held_on e name) c 0)"

definition pass_targets ::
  "decide_in \<Rightarrow> string \<Rightarrow> store \<Rightarrow> allotments \<Rightarrow> py_error + (string, int) dict" where
  "pass_targets e name s al =
     (if pass_stage e name s \<ge> TIGHTEN then
        case (case di_demands e of None \<Rightarrow> None | Some ds \<Rightarrow> map_of ds name) of
          None \<Rightarrow> Inl (ValueError (''decide: no demands for store '' @ name))
        | Some dem \<Rightarrow> tightened_targets s (di_levels e) (pass_hold e name al) dem (pass_allotted e name al)
      else Inr (pass_allotted e name al))"

text \<open>What the loops accumulate.\<close>

record pass_state =
  ps_fill_stages :: "(string, stage) dict"
  ps_stages :: "(string, stage) dict"
  ps_actions :: "action list"
  ps_alarms :: alarm_dict
  ps_targets :: "(string, (string, int) dict) dict"
  ps_client_watch :: "(string, (string \<times> int \<times> int \<times> string) list) dict"
  ps_stopped :: "string list"

definition add_action :: "action \<Rightarrow> pass_state \<Rightarrow> pass_state" where
  "add_action a p = p\<lparr>ps_actions := ps_actions p @ [a]\<rparr>"

definition add_alarm :: "string \<Rightarrow> severity \<Rightarrow> ladder_msg \<Rightarrow> pass_state \<Rightarrow> pass_state" where
  "add_alarm k sev m p = p\<lparr>ps_alarms := AList.update k (sev, m) (ps_alarms p)\<rparr>"

definition floors_alarm :: "decide_in \<Rightarrow> string \<Rightarrow> store \<Rightarrow> pass_state \<Rightarrow> pass_state" where
  "floors_alarm e name s p = (case map_of (di_allotments e) name of
       None \<Rightarrow> p
     | Some al \<Rightarrow>
         if al_floors_fit al then p
         else if al_pool_caused al then
           add_alarm (''floors:'' @ name) CRITICAL
             (FloorsPoolMsg name (al_allottable al) (used_pct s) (fill_stage e name s)) p
         else add_alarm (''floors:'' @ name) CRITICAL (FloorsMsg name (al_allottable al)) p)"

definition top_holders :: "(string, int) dict \<Rightarrow> (string \<times> int) list" where
  "top_holders held = take 3 (sort_key (\<lambda>(c, b). (- b, c)) held)"

definition early_watch :: "decide_in \<Rightarrow> string \<Rightarrow> store \<Rightarrow> (rat \<times> rat \<times> rat) option" where
  "early_watch e name s =
     (case (hours_to_full s (growth_of e name), growth_of e name) of
        (Some h, Some g) \<Rightarrow>
          if fill_stage e name s = WATCH \<and> used_pct s < lv_watch (di_levels e) \<and> h < di_horizon_h e
          then Some (h, g, di_horizon_h e) else None
      | _ \<Rightarrow> None)"

definition store_alarm :: "decide_in \<Rightarrow> string \<Rightarrow> store \<Rightarrow> pass_state \<Rightarrow> pass_state" where
  "store_alarm e name s p =
     (let stage = pass_stage e name s in
      if stage \<ge> WATCH then
        add_alarm (''store:'' @ name) (store_severity stage)
          (StoreMsg name (used_pct s) stage (top_holders (held_on e name)) (early_watch e name s)) p
      else p)"

definition watch_client ::
  "decide_in \<Rightarrow> string \<Rightarrow> (string, int) dict \<Rightarrow> (string, int) dict \<Rightarrow> string \<Rightarrow> pass_state \<Rightarrow> pass_state" where
  "watch_client e name hold allotted c p =
     (if of_int (dget hold c 0) > of_int (dget allotted c 0) * lv_client_watch (di_levels e) / 100
      then p\<lparr>ps_client_watch := AList.update c
             (dget (ps_client_watch p) c [] @ [(c, dget hold c 0, dget allotted c 0, name)])
             (ps_client_watch p)\<rparr>
      else p)"

definition client_fails ::
  "decide_in \<Rightarrow> bool \<Rightarrow> bool \<Rightarrow> string \<Rightarrow> bool" where
  "client_fails e is_managed over c =
     (let rec = map_of (di_trims e) c in
      if is_managed then over \<and> failed_to_answer rec (di_now e)
      else over \<and> (case rec of None \<Rightarrow> False | Some r \<Rightarrow>
        (case tr_final_since r of None \<Rightarrow> False
         | Some t \<Rightarrow> di_now e - t > UNMANAGED_FINAL_GRACE_S)))"

definition press_client ::
  "decide_in \<Rightarrow> string \<Rightarrow> stage \<Rightarrow> (string, int) dict \<Rightarrow> (string, int) dict \<Rightarrow> string \<Rightarrow>
   pass_state \<Rightarrow> pass_state" where
  "press_client e name stage hold tgt c p =
     (let is_managed = reg_managed e name c;
          over = dget hold c 0 > dget tgt c 0;
          rec = map_of (di_trims e) c;
          p = (if is_managed \<and> over then
                 add_action \<lparr>ac_kind = ''trim'', ac_store = name, ac_client = Some c,
                   ac_fit_bytes = Some (dget tgt c 0), ac_policy = None\<rparr> p else p);
          p = (if stage \<ge> DEMAND \<and> is_managed \<and> failed_to_answer rec (di_now e) then
                 add_alarm (''demand-overdue:'' @ c) ERROR (DemandOverdueMsg c name
                   (case rec of Some r \<Rightarrow> di_now e - tr_requested_at r | None \<Rightarrow> 0)) p else p)
      in if stage < FINAL then p
         else let p = (if is_managed \<and> over then
                 add_action \<lparr>ac_kind = ''final'', ac_store = name, ac_client = Some c,
                   ac_fit_bytes = Some (dget tgt c 0), ac_policy = map_of (di_directives e) c\<rparr> p else p)
           in if \<not> client_fails e is_managed over c \<or> c \<in> set (ps_stopped p) then p
              else let p = p\<lparr>ps_stopped := ps_stopped p @ [c]\<rparr> in
                if di_hands_off e then
                  add_alarm (''hands-off-held:'' @ c) CRITICAL (HandsOffHeldMsg c name
                    (if is_managed then FailedToAnswer else UnmanagedOver)) p
                else add_action \<lparr>ac_kind = ''stop'', ac_store = name, ac_client = Some c,
                  ac_fit_bytes = None, ac_policy = None\<rparr> p)"

text \<open>The body of the loop over stores, with its early \<open>continue\<close>s.\<close>

definition decide_store :: "decide_in \<Rightarrow> string \<Rightarrow> pass_state \<Rightarrow> py_error + pass_state" where
  "decide_store e name p = (case map_of (di_stores e) name of
     None \<Rightarrow> Inl (KeyError name)
   | Some s \<Rightarrow>
      (let stage = pass_stage e name s;
           p = p\<lparr>ps_fill_stages := AList.update name (fill_stage e name s) (ps_fill_stages p)\<rparr>;
           p = floors_alarm e name s p;
           p = p\<lparr>ps_stages := AList.update name stage (ps_stages p)\<rparr>;
           p = store_alarm e name s p
       in case map_of (di_allotments e) name of
            None \<Rightarrow> Inr p
          | Some al \<Rightarrow> ebind (pass_targets e name s al) (\<lambda>tgt.
              let clients = pass_clients e name al;
                  hold = pass_hold e name al;
                  allotted = pass_allotted e name al;
                  p = p\<lparr>ps_targets := AList.update name tgt (ps_targets p)\<rparr>
              in if st_kind s = ''pool'' then Inr p
                 else
                   let p = (if stage \<ge> WATCH
                            then fold (watch_client e name hold allotted) clients p else p)
                   in if stage < TIGHTEN then Inr p
                      else Inr (fold (press_client e name stage hold tgt) clients
                        (add_action \<lparr>ac_kind = ''cleanup'', ac_store = name, ac_client = None,
                           ac_fit_bytes = None, ac_policy = None\<rparr> p)))))"

definition empty_pass :: pass_state where
  "empty_pass = \<lparr>ps_fill_stages = [], ps_stages = [], ps_actions = [], ps_alarms = [],
     ps_targets = [], ps_client_watch = [], ps_stopped = []\<rparr>"

definition closing_alarms :: "decide_in \<Rightarrow> pass_state \<Rightarrow> pass_state" where
  "closing_alarms e p =
     (let p = fold (\<lambda>c. add_alarm (''client-watch:'' @ c) WARNING
            (ClientWatchMsg (dget (ps_client_watch p) c [])))
            (sort (map fst (ps_client_watch p))) p
      in case di_host_fault e of
           Some f \<Rightarrow> if f \<noteq> '''' then add_alarm (''host-report:'' @ f) ERROR (HostReportMsg f) p else p
         | None \<Rightarrow> p)"

definition decide :: "decide_in \<Rightarrow> py_error + decision" where
  "decide e =
     (if di_demands e = None
      then Inl (ValueError ''decide needs demands: each allotted store's client rates'')
      else ebind (efold (decide_store e) (sort (map fst (di_stores e))) empty_pass) (\<lambda>p.
        let p = closing_alarms e p in
        Inr \<lparr>dc_stages = ps_stages p, dc_actions = ps_actions p, dc_alarms = ps_alarms p,
             dc_targets = ps_targets p, dc_fill_stages = ps_fill_stages p\<rparr>))"

section \<open>Stages and hysteresis\<close>

lemma stage_le_simps [simp]:
  "OK \<le> s" "s \<le> FINAL"
  "FINAL \<le> s \<longleftrightarrow> s = FINAL" "s \<le> OK \<longleftrightarrow> s = OK"
  "\<not> s < OK" "\<not> FINAL < s"
  by (cases s; simp add: stage_order_defs)+

lemma stage_range: "s = OK \<or> s = WATCH \<or> s = TIGHTEN \<or> s = DEMAND \<or> s = FINAL"
  by (cases s) simp_all

lemma stages_down_set: "set (stages_down p raw) = {s. raw < s \<and> s \<le> p}"
proof (rule set_eqI)
  show "s \<in> set (stages_down p raw) \<longleftrightarrow> s \<in> {s. raw < s \<and> s \<le> p}" for s
    by (cases s) (simp_all add: stages_down_def)
qed

lemma stages_down_sorted: "sorted_wrt (>) (stages_down p raw)"
  unfolding stages_down_def by (rule sorted_wrt_filter) (simp add: stage_order_defs)

lemma store_stage_None [simp]: "store_stage s lv churn h None = raw_stage s lv churn h"
  by (simp add: store_stage_def)

lemma store_stage_hold:
  assumes "raw_stage s lv churn h < p"
  shows "let st = store_stage s lv churn h (Some p); raw = raw_stage s lv churn h in
     (st = raw \<or> raw < st \<and> st \<le> p \<and> holds_level lv (used_pct s) st) \<and>
     (\<forall>t. st < t \<and> t \<le> p \<longrightarrow> \<not> holds_level lv (used_pct s) t)"
proof -
  let ?raw = "raw_stage s lv churn h" and ?P = "holds_level lv (used_pct s)"
  let ?ds = "stages_down p ?raw"
  have eq: "store_stage s lv churn h (Some p) = (case find ?P ?ds of Some st \<Rightarrow> st | None \<Rightarrow> ?raw)"
    using assms by (simp add: store_stage_def Let_def not_le [symmetric])
  show ?thesis
  proof (cases "find ?P ?ds")
    case None
    then have none: "\<not> ?P t" if "?raw < t" "t \<le> p" for t
      using that stages_down_set [of p ?raw] by (auto simp: find_None_iff)
    with None show ?thesis by (simp add: eq Let_def)
  next
    case (Some st)
    then obtain i where i: "i < length ?ds" "?P (?ds ! i)" "st = ?ds ! i" "\<forall>j<i. \<not> ?P (?ds ! j)"
      by (auto simp: find_Some_iff)
    then have "st \<in> set ?ds" by auto
    then have st: "?raw < st" "st \<le> p" by (simp_all add: stages_down_set)
    have "\<not> ?P t" if t: "st < t" "t \<le> p" for t
    proof -
      have "t \<in> set ?ds" using st(1) t by (simp add: stages_down_set)
      then obtain j where j: "j < length ?ds" "t = ?ds ! j" by (auto simp: in_set_conv_nth)
      have "j < i"
      proof (rule ccontr)
        assume "\<not> j < i"
        then have "j = i \<or> i < j" by auto
        then have "t \<le> st"
          using sorted_wrt_nth_less [OF stages_down_sorted, of i j p ?raw] i(3) j by auto
        with t(1) show False by simp
      qed
      with i(4) j show ?thesis by simp
    qed
    with Some st i(2,3) show ?thesis by (simp add: eq Let_def)
  qed
qed

lemma store_stage_rise: "p \<le> raw_stage s lv churn h \<Longrightarrow> store_stage s lv churn h (Some p) = raw_stage s lv churn h"
  by (simp add: store_stage_def Let_def)

text \<open>Several passes: the stage of each becomes the \<open>previous\<close> of the next.\<close>

fun stage_run :: "levels \<Rightarrow> rat \<Rightarrow> (store \<times> rat option) list \<Rightarrow> stage option \<Rightarrow> stage list" where
  "stage_run lv h [] prev = []"
| "stage_run lv h ((s, churn) # rest) prev =
     (let st = store_stage s lv churn h prev in st # stage_run lv h rest (Some st))"

lemma store_stage_steady:
  assumes "raw_stage s lv churn h \<le> t" and "holds_level lv (used_pct s) t"
  shows "store_stage s lv churn h (Some t) = t"
proof (cases "raw_stage s lv churn h = t")
  case False
  with assms(1) have less: "raw_stage s lv churn h < t" by simp
  have "\<not> store_stage s lv churn h (Some t) < t"
    using store_stage_hold [OF less] assms(2) by (auto simp: Let_def)
  moreover have "store_stage s lv churn h (Some t) \<le> t"
    using store_stage_hold [OF less] less by (auto simp: Let_def less_imp_le)
  ultimately show ?thesis by simp
qed (simp add: store_stage_rise)

section \<open>The contract of a division in days\<close>

text \<open>
  What the ladder asks of whoever divides a space: an answer, every client of the demands in
  it with at least its floor, and no more than the space when the floors fit it.
\<close>

locale days_allotter =
  fixes allot :: "demand list \<Rightarrow> int \<Rightarrow> py_error + allotments"
  assumes total: "\<exists>al. allot ds a = Inr al"
    and keys: "allot ds a = Inr al \<Longrightarrow> distinct (map fst (al_per_client al)) \<and>
      set (map fst (al_per_client al)) = dm_client ` set ds"
    and floors: "allot ds a = Inr al \<Longrightarrow> c \<in> dm_client ` set ds \<Longrightarrow>
      demand_floor ds c \<le> dget (al_per_client al) c 0"
    and within: "allot ds a = Inr al \<Longrightarrow>
      sum_list (map (demand_floor ds) (sorted_set (map dm_client ds))) \<le> a \<Longrightarrow>
      sum_list (map snd (al_per_client al)) \<le> a"
begin

lemma targets_total: "\<exists>t. tightened_targets_with allot s lv holdings ds allotted = Inr t"
proof -
  obtain al where "allot (ds @ map zero_demand (filter (\<lambda>c. c \<notin> set (map dm_client ds))
      (sorted_set (map fst holdings @ map dm_client ds @ map fst allotted))))
      (max 0 (sum_list (map (\<lambda>c. dget holdings c 0)
        (sorted_set (map fst holdings @ map dm_client ds @ map fst allotted))) - watch_reduction s lv)) = Inr al"
    using total by blast
  then show ?thesis by (simp only: tightened_targets_with_def Let_def ebind_simps split: if_split) simp
qed

lemma targets_form:
  assumes "tightened_targets_with allot s lv holdings ds allotted = Inr t"
  obtains f where "t = graph_on (sorted_set (map fst holdings @ map dm_client ds @ map fst allotted)) f"
    "\<And>c. demand_floor ds c \<le> f c"
    "\<And>c. f c \<le> max (demand_floor ds c) (dget allotted c (dget holdings c 0))"
proof (cases "watch_reduction s lv = 0")
  case True
  with assms show ?thesis by (intro that [of "\<lambda>c. max (demand_floor ds c) (dget allotted c (dget holdings c 0))"])
      (simp_all add: tightened_targets_with_def Let_def)
next
  case False
  with assms have "\<exists>aw :: allotments. t = graph_on (sorted_set (map fst holdings @ map dm_client ds @ map fst allotted))
      (\<lambda>c. max (demand_floor ds c)
        (min (dget allotted c (dget holdings c 0)) (dget (al_per_client aw) c 0)))"
    by (auto simp: tightened_targets_with_def Let_def ebind_eq_Inr)
  then obtain aw :: allotments where "t = graph_on (sorted_set (map fst holdings @ map dm_client ds @ map fst allotted))
      (\<lambda>c. max (demand_floor ds c)
        (min (dget allotted c (dget holdings c 0)) (dget (al_per_client aw) c 0)))" ..
  then show ?thesis by (rule that) auto
qed

lemma targets_keys:
  assumes "tightened_targets_with allot s lv holdings ds allotted = Inr t"
  shows "map fst t = sorted_set (map fst holdings @ map dm_client ds @ map fst allotted)"
  by (rule targets_form [OF assms]) simp

lemma targets_bounds:
  assumes "tightened_targets_with allot s lv holdings ds allotted = Inr t" and "c \<in> set (map fst t)"
  shows "demand_floor ds c \<le> dget t c 0"
    and "dget t c 0 \<le> max (demand_floor ds c) (dget allotted c (dget holdings c 0))"
proof -
  obtain f where f: "t = graph_on (sorted_set (map fst holdings @ map dm_client ds @ map fst allotted)) f"
    "demand_floor ds c \<le> f c" "f c \<le> max (demand_floor ds c) (dget allotted c (dget holdings c 0))"
    using targets_form [OF assms(1)] by metis
  from assms(2) have "dget t c 0 = f c" unfolding f(1) by (simp only: map_fst_graph_on dget_graph_on) simp
  with f(2,3) show "demand_floor ds c \<le> dget t c 0"
    and "dget t c 0 \<le> max (demand_floor ds c) (dget allotted c (dget holdings c 0))" by simp_all
qed

lemma demand_floor_zero [simp]: "demand_floor (ds @ map zero_demand cs) = demand_floor ds"
proof
  fix c
  have "sum_list (map dm_floor_bytes (filter (\<lambda>d. dm_client d = c) (map zero_demand cs))) = 0"
    by (induction cs) (simp_all add: zero_demand_def)
  then show "demand_floor (ds @ map zero_demand cs) c = demand_floor ds c"
    by (simp add: demand_floor_def)
qed

lemma targets_relieve:
  assumes t: "tightened_targets_with allot s lv holdings ds allotted = Inr t"
    and pressed: "watch_reduction s lv \<noteq> 0"
    and fit: "sum_list (map (demand_floor ds) (map fst t)) \<le>
      sum_list (map (\<lambda>c. dget holdings c 0) (map fst t)) - watch_reduction s lv"
  shows "sum_list (map snd t) \<le>
    max 0 (sum_list (map (\<lambda>c. dget holdings c 0) (map fst t)) - watch_reduction s lv)"
proof -
  let ?cs = "sorted_set (map fst holdings @ map dm_client ds @ map fst allotted)"
  let ?zs = "map zero_demand (filter (\<lambda>c. c \<notin> set (map dm_client ds)) ?cs)"
  define space where "space = max 0 (sum_list (map (\<lambda>c. dget holdings c 0) ?cs) - watch_reduction s lv)"
  have cs: "map fst t = ?cs" using t by (rule targets_keys)
  from t pressed obtain aw where aw: "allot (ds @ ?zs) space = Inr aw"
    and eq: "t = graph_on ?cs (\<lambda>c. max (demand_floor ds c)
        (min (dget allotted c (dget holdings c 0)) (dget (al_per_client aw) c 0)))"
    by (auto simp: tightened_targets_with_def Let_def ebind_eq_Inr space_def)
  have "dm_client ` set ?zs = {c \<in> set ?cs. c \<notin> dm_client ` set ds}"
    by (simp add: zero_demand_def image_image)
  then have clients: "dm_client ` set (ds @ ?zs) = set ?cs"
    by (simp only: set_append image_Un) auto
  have same: "sorted_set (map dm_client (ds @ ?zs)) = ?cs"
    using clients by (intro sorted_set_cong) (simp only: set_map set_sorted_set)
  have "demand_floor ds c \<le> dget (al_per_client aw) c 0" if "c \<in> set ?cs" for c
    using floors [OF aw, of c] that clients by simp
  then have "sum_list (map snd t) \<le> sum_list (map (\<lambda>c. dget (al_per_client aw) c 0) ?cs)"
    unfolding eq map_snd_graph_on by (intro sum_list_le) auto
  also have "\<dots> = sum_list (map (\<lambda>c. dget (al_per_client aw) c 0) (map fst (al_per_client aw)))"
    using keys [OF aw] clients by (intro sum_list_perm) auto
  also have "\<dots> = sum_list (map snd (al_per_client aw))"
    using keys [OF aw] unfolding map_map comp_def
    by (intro arg_cong [where f = sum_list] map_cong) (auto simp: dget_def)
  also have "\<dots> \<le> space"
  proof (rule within [OF aw])
    show "sum_list (map (demand_floor (ds @ ?zs)) (sorted_set (map dm_client (ds @ ?zs)))) \<le> space"
      using fit unfolding same demand_floor_zero cs space_def by simp
  qed
  finally show ?thesis by (simp add: space_def cs)
qed

end

lemma sum_floor_clients:
  "sum_list (map (demand_floor ds) (sorted_set (map dm_client ds))) =
     sum_list (map (merged_floor (merge_demands ds)) (clients_of (merge_demands ds)))"
proof -
  have "demand_floor ds = merged_floor (merge_demands ds)"
    by (simp add: fun_eq_iff demand_floor_def merged_floor_merge)
  then show ?thesis by (simp only:) (rule sum_list_perm, simp_all add: clients_of_props)
qed

interpretation days: days_allotter allot_days
proof
  show "\<exists>al. allot_days ds a = Inr al" for ds a by (rule allot_days_total)
next
  fix ds a al
  assume al: "allot_days ds a = Inr al"
  show "distinct (map fst (al_per_client al)) \<and> set (map fst (al_per_client al)) = dm_client ` set ds"
    using allot_days_keys [OF al] clients_of_props [of ds] by simp
  show "demand_floor ds c \<le> dget (al_per_client al) c 0" if "c \<in> dm_client ` set ds" for c
    using floor_in_allotment [OF al that] by (simp add: demand_floor_def merged_floor_merge)
  show "sum_list (map snd (al_per_client al)) \<le> a"
    if "sum_list (map (demand_floor ds) (sorted_set (map dm_client ds))) \<le> a"
    using that allot_days_within [OF al] allot_days_fit [OF al]
    by (simp add: sum_floor_clients allot_room_def)
qed

section \<open>What the pass may do\<close>

definition over_target :: "decide_in \<Rightarrow> string \<Rightarrow> allotments \<Rightarrow> (string, int) dict \<Rightarrow> string \<Rightarrow> bool" where
  "over_target e name al tgt c \<longleftrightarrow> dget (pass_hold e name al) c 0 > dget tgt c 0"

text \<open>The grounds every action of a decision has.\<close>

definition client_action_ok ::
  "decide_in \<Rightarrow> string \<Rightarrow> stage \<Rightarrow> allotments \<Rightarrow> (string, int) dict \<Rightarrow> action \<Rightarrow> bool" where
  "client_action_ok e name stage al tgt a \<longleftrightarrow>
     (\<exists>c. ac_client a = Some c \<and> c \<in> set (pass_clients e name al) \<and> over_target e name al tgt c \<and>
       (ac_kind a = ''trim'' \<and> reg_managed e name c \<and> ac_fit_bytes a = Some (dget tgt c 0) \<or>
        ac_kind a = ''final'' \<and> stage = FINAL \<and> reg_managed e name c \<and>
          ac_fit_bytes a = Some (dget tgt c 0) \<and> ac_policy a = map_of (di_directives e) c \<or>
        ac_kind a = ''stop'' \<and> stage = FINAL \<and> \<not> di_hands_off e \<and>
          client_fails e (reg_managed e name c) True c))"

definition action_ok :: "decide_in \<Rightarrow> action \<Rightarrow> bool" where
  "action_ok e a \<longleftrightarrow> (\<exists>s al tgt.
     map_of (di_stores e) (ac_store a) = Some s \<and> map_of (di_allotments e) (ac_store a) = Some al \<and>
     pass_targets e (ac_store a) s al = Inr tgt \<and> st_kind s \<noteq> ''pool'' \<and>
     TIGHTEN \<le> pass_stage e (ac_store a) s \<and>
     (ac_kind a = ''cleanup'' \<and> ac_client a = None \<or>
      client_action_ok e (ac_store a) (pass_stage e (ac_store a) s) al tgt a))"

definition stops :: "action list \<Rightarrow> string option list" where
  "stops as = map ac_client (filter (\<lambda>a. ac_kind a = ''stop'') as)"

lemma stops_simps [simp]:
  "stops [] = []"
  "stops (as @ bs) = stops as @ stops bs"
  "stops [a] = (if ac_kind a = ''stop'' then [ac_client a] else [])"
  by (simp_all add: stops_def)

definition pass_inv :: "decide_in \<Rightarrow> pass_state \<Rightarrow> bool" where
  "pass_inv e p \<longleftrightarrow> (\<forall>a \<in> set (ps_actions p). action_ok e a) \<and>
     distinct (stops (ps_actions p)) \<and> set (stops (ps_actions p)) \<subseteq> Some ` set (ps_stopped p)"

lemma add_alarm_frame [simp]:
  "ps_actions (add_alarm k sev m p) = ps_actions p"
  "ps_stopped (add_alarm k sev m p) = ps_stopped p"
  "ps_stages (add_alarm k sev m p) = ps_stages p"
  "ps_fill_stages (add_alarm k sev m p) = ps_fill_stages p"
  "ps_targets (add_alarm k sev m p) = ps_targets p"
  "ps_client_watch (add_alarm k sev m p) = ps_client_watch p"
  by (simp_all add: add_alarm_def)

lemma add_action_frame [simp]:
  "ps_actions (add_action a p) = ps_actions p @ [a]"
  "ps_stopped (add_action a p) = ps_stopped p"
  "ps_stages (add_action a p) = ps_stages p"
  "ps_fill_stages (add_action a p) = ps_fill_stages p"
  "ps_targets (add_action a p) = ps_targets p"
  "ps_alarms (add_action a p) = ps_alarms p"
  "ps_client_watch (add_action a p) = ps_client_watch p"
  by (simp_all add: add_action_def)

lemma floors_alarm_frame [simp]:
  "ps_actions (floors_alarm e n s p) = ps_actions p"
  "ps_stopped (floors_alarm e n s p) = ps_stopped p"
  "ps_stages (floors_alarm e n s p) = ps_stages p"
  "ps_fill_stages (floors_alarm e n s p) = ps_fill_stages p"
  "ps_targets (floors_alarm e n s p) = ps_targets p"
  by (simp_all add: floors_alarm_def split: option.split)

lemma store_alarm_frame [simp]:
  "ps_actions (store_alarm e n s p) = ps_actions p"
  "ps_stopped (store_alarm e n s p) = ps_stopped p"
  "ps_stages (store_alarm e n s p) = ps_stages p"
  "ps_fill_stages (store_alarm e n s p) = ps_fill_stages p"
  "ps_targets (store_alarm e n s p) = ps_targets p"
  by (simp_all add: store_alarm_def Let_def)

lemma watch_client_frame [simp]:
  "ps_actions (watch_client e n h al c p) = ps_actions p"
  "ps_stopped (watch_client e n h al c p) = ps_stopped p"
  "ps_stages (watch_client e n h al c p) = ps_stages p"
  "ps_fill_stages (watch_client e n h al c p) = ps_fill_stages p"
  "ps_targets (watch_client e n h al c p) = ps_targets p"
  by (simp_all add: watch_client_def)

lemma fold_watch_frame [simp]:
  "ps_actions (fold (watch_client e n h al) cs p) = ps_actions p"
  "ps_stopped (fold (watch_client e n h al) cs p) = ps_stopped p"
  "ps_stages (fold (watch_client e n h al) cs p) = ps_stages p"
  "ps_fill_stages (fold (watch_client e n h al) cs p) = ps_fill_stages p"
  "ps_targets (fold (watch_client e n h al) cs p) = ps_targets p"
  by (induction cs arbitrary: p) simp_all

lemma press_client_frame [simp]:
  "ps_stages (press_client e n st h t c p) = ps_stages p"
  "ps_fill_stages (press_client e n st h t c p) = ps_fill_stages p"
  "ps_targets (press_client e n st h t c p) = ps_targets p"
  by (simp_all add: press_client_def Let_def)

lemma fold_press_frame [simp]:
  "ps_stages (fold (press_client e n st h t) cs p) = ps_stages p"
  "ps_fill_stages (fold (press_client e n st h t) cs p) = ps_fill_stages p"
  "ps_targets (fold (press_client e n st h t) cs p) = ps_targets p"
  by (induction cs arbitrary: p) simp_all

text \<open>One client's actions, written out.\<close>

lemma press_client_actions:
  "ps_actions (press_client e n st h t c p) = ps_actions p @
     (if reg_managed e n c \<and> dget h c 0 > dget t c 0 then
        [\<lparr>ac_kind = ''trim'', ac_store = n, ac_client = Some c,
          ac_fit_bytes = Some (dget t c 0), ac_policy = None\<rparr>] else []) @
     (if st = FINAL \<and> reg_managed e n c \<and> dget h c 0 > dget t c 0 then
        [\<lparr>ac_kind = ''final'', ac_store = n, ac_client = Some c,
          ac_fit_bytes = Some (dget t c 0), ac_policy = map_of (di_directives e) c\<rparr>] else []) @
     (if st = FINAL \<and> client_fails e (reg_managed e n c) (dget h c 0 > dget t c 0) c \<and>
         c \<notin> set (ps_stopped p) \<and> \<not> di_hands_off e then
        [\<lparr>ac_kind = ''stop'', ac_store = n, ac_client = Some c, ac_fit_bytes = None, ac_policy = None\<rparr>]
      else [])"
  "ps_stopped (press_client e n st h t c p) = ps_stopped p @
     (if st = FINAL \<and> client_fails e (reg_managed e n c) (dget h c 0 > dget t c 0) c \<and>
         c \<notin> set (ps_stopped p) then [c] else [])"
  by (cases st; simp add: press_client_def Let_def stage_order_defs)+

lemma client_fails_over: "client_fails e m over c \<Longrightarrow> over \<and> client_fails e m True c"
  by (auto simp: client_fails_def Let_def split: if_splits)

lemma press_client_inv:
  assumes "pass_inv e p"
    and "map_of (di_stores e) n = Some s" "map_of (di_allotments e) n = Some al"
    and "pass_targets e n s al = Inr tgt" "st_kind s \<noteq> ''pool''" "TIGHTEN \<le> pass_stage e n s"
    and "c \<in> set (pass_clients e n al)"
  shows "pass_inv e (press_client e n (pass_stage e n s) (pass_hold e n al) tgt c p)"
proof -
  let ?p = "press_client e n (pass_stage e n s) (pass_hold e n al) tgt c p"
  have "action_ok e a" if "a \<in> set (ps_actions ?p)" for a
    using that assms client_fails_over
        [of e "reg_managed e n c" "dget (pass_hold e n al) c 0 > dget tgt c 0" c]
    by (auto simp: press_client_actions pass_inv_def action_ok_def client_action_ok_def over_target_def
        split: if_splits)
  moreover have "distinct (stops (ps_actions ?p)) \<and> set (stops (ps_actions ?p)) \<subseteq> Some ` set (ps_stopped ?p)"
    using assms(1) by (auto simp: press_client_actions pass_inv_def)
  ultimately show ?thesis by (simp add: pass_inv_def)
qed

lemma pass_inv_same:
  "pass_inv e p \<Longrightarrow> ps_actions q = ps_actions p \<Longrightarrow> ps_stopped q = ps_stopped p \<Longrightarrow> pass_inv e q"
  by (simp add: pass_inv_def)

lemma pass_inv_cleanup:
  assumes "pass_inv e p" "ps_actions q = ps_actions p @ [a]" "ps_stopped q = ps_stopped p"
    and "action_ok e a" "ac_kind a = ''cleanup''"
  shows "pass_inv e q"
  using assms by (auto simp: pass_inv_def)

text \<open>The cases of the loop body over stores.\<close>

lemma decide_store_cases:
  assumes "decide_store e n p = Inr q"
  obtains (quiet) s where "map_of (di_stores e) n = Some s"
      "map_of (di_allotments e) n = None \<or> st_kind s = ''pool'' \<or> pass_stage e n s < TIGHTEN"
      "ps_actions q = ps_actions p" "ps_stopped q = ps_stopped p"
      "ps_stages q = AList.update n (pass_stage e n s) (ps_stages p)"
      "ps_fill_stages q = AList.update n (fill_stage e n s) (ps_fill_stages p)"
  | (pressed) s al tgt p1 where "map_of (di_stores e) n = Some s" "map_of (di_allotments e) n = Some al"
      "pass_targets e n s al = Inr tgt" "st_kind s \<noteq> ''pool''" "TIGHTEN \<le> pass_stage e n s"
      "q = fold (press_client e n (pass_stage e n s) (pass_hold e n al) tgt) (pass_clients e n al) p1"
      "ps_actions p1 = ps_actions p @ [\<lparr>ac_kind = ''cleanup'', ac_store = n, ac_client = None,
         ac_fit_bytes = None, ac_policy = None\<rparr>]"
      "ps_stopped p1 = ps_stopped p"
      "ps_stages p1 = AList.update n (pass_stage e n s) (ps_stages p)"
      "ps_fill_stages p1 = AList.update n (fill_stage e n s) (ps_fill_stages p)"
proof -
  obtain s where s: "map_of (di_stores e) n = Some s"
    using assms by (auto simp: decide_store_def split: option.splits)
  show thesis
  proof (cases "map_of (di_allotments e) n")
    case None
    with s assms show ?thesis by (intro quiet [of s]) (auto simp: decide_store_def Let_def)
  next
    case al: (Some al)
    with s assms obtain tgt where tgt: "pass_targets e n s al = Inr tgt"
      by (auto simp: decide_store_def Let_def ebind_eq_Inr)
    show ?thesis
    proof (cases "st_kind s = ''pool'' \<or> pass_stage e n s < TIGHTEN")
      case True
      with s al tgt assms show ?thesis
        by (intro quiet [of s]) (auto simp: decide_store_def Let_def split: if_splits)
    next
      case False
      then have ge: "TIGHTEN \<le> pass_stage e n s" and ge': "WATCH \<le> pass_stage e n s"
        by (auto simp: stage_order_defs)
      let ?p1 = "add_action \<lparr>ac_kind = ''cleanup'', ac_store = n, ac_client = None,
          ac_fit_bytes = None, ac_policy = None\<rparr>
        (fold (watch_client e n (pass_hold e n al) (pass_allotted e n al)) (pass_clients e n al)
          ((store_alarm e n s ((floors_alarm e n s
            (p\<lparr>ps_fill_stages := AList.update n (fill_stage e n s) (ps_fill_stages p)\<rparr>))
             \<lparr>ps_stages := AList.update n (pass_stage e n s) (ps_stages p)\<rparr>))
           \<lparr>ps_targets := AList.update n tgt (ps_targets p)\<rparr>))"
      have q: "q = fold (press_client e n (pass_stage e n s) (pass_hold e n al) tgt)
          (pass_clients e n al) ?p1"
        using False s al tgt assms ge ge' by (simp add: decide_store_def Let_def)
      from False show ?thesis
        by (intro pressed [OF s al tgt _ ge q]) simp_all
    qed
  qed
qed

lemma decide_store_inv:
  assumes "decide_store e n p = Inr q" and "pass_inv e p"
  shows "pass_inv e q"
  using assms(1)
proof (cases rule: decide_store_cases)
  case quiet
  with assms(2) show ?thesis by (auto intro: pass_inv_same)
next
  case (pressed s al tgt p1)
  have "pass_inv e p1"
    using assms(2) pressed(7,8) by (rule pass_inv_cleanup) (use pressed in \<open>auto simp: action_ok_def\<close>)
  then show ?thesis
    unfolding pressed(6)
    by (rule fold_invariant [where Q = "\<lambda>c. c \<in> set (pass_clients e n al)", rotated])
      (use pressed press_client_inv in auto)
qed

lemma fold_add_alarm_frame [simp]:
  "ps_actions (fold (\<lambda>c. add_alarm (f c) g (h c)) cs p) = ps_actions p"
  "ps_stages (fold (\<lambda>c. add_alarm (f c) g (h c)) cs p) = ps_stages p"
  "ps_fill_stages (fold (\<lambda>c. add_alarm (f c) g (h c)) cs p) = ps_fill_stages p"
  "ps_targets (fold (\<lambda>c. add_alarm (f c) g (h c)) cs p) = ps_targets p"
  by (induction cs arbitrary: p) simp_all

lemma closing_alarms_frame [simp]:
  "ps_actions (closing_alarms e p) = ps_actions p"
  "ps_stages (closing_alarms e p) = ps_stages p"
  "ps_fill_stages (closing_alarms e p) = ps_fill_stages p"
  "ps_targets (closing_alarms e p) = ps_targets p"
  by (simp_all add: closing_alarms_def Let_def split: option.split)

lemma decide_run:
  assumes "decide e = Inr d"
  obtains p where "efold (decide_store e) (sort (map fst (di_stores e))) empty_pass = Inr p"
    "dc_actions d = ps_actions p" "dc_stages d = ps_stages p" "dc_fill_stages d = ps_fill_stages p"
    "dc_targets d = ps_targets p" "di_demands e \<noteq> None"
  using assms by (auto simp: decide_def Let_def ebind_eq_Inr split: if_splits)

lemma decide_inv:
  assumes "decide e = Inr d"
  shows "(\<forall>a \<in> set (dc_actions d). action_ok e a) \<and> distinct (stops (dc_actions d))"
proof -
  from assms obtain p where p: "efold (decide_store e) (sort (map fst (di_stores e))) empty_pass = Inr p"
    "dc_actions d = ps_actions p" by (rule decide_run)
  have "pass_inv e empty_pass" by (simp add: pass_inv_def empty_pass_def)
  with p(1) have "pass_inv e p" by (rule efold_invariant) (rule decide_store_inv)
  with p(2) show ?thesis by (simp add: pass_inv_def)
qed

lemma decide_store_total:
  assumes "map_of (di_stores e) n = Some s" and "di_demands e = Some ds"
    and "\<And>al. map_of (di_allotments e) n = Some al \<Longrightarrow> map_of ds n \<noteq> None"
  shows "\<exists>q. decide_store e n p = Inr q"
proof (cases "map_of (di_allotments e) n")
  case None
  with assms show ?thesis by (simp add: decide_store_def Let_def)
next
  case (Some al)
  then obtain dem where "map_of ds n = Some dem" using assms(3) by auto
  moreover obtain t where "tightened_targets s (di_levels e) (pass_hold e n al) dem (pass_allotted e n al) = Inr t"
    unfolding tightened_targets_def using days.targets_total by blast
  ultimately have "\<exists>tgt. pass_targets e n s al = Inr tgt"
    using assms(2) by (simp add: pass_targets_def)
  with Some assms(1) show ?thesis by (auto simp: decide_store_def Let_def)
qed

lemma decide_returns:
  assumes "di_demands e = Some ds"
    and "\<forall>n \<in> set (map fst (di_allotments e)). map_of ds n \<noteq> None"
  shows "\<exists>d. decide e = Inr d"
proof -
  have "\<exists>p. efold (decide_store e) (sort (map fst (di_stores e))) empty_pass = Inr p \<and> True"
  proof (rule efold_total)
    fix n u
    assume "n \<in> set (sort (map fst (di_stores e)))"
    then have "map_of (di_stores e) n \<noteq> None" by (simp add: map_of_eq_None_iff)
    then obtain s where s: "map_of (di_stores e) n = Some s" by blast
    have "map_of ds n \<noteq> None" if "map_of (di_allotments e) n = Some al" for al
      using assms(2) map_of_SomeD [OF that] by force
    with decide_store_total [OF s assms(1)] show "\<exists>v. decide_store e n u = Inr v \<and> True" by blast
  qed simp
  then show ?thesis using assms(1) by (auto simp: decide_def Let_def)
qed

section \<open>Properties\<close>

text \<open>C2. The stage of a store is exact: without a previous stage, or with one at or below it, the
  stage is the one its fill (or its projected time to full) gives; from a higher previous stage
  the store descends to the highest stage, up to the previous one, whose level is at most 2
  percent above its fill, and to the raw stage when there is none.\<close>

theorem store_stage_exact:
  "let raw = raw_stage s lv churn h; st = store_stage s lv churn h prev in
     raw \<le> st \<and>
     (case prev of None \<Rightarrow> st = raw
      | Some p \<Rightarrow> st \<le> max p raw \<and>
          (st = raw \<or> raw < st \<and> holds_level lv (used_pct s) st) \<and>
          (\<forall>t. st < t \<and> t \<le> p \<longrightarrow> \<not> holds_level lv (used_pct s) t))"
proof (cases prev)
  case None
  then show ?thesis by (simp add: Let_def)
next
  case (Some p)
  show ?thesis
  proof (cases "p \<le> raw_stage s lv churn h")
    case True
    then show ?thesis by (auto simp: Some store_stage_rise Let_def)
  next
    case False
    then have less: "raw_stage s lv churn h < p" by simp
    show ?thesis using store_stage_hold [OF less] less by (auto simp: Some Let_def max_def)
  qed
qed

definition example_store :: "int \<Rightarrow> store" where
  "example_store used = \<lparr>st_name = ''root'', st_mount = ''/'', st_kind = ''guest'',
     st_capacity = 1000, st_used = used\<rparr>"

theorem store_stage_exact_witness:
  "store_stage (example_store 890) default_levels None 24 (Some FINAL) = DEMAND \<and>
   \<not> holds_level default_levels (used_pct (example_store 890)) FINAL"
proof -
  have st: "store_stage (example_store 890) default_levels None 24 (Some FINAL) = DEMAND"
    by code_simp
  have "DEMAND < FINAL" by (simp add: stage_order_defs)
  with store_stage_exact [of "example_store 890" default_levels None 24 "Some FINAL"] st
  show ?thesis by (simp add: Let_def)
qed

text \<open>No flapping: over any sequence of passes, each taking the stage of the one before as its
  previous stage, a store that starts at stage \<open>t\<close> stays at \<open>t\<close> as long as its fill never
  reaches a higher stage and never falls more than 2 percent below the level of \<open>t\<close>.\<close>

theorem stage_never_flaps:
  assumes "\<forall>x \<in> set passes.
      raw_stage (fst x) lv (snd x) h \<le> t \<and> holds_level lv (used_pct (fst x)) t"
  shows "stage_run lv h passes (Some t) = replicate (length passes) t"
  using assms by (induction lv h passes "Some t" rule: stage_run.induct)
    (simp_all add: store_stage_steady Let_def)

theorem stage_never_flaps_witness:
  "stage_run default_levels 24
     [(example_store 890, None), (example_store 905, None), (example_store 885, None)] (Some DEMAND) =
   [DEMAND, DEMAND, DEMAND]"
proof -
  have "\<forall>x \<in> set [(example_store 890, None), (example_store 905, None), (example_store 885, None)].
      raw_stage (fst x) default_levels (snd x) 24 \<le> DEMAND \<and>
      holds_level default_levels (used_pct (fst x)) DEMAND"
    by code_simp
  from stage_never_flaps [OF this] show ?thesis
    by (simp del: stage_run.simps add: numeral_eq_Suc)
qed

text \<open>Tightened targets relieve the store: above the WATCH level, when the floors fit what is
  left after the reduction, clients that trim to their targets bring the store's use down to
  its WATCH level; every target keeps its client's floor and asks no client to grow past its
  allotment (or its floor).\<close>

theorem tightened_targets_relieve:
  assumes t: "tightened_targets s lv holdings ds allotted = Inr t"
    and pressed: "of_int (st_used s) > of_int (st_capacity s) * lv_watch lv / 100"
    and fit: "0 \<le> sum_list (map (demand_floor ds) (map fst t))"
      "sum_list (map (demand_floor ds) (map fst t)) \<le>
        sum_list (map (\<lambda>c. dget holdings c 0) (map fst t)) - watch_reduction s lv"
  shows "of_int (st_used s - (sum_list (map (\<lambda>c. dget holdings c 0) (map fst t)) - sum_list (map snd t)))
      \<le> of_int (st_capacity s) * lv_watch lv / 100 \<and>
    (\<forall>c \<in> set (map fst t). demand_floor ds c \<le> dget t c 0 \<and>
      dget t c 0 \<le> max (demand_floor ds c) (dget allotted c (dget holdings c 0)))"
proof -
  let ?level = "of_int (st_capacity s) * lv_watch lv / 100 :: rat"
  have t': "tightened_targets_with allot_days s lv holdings ds allotted = Inr t"
    using t by (simp add: tightened_targets_def)
  have red: "of_int (st_used s) - ?level \<le> of_int (watch_reduction s lv)" and "watch_reduction s lv \<noteq> 0"
    using pressed by (simp_all add: watch_reduction_def max_def) linarith+
  from days.targets_relieve [OF t' this(2) fit(2)] fit
  have "sum_list (map snd t) \<le> sum_list (map (\<lambda>c. dget holdings c 0) (map fst t)) - watch_reduction s lv"
    by simp
  then have "st_used s - (sum_list (map (\<lambda>c. dget holdings c 0) (map fst t)) - sum_list (map snd t))
      \<le> st_used s - watch_reduction s lv" by simp
  then have "(of_int (st_used s - (sum_list (map (\<lambda>c. dget holdings c 0) (map fst t)) - sum_list (map snd t))) :: rat)
      \<le> of_int (st_used s - watch_reduction s lv)" by (simp only: of_int_le_iff)
  also have "\<dots> \<le> ?level" using red by simp
  finally show ?thesis using days.targets_bounds [OF t'] by blast
qed

definition example_holdings :: "(string, int) dict" where
  "example_holdings = [(''psk'', 300), (''wspr'', 500)]"

theorem tightened_targets_relieve_witness:
  "\<exists>t. tightened_targets (example_store 900) default_levels example_holdings example_demands
      [(''psk'', 400), (''wspr'', 600)] = Inr t \<and>
    (of_int (900 - (800 - sum_list (map snd t))) :: rat) \<le> 800"
proof -
  let ?s = "example_store 900"
  have t: "tightened_targets ?s default_levels example_holdings example_demands
      [(''psk'', 400), (''wspr'', 600)] = Inr [(''psk'', 80), (''wspr'', 600)]"
    by code_simp
  have "of_int (st_used ?s) > (of_int (st_capacity ?s) * lv_watch default_levels / 100 :: rat)"
    by code_simp
  moreover have "0 \<le> sum_list (map (demand_floor example_demands) (map fst [(''psk'', 80 :: int), (''wspr'', 600)]))"
    by code_simp
  moreover have "sum_list (map (demand_floor example_demands) (map fst [(''psk'', 80 :: int), (''wspr'', 600)])) \<le>
      sum_list (map (\<lambda>c. dget example_holdings c 0) (map fst [(''psk'', 80 :: int), (''wspr'', 600)]))
        - watch_reduction ?s default_levels"
    by code_simp
  ultimately have "(of_int (st_used ?s - (sum_list (map (\<lambda>c. dget example_holdings c 0)
        (map fst [(''psk'', 80 :: int), (''wspr'', 600)])) - sum_list (map snd [(''psk'', 80), (''wspr'', 600)]))) :: rat)
      \<le> of_int (st_capacity ?s) * lv_watch default_levels / 100"
    using tightened_targets_relieve [OF t] by blast
  with t show ?thesis by (simp add: example_store_def default_levels_def example_holdings_def)
qed

text \<open>C3. A stop is always justified: every stop in a decision names a client of a store that is not
  the pool and is at FINAL, the station is not hands-off, the client holds more than its
  target there, and it either failed to answer its trim request within the deadline (a
  managed client) or sat over its target at FINAL longer than the grace period (an
  unmanaged one); and no client is stopped twice.\<close>

theorem decide_stop_justified:
  assumes "decide e = Inr d"
  shows "distinct (stops (dc_actions d)) \<and>
    (\<forall>a \<in> set (dc_actions d). ac_kind a = ''stop'' \<longrightarrow> \<not> di_hands_off e \<and>
      (\<exists>s al tgt c. map_of (di_stores e) (ac_store a) = Some s \<and> st_kind s \<noteq> ''pool'' \<and>
        map_of (di_allotments e) (ac_store a) = Some al \<and>
        pass_targets e (ac_store a) s al = Inr tgt \<and>
        pass_stage e (ac_store a) s = FINAL \<and> ac_client a = Some c \<and>
        over_target e (ac_store a) al tgt c \<and>
        (if reg_managed e (ac_store a) c
         then failed_to_answer (map_of (di_trims e) c) (di_now e)
         else \<exists>r t. map_of (di_trims e) c = Some r \<and> tr_final_since r = Some t \<and>
           di_now e - t > UNMANAGED_FINAL_GRACE_S)))"
proof -
  have "\<exists>s al tgt c. map_of (di_stores e) (ac_store a) = Some s \<and> st_kind s \<noteq> ''pool'' \<and>
        map_of (di_allotments e) (ac_store a) = Some al \<and>
        pass_targets e (ac_store a) s al = Inr tgt \<and>
        pass_stage e (ac_store a) s = FINAL \<and> ac_client a = Some c \<and>
        over_target e (ac_store a) al tgt c \<and> \<not> di_hands_off e \<and>
        client_fails e (reg_managed e (ac_store a) c) True c"
    if "a \<in> set (dc_actions d)" "ac_kind a = ''stop''" for a
    using decide_inv [OF assms] that by (fastforce simp: action_ok_def client_action_ok_def)
  then show ?thesis
    using decide_inv [OF assms]
    by (fastforce simp: client_fails_def Let_def split: if_splits option.splits)
qed

definition example_trims :: "(string, trim_record) dict" where
  "example_trims =
     [(''wspr'', \<lparr>tr_requested_at = 0, tr_answered_at = None, tr_ok = False, tr_final_since = None\<rparr>)]"

definition example_regs :: "registration list" where
  "example_regs =
     [\<lparr>rg_client = ''psk'', rg_store = ''root'', rg_paths = [''/a''], rg_floor_bytes = 50,
       rg_policy = None, rg_managed = False, rg_mb_per_day = 0, rg_max_days = None\<rparr>,
      \<lparr>rg_client = ''wspr'', rg_store = ''root'', rg_paths = [''/b''], rg_floor_bytes = 100,
       rg_policy = None, rg_managed = True, rg_mb_per_day = 0, rg_max_days = None\<rparr>]"

definition example_in :: "bool \<Rightarrow> decide_in" where
  "example_in hands_off = \<lparr>di_stores = [(''root'', example_store 960)],
     di_allotments = [(''root'', \<lparr>al_per_client = [(''psk'', 80), (''wspr'', 700)],
        al_floors_fit = True, al_allottable = 800, al_days = Some 80, al_pool_caused = False\<rparr>)],
     di_holdings = [((''wspr'', ''root''), \<lparr>hd_client = ''wspr'', hd_store = ''root'',
        hd_bytes_by_class = [(''raw'', 600), (''sent'', 300)], hd_estimated = False\<rparr>)],
     di_registrations = example_regs, di_levels = default_levels, di_trims = example_trims,
     di_directives = [], di_hands_off = hands_off, di_host_fault = None, di_now = 1000,
     di_demands = Some [(''root'', example_demands)], di_churn = [], di_horizon_h = 24,
     di_previous = []\<rparr>"

definition example_decision :: decision where
  "example_decision = (case decide (example_in False) of Inr d \<Rightarrow> d
     | Inl e \<Rightarrow> \<lparr>dc_stages = [], dc_actions = [], dc_alarms = [], dc_targets = [], dc_fill_stages = []\<rparr>)"

lemma example_decide: "decide (example_in False) = Inr example_decision"
proof -
  have "(case decide (example_in False) of Inr d \<Rightarrow> True | Inl e \<Rightarrow> False)" by code_simp
  then show ?thesis by (auto simp: example_decision_def split: sum.splits)
qed

lemma example_actions:
  "map (\<lambda>a. (ac_kind a, ac_client a)) (dc_actions example_decision) =
     [(''cleanup'', None), (''trim'', Some ''wspr''), (''final'', Some ''wspr''), (''stop'', Some ''wspr'')]"
  by code_simp

theorem decide_stop_justified_witness:
  "\<exists>a \<in> set (dc_actions example_decision). ac_kind a = ''stop'' \<and>
     failed_to_answer (map_of (di_trims (example_in False)) ''wspr'') (di_now (example_in False))"
proof -
  have "\<exists>a \<in> set (dc_actions example_decision). ac_kind a = ''stop'' \<and> ac_client a = Some ''wspr''"
    by code_simp
  then obtain a where a: "a \<in> set (dc_actions example_decision)" "ac_kind a = ''stop''"
    "ac_client a = Some ''wspr''" by blast
  have "map_of (di_stores (example_in False)) (ac_store a) \<noteq> None \<Longrightarrow>
      reg_managed (example_in False) (ac_store a) ''wspr''"
    by (auto simp: example_in_def reg_managed_def regs_on_def example_regs_def split: if_splits)
  with decide_stop_justified [OF example_decide] a show ?thesis by fastforce
qed

text \<open>Below TIGHTEN, and on the pool, the ladder asks for nothing: every action names a measured
  store that is not the pool and whose stage is TIGHTEN or higher, and every trim and final
  call goes to a managed client that is over its target, with that target as its fit.\<close>

theorem decide_actions_grounded:
  assumes "decide e = Inr d" and "a \<in> set (dc_actions d)"
  shows "\<exists>s al tgt. map_of (di_stores e) (ac_store a) = Some s \<and> st_kind s \<noteq> ''pool'' \<and>
     map_of (di_allotments e) (ac_store a) = Some al \<and>
     pass_targets e (ac_store a) s al = Inr tgt \<and> TIGHTEN \<le> pass_stage e (ac_store a) s \<and>
     (ac_kind a \<in> {''trim'', ''final''} \<longrightarrow> (\<exists>c. ac_client a = Some c \<and>
        reg_managed e (ac_store a) c \<and> over_target e (ac_store a) al tgt c \<and>
        ac_fit_bytes a = Some (dget tgt c 0)))"
proof -
  have "action_ok e a" using decide_inv [OF assms(1)] assms(2) by blast
  then show ?thesis by (fastforce simp: action_ok_def client_action_ok_def)
qed

theorem decide_actions_grounded_witness:
  "\<exists>a \<in> set (dc_actions example_decision). ac_kind a = ''trim'' \<and>
     reg_managed (example_in False) (ac_store a) ''wspr''"
proof -
  have "\<exists>a \<in> set (dc_actions example_decision). ac_kind a = ''trim'' \<and> ac_client a = Some ''wspr''"
    by code_simp
  then obtain a where a: "a \<in> set (dc_actions example_decision)" "ac_kind a = ''trim''"
    "ac_client a = Some ''wspr''" by blast
  with decide_actions_grounded [OF example_decide a(1)] show ?thesis by auto
qed

text \<open>C4. The ladder answers whenever every store with allotments has its clients' rates; it then
  reports for every measured store the stage its fill and its floors give.\<close>

theorem decide_total:
  assumes "di_demands e = Some ds"
    and "\<forall>n \<in> set (map fst (di_allotments e)). map_of ds n \<noteq> None"
  shows "\<exists>d. decide e = Inr d \<and> (\<forall>n s. map_of (di_stores e) n = Some s \<longrightarrow>
     map_of (dc_stages d) n = Some (pass_stage e n s) \<and>
     map_of (dc_fill_stages d) n = Some (fill_stage e n s))"
proof -
  obtain d where d: "decide e = Inr d" using decide_returns [OF assms] by blast
  then obtain p where p: "efold (decide_store e) (sort (map fst (di_stores e))) empty_pass = Inr p"
    "dc_stages d = ps_stages p" "dc_fill_stages d = ps_fill_stages p" by (rule decide_run)
  have "map_of (ps_stages p) n = Some (pass_stage e n s) \<and>
      map_of (ps_fill_stages p) n = Some (fill_stage e n s)"
    if s: "map_of (di_stores e) n = Some s" for n s
  proof (rule efold_reaches [OF p(1), of n])
    show "n \<in> set (sort (map fst (di_stores e)))" using map_of_SomeD [OF s] by force
  next
    fix u v assume "decide_store e n u = Inr v"
    then show "map_of (ps_stages v) n = Some (pass_stage e n s) \<and>
        map_of (ps_fill_stages v) n = Some (fill_stage e n s)"
      using s by (cases rule: decide_store_cases) (auto simp: update_conv)
  next
    fix y u v assume "decide_store e y u = Inr v" and "map_of (ps_stages u) n = Some (pass_stage e n s) \<and>
        map_of (ps_fill_stages u) n = Some (fill_stage e n s)"
    then show "map_of (ps_stages v) n = Some (pass_stage e n s) \<and>
        map_of (ps_fill_stages v) n = Some (fill_stage e n s)"
      using s by (cases rule: decide_store_cases) (auto simp: update_conv)
  qed
  with d p show ?thesis by auto
qed

theorem decide_total_witness:
  "\<exists>d. decide (example_in True) = Inr d \<and>
     map_of (dc_stages d) ''root'' = Some (pass_stage (example_in True) ''root'' (example_store 960))"
proof -
  have "di_demands (example_in True) = Some [(''root'', example_demands)]"
    "\<forall>n \<in> set (map fst (di_allotments (example_in True))). map_of [(''root'', example_demands)] n \<noteq> None"
    "map_of (di_stores (example_in True)) ''root'' = Some (example_store 960)"
    by (simp_all add: example_in_def)
  with decide_total [of "example_in True"] show ?thesis by blast
qed

text \<open>No over-holder goes unasked: a managed client that holds more than its target on a store
  other than the pool at TIGHTEN or above gets a trim request for exactly that target.\<close>

theorem decide_trims_overholders:
  assumes "decide e = Inr d"
    and s: "map_of (di_stores e) n = Some s" and al: "map_of (di_allotments e) n = Some al"
    and tgt: "pass_targets e n s al = Inr tgt"
    and pressed: "st_kind s \<noteq> ''pool''" "TIGHTEN \<le> pass_stage e n s"
    and c: "c \<in> set (pass_clients e n al)" "reg_managed e n c" "over_target e n al tgt c"
  shows "\<lparr>ac_kind = ''trim'', ac_store = n, ac_client = Some c,
      ac_fit_bytes = Some (dget tgt c 0), ac_policy = None\<rparr> \<in> set (dc_actions d)"
    (is "?a \<in> _")
proof -
  from assms(1) obtain p where p: "efold (decide_store e) (sort (map fst (di_stores e))) empty_pass = Inr p"
    "dc_actions d = ps_actions p" by (rule decide_run)
  have keeps: "?a \<in> set (ps_actions (fold (press_client e m st h t) cs q))"
    if "?a \<in> set (ps_actions q)" for m st h t cs q
    using that by (induction cs arbitrary: q) (simp_all add: press_client_actions)
  have "?a \<in> set (ps_actions p)"
  proof (rule efold_reaches [OF p(1), of n])
    show "n \<in> set (sort (map fst (di_stores e)))" using map_of_SomeD [OF s] by force
  next
    fix u v assume "decide_store e n u = Inr v"
    then show "?a \<in> set (ps_actions v)"
    proof (cases rule: decide_store_cases)
      case quiet
      from quiet(1,2) s al pressed show ?thesis by (simp add: not_less [symmetric])
    next
      case (pressed s' al' tgt' p1)
      with s al tgt have eq: "s' = s" "al' = al" "tgt' = tgt" by simp_all
      show ?thesis
        unfolding pressed(6) eq
        by (rule fold_reaches [OF c(1)]) (use c in \<open>auto simp: press_client_actions over_target_def\<close>)
    qed
  next
    fix y u v assume "decide_store e y u = Inr v" and "?a \<in> set (ps_actions u)"
    then show "?a \<in> set (ps_actions v)"
      by (cases rule: decide_store_cases) (auto intro: keeps)
  qed
  with p(2) show ?thesis by simp
qed

theorem decide_trims_overholders_witness:
  "\<exists>a \<in> set (dc_actions example_decision). ac_kind a = ''trim'' \<and> ac_fit_bytes a = Some 660"
proof -
  let ?e = "example_in False" and ?s = "example_store 960"
  let ?al = "\<lparr>al_per_client = [(''psk'', 80), (''wspr'', 700)], al_floors_fit = True,
      al_allottable = 800, al_days = Some 80, al_pool_caused = False\<rparr>"
  have "map_of (di_stores ?e) ''root'' = Some ?s" "map_of (di_allotments ?e) ''root'' = Some ?al"
    by (simp_all add: example_in_def)
  moreover have "pass_targets ?e ''root'' ?s ?al = Inr [(''psk'', 80), (''wspr'', 660)]"
    "st_kind ?s \<noteq> ''pool''" "TIGHTEN \<le> pass_stage ?e ''root'' ?s" "''wspr'' \<in> set (pass_clients ?e ''root'' ?al)"
    "reg_managed ?e ''root'' ''wspr''" "over_target ?e ''root'' ?al [(''psk'', 80), (''wspr'', 660)] ''wspr''"
    by code_simp+
  ultimately have "\<lparr>ac_kind = ''trim'', ac_store = ''root'', ac_client = Some ''wspr'',
      ac_fit_bytes = Some (dget [(''psk'', 80), (''wspr'', 660)] ''wspr'' 0), ac_policy = None\<rparr>
      \<in> set (dc_actions example_decision)"
    by (rule decide_trims_overholders [OF example_decide])
  then show ?thesis by (rule bexI [rotated]) simp
qed

end
