(* ===== verification/PyData.thy ===== *)
theory PyData
  imports Prelude
begin

text \<open>
  Python's dynamic values as the components meet them (parsed JSON and TOML), and the string
  methods and number conversions the components call.  A \<open>string\<close> is a list of code points
  below 256.
\<close>

section \<open>Characters and strings\<close>

text \<open>\<open>str.isspace\<close> below 256.\<close>

definition is_space :: "char \<Rightarrow> bool" where
  "is_space c = (let n = of_char c :: nat in
     9 \<le> n \<and> n \<le> 13 \<or> 28 \<le> n \<and> n \<le> 32 \<or> n = 133 \<or> n = 160)"

definition is_digit :: "char \<Rightarrow> bool" where
  "is_digit c = (let n = of_char c :: nat in 48 \<le> n \<and> n \<le> 57)"

definition digit_val :: "char \<Rightarrow> int" where
  "digit_val c = of_char c - 48"

definition is_lower :: "char \<Rightarrow> bool" where
  "is_lower c = (let n = of_char c :: nat in 97 \<le> n \<and> n \<le> 122)"

definition is_upper :: "char \<Rightarrow> bool" where
  "is_upper c = (let n = of_char c :: nat in 65 \<le> n \<and> n \<le> 90)"

definition lstrip :: "string \<Rightarrow> string" where
  "lstrip s = dropWhile is_space s"

definition rstrip :: "string \<Rightarrow> string" where
  "rstrip s = rev (dropWhile is_space (rev s))"

definition strip :: "string \<Rightarrow> string" where
  "strip s = rstrip (lstrip s)"

fun starts_with :: "string \<Rightarrow> string \<Rightarrow> bool" where
  "starts_with s [] = True"
| "starts_with [] (p # ps) = False"
| "starts_with (c # cs) (p # ps) = (c = p \<and> starts_with cs ps)"

definition ends_with :: "string \<Rightarrow> string \<Rightarrow> bool" where
  "ends_with s p = starts_with (rev s) (rev p)"

text \<open>\<open>s.split(c)\<close>, \<open>s.split()\<close>, \<open>c.join(xs)\<close>, \<open>s.replace(c, d)\<close>.\<close>

fun split_on :: "char \<Rightarrow> string \<Rightarrow> string list" where
  "split_on c [] = [[]]"
| "split_on c (x # xs) =
     (if x = c then [] # split_on c xs
      else case split_on c xs of [] \<Rightarrow> [[x]] | w # ws \<Rightarrow> (x # w) # ws)"

fun split_ws_acc :: "string \<Rightarrow> string \<Rightarrow> string list" where
  "split_ws_acc acc [] = (if acc = [] then [] else [rev acc])"
| "split_ws_acc acc (x # xs) =
     (if is_space x then (if acc = [] then split_ws_acc [] xs else rev acc # split_ws_acc [] xs)
      else split_ws_acc (x # acc) xs)"

definition split_ws :: "string \<Rightarrow> string list" where
  "split_ws s = split_ws_acc [] s"

definition join_on :: "string \<Rightarrow> string list \<Rightarrow> string" where
  "join_on sep xs = (case xs of [] \<Rightarrow> [] | y # ys \<Rightarrow> y @ concat (map (\<lambda>z. sep @ z) ys))"

definition replace_char :: "char \<Rightarrow> char \<Rightarrow> string \<Rightarrow> string" where
  "replace_char c d s = map (\<lambda>x. if x = c then d else x) s"

lemma starts_with_append [simp]: "starts_with (p @ s) p"
  by (induction p) simp_all

lemma starts_with_iff: "starts_with s p \<longleftrightarrow> (\<exists>t. s = p @ t)"
  by (induction s p rule: starts_with.induct) auto

lemma split_on_not_Nil [simp]: "split_on c s \<noteq> []"
  by (induction s) (auto split: list.splits)

lemma join_split: "join_on [c] (split_on c s) = s"
proof (induction s)
  case (Cons x s)
  obtain w ws where w: "split_on c s = w # ws" by (cases "split_on c s") simp_all
  have eta: "(@) [c] = (#) c" by (simp add: fun_eq_iff)
  from w Cons.IH have "w @ concat (map ((#) c) ws) = s" by (simp add: join_on_def eta)
  with w show ?case by (simp add: join_on_def eta)
qed (simp add: join_on_def)

lemma split_on_no_sep: "\<forall>w \<in> set (split_on c s). c \<notin> set w"
proof (induction s)
  case (Cons x s)
  obtain v vs where v: "split_on c s = v # vs" by (cases "split_on c s") simp_all
  from Cons.IH show ?case by (simp add: v)
qed simp

definition is_word :: "string \<Rightarrow> bool" where
  "is_word w \<longleftrightarrow> w \<noteq> [] \<and> \<not> list_ex is_space w"

lemma split_ws_acc_words:
  "\<not> list_ex is_space acc \<Longrightarrow> list_all is_word (split_ws_acc acc s)"
proof (induction acc s rule: split_ws_acc.induct)
  case (1 acc)
  then show ?case by (simp add: is_word_def list_ex_iff)
next
  case (2 acc x xs)
  show ?case
  proof (cases "is_space x")
    case True
    with 2 show ?thesis by (cases "acc = []") (simp_all add: is_word_def list_ex_iff)
  next
    case False
    with 2 show ?thesis by simp
  qed
qed

lemma split_ws_words: "list_all is_word (split_ws s)"
  unfolding split_ws_def by (rule split_ws_acc_words) simp

lemma split_ws_acc_word:
  "\<forall>x \<in> set w. \<not> is_space x \<Longrightarrow> split_ws_acc acc (w @ s) = split_ws_acc (rev w @ acc) s"
  by (induction w arbitrary: acc) auto

section \<open>Numbers\<close>

datatype pyfloat = Fin rat | PosInf | NegInf | NaN

text \<open>\<open>int(s)\<close> of a decimal string: surrounding white space, a sign, digits with single
  underscores between them.\<close>

fun digits_val :: "int \<Rightarrow> string \<Rightarrow> int option" where
  "digits_val n [] = Some n"
| "digits_val n (c # cs) =
     (if is_digit c then digits_val (10 * n + digit_val c) cs
      else if c = CHR ''_'' then (case cs of [] \<Rightarrow> None
        | d # ds \<Rightarrow> if is_digit d then digits_val (10 * n + digit_val d) ds else None)
      else None)"

definition nat_of_string :: "string \<Rightarrow> int option" where
  "nat_of_string s = (case s of [] \<Rightarrow> None | c # _ \<Rightarrow> if is_digit c then digits_val 0 s else None)"

definition int_of_string :: "string \<Rightarrow> int option" where
  "int_of_string s = (case strip s of
       CHR ''-'' # t \<Rightarrow> map_option uminus (nat_of_string t)
     | CHR ''+'' # t \<Rightarrow> nat_of_string t
     | t \<Rightarrow> nat_of_string t)"

lemma digit_val_nonneg: "is_digit c \<Longrightarrow> 0 \<le> digit_val c"
  by (simp add: is_digit_def digit_val_def Let_def) (metis of_nat_le_iff of_nat_numeral of_nat_of_char)

lemma digits_val_nonneg: "0 \<le> n \<Longrightarrow> digits_val n s = Some m \<Longrightarrow> 0 \<le> m"
  by (induction n s rule: digits_val.induct)
    (auto dest: digit_val_nonneg split: if_splits list.splits)

lemma nat_of_string_nonneg: "nat_of_string s = Some n \<Longrightarrow> 0 \<le> n"
  by (auto simp: nat_of_string_def dest: digits_val_nonneg [rotated] digit_val_nonneg
      split: list.splits if_splits)

text \<open>\<open>str(n)\<close> of an integer.\<close>

fun digits_of :: "nat \<Rightarrow> string" where
  "digits_of n = (if n < 10 then [char_of (48 + n)] else digits_of (n div 10) @ [char_of (48 + n mod 10)])"

declare digits_of.simps [simp del]

definition string_of_int :: "int \<Rightarrow> string" where
  "string_of_int n = (if n < 0 then CHR ''-'' # digits_of (nat (- n)) else digits_of (nat n))"

text \<open>\<open>float(s)\<close> of a string: a sign, \<open>inf\<close>, \<open>infinity\<close> or \<open>nan\<close> in any case, or decimal
  digits with an optional fraction and exponent.\<close>

definition lower_char :: "char \<Rightarrow> char" where
  "lower_char c = (if is_upper c then char_of (of_char c + (32 :: nat)) else c)"

definition lower :: "string \<Rightarrow> string" where
  "lower s = map lower_char s"

definition part_val :: "string \<Rightarrow> rat option" where
  "part_val s = (if s = [] then Some 0 else map_option of_int (nat_of_string s))"

definition mantissa_val :: "string \<Rightarrow> rat option" where
  "mantissa_val s = (case split_on (CHR ''.'') s of
       [a] \<Rightarrow> map_option of_int (nat_of_string a)
     | [a, b] \<Rightarrow> if a = [] \<and> b = [] then None
         else (case (part_val a, part_val b) of
             (Some x, Some y) \<Rightarrow> Some (x + y / 10 ^ length (filter is_digit b))
           | _ \<Rightarrow> None)
     | _ \<Rightarrow> None)"

definition exponent_val :: "string \<Rightarrow> rat option" where
  "exponent_val s = (case s of
       CHR ''-'' # t \<Rightarrow> map_option (\<lambda>n. 1 / 10 ^ nat n) (nat_of_string t)
     | CHR ''+'' # t \<Rightarrow> map_option (\<lambda>n. 10 ^ nat n) (nat_of_string t)
     | t \<Rightarrow> map_option (\<lambda>n. 10 ^ nat n) (nat_of_string t))"

definition unsigned_float :: "string \<Rightarrow> pyfloat option" where
  "unsigned_float s =
     (if s = ''inf'' \<or> s = ''infinity'' then Some PosInf
      else if s = ''nan'' then Some NaN
      else case split_on (CHR ''e'') s of
          [m] \<Rightarrow> map_option Fin (mantissa_val m)
        | [m, x] \<Rightarrow> (case (mantissa_val m, exponent_val x) of
            (Some a, Some b) \<Rightarrow> Some (Fin (a * b)) | _ \<Rightarrow> None)
        | _ \<Rightarrow> None)"

fun neg_float :: "pyfloat \<Rightarrow> pyfloat" where
  "neg_float (Fin x) = Fin (- x)"
| "neg_float PosInf = NegInf"
| "neg_float NegInf = PosInf"
| "neg_float NaN = NaN"

definition float_of_string :: "string \<Rightarrow> pyfloat option" where
  "float_of_string s = (case lower (strip s) of
       CHR ''-'' # t \<Rightarrow> map_option neg_float (unsigned_float t)
     | CHR ''+'' # t \<Rightarrow> unsigned_float t
     | t \<Rightarrow> unsigned_float t)"

section \<open>Dynamic values\<close>

datatype pyval =
    PNone
  | PBool bool
  | PInt int
  | PFloat pyfloat
  | PStr string
  | PList "pyval list"
  | PDict "(string \<times> pyval) list"

text \<open>\<open>isinstance(v, (int, float))\<close> holds of a \<open>bool\<close> too; \<open>_num\<close> excludes it.\<close>

fun py_truthy :: "pyval \<Rightarrow> bool" where
  "py_truthy PNone = False"
| "py_truthy (PBool b) = b"
| "py_truthy (PInt n) = (n \<noteq> 0)"
| "py_truthy (PFloat f) = (f \<noteq> Fin 0)"
| "py_truthy (PStr s) = (s \<noteq> [])"
| "py_truthy (PList xs) = (xs \<noteq> [])"
| "py_truthy (PDict d) = (d \<noteq> [])"

definition py_get :: "(string \<times> pyval) list \<Rightarrow> string \<Rightarrow> pyval" where
  "py_get d k = dget d k PNone"

text \<open>\<open>int(v)\<close> and \<open>float(v)\<close>; \<open>None\<close> stands for the TypeError, ValueError or OverflowError.\<close>

fun to_int :: "pyval \<Rightarrow> int option" where
  "to_int (PBool b) = Some (if b then 1 else 0)"
| "to_int (PInt n) = Some n"
| "to_int (PFloat (Fin x)) = Some (py_trunc x)"
| "to_int (PStr s) = int_of_string s"
| "to_int _ = None"

fun to_float :: "pyval \<Rightarrow> pyfloat option" where
  "to_float (PBool b) = Some (Fin (if b then 1 else 0))"
| "to_float (PInt n) = Some (Fin (of_int n))"
| "to_float (PFloat f) = Some f"
| "to_float (PStr s) = float_of_string s"
| "to_float _ = None"

text \<open>The \<open>_num\<close> helpers: a number that is not a \<open>bool\<close>, as a float.\<close>

fun py_num :: "pyval \<Rightarrow> pyfloat option" where
  "py_num (PInt n) = Some (Fin (of_int n))"
| "py_num (PFloat f) = Some f"
| "py_num _ = None"

text \<open>\<open>str(v)\<close>; \<open>repr\<close> gives the text of a float, a list or a dict.\<close>

fun py_str :: "(pyval \<Rightarrow> string) \<Rightarrow> pyval \<Rightarrow> string" where
  "py_str repr PNone = ''None''"
| "py_str repr (PBool b) = (if b then ''True'' else ''False'')"
| "py_str repr (PInt n) = string_of_int n"
| "py_str repr (PStr s) = s"
| "py_str repr v = repr v"

end
