(* ===== verification/StorageAlarms.thy ===== *)
theory StorageAlarms
  imports StorageLadder PyData
begin

text \<open>
  \<^verbatim>\<open>lib/sigmond/storage/alarms.py\<close>: the alarm book, one journal line per alarm episode.
  The book is a dictionary from alarm keys to the severity, the time of the last journal
  line and the message; \<open>book_update\<close> compares it with the alarms active now and yields the
  emissions.  The lemmas give the emission of every key exactly and show that the journal is
  complete: replaying it yields the active alarms.  The stored severity is the
  \<^typ>\<open>severity\<close> itself where the code stores its integer value.
\<close>

definition REMIND_S :: rat where "REMIND_S = 6 * 3600"

datatype emission_kind = Raise | Remind | Clear

record 'm emission =
  em_key :: string
  em_kind :: emission_kind
  em_severity :: severity
  em_message :: 'm

definition journal_prio :: "'m emission \<Rightarrow> int" where
  "journal_prio e = (if em_kind e = Clear then 6 else severity_val (em_severity e))"

record 'm entry =
  en_severity :: severity
  en_last_emit :: rat
  en_message :: 'm

type_synonym 'm book = "(string, 'm entry) dict"

text \<open>The body of the first loop, over the active keys in order.\<close>

definition active_step ::
  "(string, severity \<times> 'm) dict \<Rightarrow> rat \<Rightarrow> string \<Rightarrow> 'm book \<times> 'm emission list \<Rightarrow>
   'm book \<times> 'm emission list" where
  "active_step active now key = (\<lambda>(book, out). case map_of active key of
      None \<Rightarrow> (book, out)
    | Some (sev, msg) \<Rightarrow>
        (case map_of book key of
           None \<Rightarrow> (AList.update key \<lparr>en_severity = sev, en_last_emit = now, en_message = msg\<rparr> book,
                    out @ [\<lparr>em_key = key, em_kind = Raise, em_severity = sev, em_message = msg\<rparr>])
         | Some prev \<Rightarrow>
             if en_severity prev \<noteq> sev then
               (AList.update key \<lparr>en_severity = sev, en_last_emit = now, en_message = msg\<rparr> book,
                out @ [\<lparr>em_key = key, em_kind = Raise, em_severity = sev, em_message = msg\<rparr>])
             else if now - en_last_emit prev \<ge> REMIND_S then
               (AList.update key (prev\<lparr>en_last_emit := now, en_message := msg\<rparr>) book,
                out @ [\<lparr>em_key = key, em_kind = Remind, em_severity = sev, em_message = msg\<rparr>])
             else (AList.update key (prev\<lparr>en_message := msg\<rparr>) book, out)))"

text \<open>The body of the second loop, over the keys no longer active.\<close>

definition clear_step ::
  "string \<Rightarrow> 'm book \<times> 'm emission list \<Rightarrow> 'm book \<times> 'm emission list" where
  "clear_step key = (\<lambda>(book, out). case map_of book key of
      None \<Rightarrow> (book, out)
    | Some prev \<Rightarrow> (AList.delete key book,
        out @ [\<lparr>em_key = key, em_kind = Clear, em_severity = en_severity prev,
                em_message = en_message prev\<rparr>]))"

definition book_update ::
  "(string, severity \<times> 'm) dict \<Rightarrow> rat \<Rightarrow> 'm book \<Rightarrow> 'm book \<times> 'm emission list" where
  "book_update active now book =
     (let (book1, out1) = fold (active_step active now) (sort (map fst active)) (book, []);
          gone = sorted_set (filter (\<lambda>k. k \<notin> set (map fst active)) (map fst book1))
      in fold clear_step gone (book1, out1))"

text \<open>Persistence: \<open>to_dict\<close> and \<open>from_dict\<close>, at string messages.\<close>

definition entry_to_val :: "string entry \<Rightarrow> pyval" where
  "entry_to_val v = PDict [(''severity'', PInt (severity_val (en_severity v))),
     (''last_emit'', PFloat (Fin (en_last_emit v))), (''message'', PStr (en_message v))]"

definition book_to_dict :: "string book \<Rightarrow> pyval" where
  "book_to_dict book = PDict [(''active'', PDict (map (\<lambda>(k, v). (k, entry_to_val v)) book))]"

definition severity_of_int :: "int \<Rightarrow> severity option" where
  "severity_of_int n = (if n = 4 then Some WARNING else if n = 3 then Some ERROR
     else if n = 2 then Some CRITICAL else None)"

text \<open>One entry; \<open>None\<close> where the \<open>try\<close> body raises or the time is not finite.\<close>

definition entry_of_val :: "(pyval \<Rightarrow> string) \<Rightarrow> pyval \<Rightarrow> string entry option" where
  "entry_of_val repr v = (case v of
     PDict d \<Rightarrow>
       (case (map_of d ''severity'', map_of d ''last_emit'') of
          (Some s, Some l) \<Rightarrow>
            (case (Option.bind (to_int s) severity_of_int, to_float l) of
               (Some sev, Some (Fin t)) \<Rightarrow>
                 Some \<lparr>en_severity = sev, en_last_emit = t,
                   en_message = py_str repr (dget d ''message'' (PStr ''''))\<rparr>
             | _ \<Rightarrow> None)
        | _ \<Rightarrow> None)
   | _ \<Rightarrow> None)"

definition load_entry :: "(pyval \<Rightarrow> string) \<Rightarrow> string \<times> pyval \<Rightarrow> string book \<Rightarrow> string book" where
  "load_entry repr kv book = (case entry_of_val repr (snd kv) of
     Some e \<Rightarrow> AList.update (fst kv) e book | None \<Rightarrow> book)"

definition book_from_dict :: "(pyval \<Rightarrow> string) \<Rightarrow> pyval \<Rightarrow> string book" where
  "book_from_dict repr d = (case d of
     PDict d' \<Rightarrow> (case dget d' ''active'' (PDict []) of
         PDict items \<Rightarrow> fold (load_entry repr) items []
       | _ \<Rightarrow> [])
   | _ \<Rightarrow> [])"

section \<open>What the book and the journal hold after an update\<close>

text \<open>The emission of one key, and its entry afterwards, as a function of the old entry and the
  active alarm.\<close>

definition key_emission ::
  "(severity \<times> 'm) option \<Rightarrow> rat \<Rightarrow> 'm entry option \<Rightarrow> (emission_kind \<times> severity \<times> 'm) option" where
  "key_emission act now prev = (case act of
     None \<Rightarrow> (case prev of None \<Rightarrow> None | Some p \<Rightarrow> Some (Clear, en_severity p, en_message p))
   | Some (sev, msg) \<Rightarrow> (case prev of None \<Rightarrow> Some (Raise, sev, msg)
       | Some p \<Rightarrow> if en_severity p \<noteq> sev then Some (Raise, sev, msg)
           else if now - en_last_emit p \<ge> REMIND_S then Some (Remind, sev, msg) else None))"

definition key_entry ::
  "(severity \<times> 'm) option \<Rightarrow> rat \<Rightarrow> 'm entry option \<Rightarrow> 'm entry option" where
  "key_entry act now prev = (case act of None \<Rightarrow> None
     | Some (sev, msg) \<Rightarrow> Some \<lparr>en_severity = sev,
         en_last_emit = (case prev of None \<Rightarrow> now | Some p \<Rightarrow>
           if en_severity p \<noteq> sev \<or> now - en_last_emit p \<ge> REMIND_S then now else en_last_emit p),
         en_message = msg\<rparr>)"

definition emission_of :: "string \<Rightarrow> emission_kind \<times> severity \<times> 'm \<Rightarrow> 'm emission" where
  "emission_of k x = \<lparr>em_key = k, em_kind = fst x, em_severity = fst (snd x), em_message = snd (snd x)\<rparr>"

definition emitted :: "string \<Rightarrow> 'm emission list \<Rightarrow> 'm emission list" where
  "emitted k out = filter (\<lambda>e. em_key e = k) out"

definition opt_list :: "'a option \<Rightarrow> 'a list" where
  "opt_list x = (case x of None \<Rightarrow> [] | Some y \<Rightarrow> [y])"

lemma entry_updates [simp]:
  "p\<lparr>en_last_emit := t, en_message := m\<rparr> =
     \<lparr>en_severity = en_severity p, en_last_emit = t, en_message = m\<rparr>"
  "p\<lparr>en_message := m\<rparr> =
     \<lparr>en_severity = en_severity p, en_last_emit = en_last_emit p, en_message = m\<rparr>"
  for p :: "'m entry"
  by (cases p; simp)+

lemma active_step_key:
  "map_of active key = Some sm \<Longrightarrow>
     active_step active now key (book, out) =
       (AList.update key (the (key_entry (Some sm) now (map_of book key))) book,
        out @ map (emission_of key) (opt_list (key_emission (Some sm) now (map_of book key))))"
  by (cases sm; cases "map_of book key")
    (auto simp: active_step_def key_entry_def key_emission_def emission_of_def opt_list_def)

lemma clear_step_key:
  "map_of book key = Some p \<Longrightarrow>
     clear_step key (book, out) = (AList.delete key book,
       out @ map (emission_of key) (opt_list (key_emission None now (Some p))))"
  by (simp add: clear_step_def key_emission_def emission_of_def opt_list_def)

lemma key_entry_Some: "\<exists>e. key_entry (Some sm) now prev = Some e"
  by (cases sm) (simp add: key_entry_def)

lemma fold_active:
  assumes "distinct ks" and "\<And>k. k \<in> set ks \<Longrightarrow> map_of active k \<noteq> None"
  shows "map_of (fst (fold (active_step active now) ks (book, out))) k =
       (if k \<in> set ks then key_entry (map_of active k) now (map_of book k) else map_of book k) \<and>
     emitted k (snd (fold (active_step active now) ks (book, out))) = emitted k out @
       (if k \<in> set ks then map (emission_of k) (opt_list (key_emission (map_of active k) now (map_of book k)))
        else [])"
  using assms
proof (induction ks arbitrary: book out)
  case (Cons x ks)
  obtain sm where sm: "map_of active x = Some sm" using Cons.prems(2) [of x] by auto
  let ?b = "AList.update x (the (key_entry (Some sm) now (map_of book x))) book"
  let ?o = "out @ map (emission_of x) (opt_list (key_emission (Some sm) now (map_of book x)))"
  have step: "active_step active now x (book, out) = (?b, ?o)" using sm by (rule active_step_key)
  have b: "map_of ?b j = (if j = x then key_entry (Some sm) now (map_of book x) else map_of book j)" for j
    using key_entry_Some [of sm now "map_of book x"] by (auto simp: update_conv)
  have emits: "emitted j ?o = emitted j out @ (if j = x then
      map (emission_of x) (opt_list (key_emission (Some sm) now (map_of book x))) else [])" for j
    by (auto simp: emitted_def emission_of_def opt_list_def split: option.split)
  from Cons.IH [of ?b ?o] Cons.prems show ?case by (auto simp: step b emits sm)
qed simp

lemma fold_clear:
  assumes "distinct ks" and "\<And>k. k \<in> set ks \<Longrightarrow> map_of book k \<noteq> None"
  shows "map_of (fst (fold clear_step ks (book, out))) k = (if k \<in> set ks then None else map_of book k) \<and>
    emitted k (snd (fold clear_step ks (book, out))) = emitted k out @
       (if k \<in> set ks then map (emission_of k) (opt_list (key_emission None now (map_of book k))) else [])"
  using assms
proof (induction ks arbitrary: book out)
  case (Cons x ks)
  obtain p where p: "map_of book x = Some p" using Cons.prems(2) [of x] by auto
  let ?o = "out @ map (emission_of x) (opt_list (key_emission None now (Some p)))"
  have step: "clear_step x (book, out) = (AList.delete x book, ?o)" using p by (rule clear_step_key)
  have b: "map_of (AList.delete x book) j = (if j = x then None else map_of book j)" for j
    by (simp add: delete_conv)
  have emits: "emitted j ?o = emitted j out @ (if j = x then
      map (emission_of x) (opt_list (key_emission None now (Some p))) else [])" for j
    by (auto simp: emitted_def emission_of_def opt_list_def split: option.split)
  have rest: "map_of (AList.delete x book) j \<noteq> None" if "j \<in> set ks" for j
    using Cons.prems that by (auto simp: b)
  from Cons.IH [of "AList.delete x book" ?o] rest Cons.prems(1) show ?case
    by (auto simp: step b emits p)
qed simp

text \<open>The two loops, at one key.\<close>

lemma update_key_cases:
  assumes "final = (if c then None else mid)"
    and "lines = lines1 @ (if c then map e (opt_list (key_emission None now mid)) else [])"
    and "mid = (if a then key_entry act now prev else prev)"
    and "lines1 = (if a then map e (opt_list (key_emission act now prev)) else [])"
    and "c \<longleftrightarrow> act = None \<and> mid \<noteq> None"
    and "act = None \<longleftrightarrow> \<not> a"
  shows "final = key_entry act now prev"
    and "lines = map e (opt_list (key_emission act now prev))"
  using assms by (cases act; cases prev; simp add: key_entry_def key_emission_def opt_list_def)+

lemma book_update_key:
  assumes "distinct (map fst active)"
  shows "map_of (fst (book_update active now book)) k = key_entry (map_of active k) now (map_of book k)"
    and "emitted k (snd (book_update active now book)) =
      map (emission_of k) (opt_list (key_emission (map_of active k) now (map_of book k)))"
proof -
  let ?ks = "sort (map fst active)"
  let ?f = "fold (active_step active now) ?ks (book, [])"
  let ?gone = "sorted_set (filter (\<lambda>k. k \<notin> set (map fst active)) (map fst (fst ?f)))"
  have ks: "distinct ?ks" using assms by simp
  have act: "map_of active k \<noteq> None" if "k \<in> set ?ks" for k
    using that by (simp add: map_of_eq_None_iff)
  have eq: "book_update active now book = fold clear_step ?gone (fst ?f, snd ?f)"
    by (simp add: book_update_def Let_def case_prod_beta)
  have f1: "map_of (fst ?f) k = (if k \<in> set ?ks then key_entry (map_of active k) now (map_of book k)
      else map_of book k)" for k
    using fold_active [OF ks act] by blast
  have f2: "emitted k (snd ?f) = (if k \<in> set ?ks then
      map (emission_of k) (opt_list (key_emission (map_of active k) now (map_of book k))) else [])" for k
    using fold_active [OF ks act, where out = "[]" and k = k] by (simp add: emitted_def)
  have key: "k \<in> set ?gone \<longleftrightarrow> map_of active k = None \<and> map_of (fst ?f) k \<noteq> None" for k
    by (simp only: set_sorted_set set_filter mem_Collect_eq map_of_eq_None_iff set_map) blast
  have gone: "map_of (fst ?f) k \<noteq> None" if "k \<in> set ?gone" for k
    using that key by blast
  have outside: "map_of active k = None \<longleftrightarrow> k \<notin> set ?ks" for k
    by (simp add: map_of_eq_None_iff)
  have cleared: "map_of (fst (fold clear_step ?gone (fst ?f, snd ?f))) k =
      (if k \<in> set ?gone then None else map_of (fst ?f) k) \<and>
    emitted k (snd (fold clear_step ?gone (fst ?f, snd ?f))) = emitted k (snd ?f) @
      (if k \<in> set ?gone then map (emission_of k) (opt_list (key_emission None now (map_of (fst ?f) k))) else [])"
    by (rule fold_clear) (use gone in auto)
  note combined = update_key_cases [OF conjunct1 [OF cleared] conjunct2 [OF cleared] f1 [of k] f2 [of k]
    key [of k] outside [of k]]
  show "map_of (fst (book_update active now book)) k = key_entry (map_of active k) now (map_of book k)"
    unfolding eq by (rule combined(1))
  show "emitted k (snd (book_update active now book)) =
      map (emission_of k) (opt_list (key_emission (map_of active k) now (map_of book k)))"
    unfolding eq by (rule combined(2))
qed

section \<open>Properties\<close>

text \<open>C5. One line per episode: after an update with distinct active keys, the journal holds for each
  key exactly one line or none: a raise when the alarm is new or changed its severity, a
  remind when it was last reported at least six hours ago, a clear when it is no longer
  active, and nothing otherwise; the book then holds exactly the active alarms, each with its
  severity and message and the time of its last line.\<close>

theorem book_update_exact:
  assumes "distinct (map fst active)"
  shows "map_of (fst (book_update active now book)) k = key_entry (map_of active k) now (map_of book k) \<and>
    map (\<lambda>e. (em_kind e, em_severity e, em_message e)) (emitted k (snd (book_update active now book))) =
      opt_list (key_emission (map_of active k) now (map_of book k))"
  using book_update_key [OF assms]
  by (cases "key_emission (map_of active k) now (map_of book k)")
    (simp_all add: opt_list_def emission_of_def)

definition example_alarms :: "(string, severity \<times> string) dict" where
  "example_alarms = [(''store:root'', (CRITICAL, ''full'')), (''floors:root'', (ERROR, ''short''))]"

definition example_book :: "string book" where
  "example_book = [(''store:root'', \<lparr>en_severity = CRITICAL, en_last_emit = 0, en_message = ''full''\<rparr>),
     (''client-watch:psk'', \<lparr>en_severity = WARNING, en_last_emit = 0, en_message = ''near''\<rparr>)]"

theorem book_update_exact_witness:
  "map (\<lambda>e. (em_kind e, em_severity e, em_message e))
     (emitted ''store:root'' (snd (book_update example_alarms 21600 example_book))) =
   [(Remind, CRITICAL, ''full'')]"
proof -
  have d: "distinct (map fst example_alarms)" by code_simp
  have e: "opt_list (key_emission (map_of example_alarms ''store:root'') 21600
      (map_of example_book ''store:root'')) = [(Remind, CRITICAL, ''full'')]"
    by code_simp
  show ?thesis by (rule trans [OF conjunct2 [OF book_update_exact [OF d]] e])
qed

text \<open>Passes one after the other, and the reading of a journal: a raise opens an alarm, a clear
  closes it.\<close>

fun book_run ::
  "((string, severity \<times> 'm) dict \<times> rat) list \<Rightarrow> 'm book \<Rightarrow> 'm book \<times> 'm emission list" where
  "book_run [] book = (book, [])"
| "book_run ((active, now) # ps) book =
     (let (book', out) = book_update active now book; (book'', out') = book_run ps book'
      in (book'', out @ out'))"

definition replay1 :: "'m emission \<Rightarrow> (string \<rightharpoonup> severity) \<Rightarrow> (string \<rightharpoonup> severity)" where
  "replay1 e m = (case em_kind e of
     Raise \<Rightarrow> m(em_key e \<mapsto> em_severity e) | Remind \<Rightarrow> m | Clear \<Rightarrow> m(em_key e := None))"

definition replay :: "'m emission list \<Rightarrow> (string \<rightharpoonup> severity) \<Rightarrow> (string \<rightharpoonup> severity)" where
  "replay es m = fold replay1 es m"

definition severities :: "'m book \<Rightarrow> string \<rightharpoonup> severity" where
  "severities book k = map_option en_severity (map_of book k)"

lemma replay_append: "replay (es @ fs) m = replay fs (replay es m)"
  by (simp add: replay_def)

lemma replay_Cons: "replay (e # es) m = replay es (replay1 e m)"
  by (simp add: replay_def)

lemma replay1_cong: "m k = m' k \<Longrightarrow> replay1 e m k = replay1 e m' k"
  by (simp add: replay1_def split: emission_kind.split)

lemma replay_cong: "m k = m' k \<Longrightarrow> replay es m k = replay es m' k"
proof (induction es arbitrary: m m')
  case (Cons e es)
  have "replay1 e m k = replay1 e m' k" using Cons.prems by (rule replay1_cong)
  then show ?case unfolding replay_Cons by (rule Cons.IH)
qed (simp add: replay_def)

lemma replay_key: "replay es m k = replay (emitted k es) m k"
proof (induction es arbitrary: m)
  case (Cons e es)
  show ?case
  proof (cases "em_key e = k")
    case True
    then have "emitted k (e # es) = e # emitted k es" by (simp add: emitted_def)
    then show ?thesis using Cons.IH [of "replay1 e m"] by (simp only: replay_Cons)
  next
    case False
    then have "replay1 e m k = m k" by (simp add: replay1_def split: emission_kind.split)
    then have "replay es (replay1 e m) k = replay es m k" by (rule replay_cong)
    moreover have "emitted k (e # es) = emitted k es" using False by (simp add: emitted_def)
    ultimately show ?thesis using Cons.IH [of m] by (simp only: replay_Cons)
  qed
qed (simp add: emitted_def)

lemma replay_update:
  assumes "distinct (map fst active)"
  shows "replay (snd (book_update active now book)) (severities book) =
      severities (fst (book_update active now book))"
    and "severities (fst (book_update active now book)) = map_option fst \<circ> map_of active"
proof -
  show "severities (fst (book_update active now book)) = map_option fst \<circ> map_of active"
    by (simp add: fun_eq_iff severities_def book_update_key(1) [OF assms] key_entry_def
        split: option.split)
  show "replay (snd (book_update active now book)) (severities book) =
      severities (fst (book_update active now book))"
  proof
    fix k
    show "replay (snd (book_update active now book)) (severities book) k =
        severities (fst (book_update active now book)) k"
      unfolding replay_key [of "snd (book_update active now book)" _ k] book_update_key(2) [OF assms]
        severities_def book_update_key(1) [OF assms]
      by (cases "map_of active k"; cases "map_of book k")
        (auto simp: key_entry_def key_emission_def emission_of_def opt_list_def replay_def
          replay1_def severities_def)
  qed
qed

text \<open>C6. The journal is complete: over any sequence of passes starting from an empty book, reading
  the journal lines in order (a raise opens, a clear closes) yields exactly the alarms active
  at the last pass, with their severities.\<close>

theorem journal_replay:
  assumes "\<forall>p \<in> set passes. distinct (map fst (fst p))" and "passes \<noteq> []"
  shows "replay (snd (book_run passes [])) Map.empty = map_option fst \<circ> map_of (fst (last passes))"
proof -
  have "replay (snd (book_run passes book)) (severities book) = map_option fst \<circ> map_of (fst (last passes))"
    for book
    using assms
  proof (induction passes arbitrary: book)
    case (Cons p ps)
    obtain active now where p: "p = (active, now)" by (cases p)
    have d: "distinct (map fst active)" using Cons.prems p by simp
    show ?case
    proof (cases "ps = []")
      case True
      with replay_update [OF d, of now book] show ?thesis
        by (simp add: p case_prod_beta Let_def)
    next
      case False
      with Cons.IH [of "fst (book_update active now book)"] Cons.prems replay_update(1) [OF d, of now book]
      show ?thesis by (simp add: p case_prod_beta Let_def replay_append)
    qed
  qed simp
  from this [of "[]"] show ?thesis by (simp add: severities_def [abs_def])
qed

theorem journal_replay_witness:
  "replay (snd (book_run [(example_alarms, 0), ([(''store:root'', (ERROR, ''ok''))], 120)] []))
     Map.empty ''store:root'' = Some ERROR"
proof -
  let ?ps = "[(example_alarms, 0 :: rat), ([(''store:root'', (ERROR, ''ok''))], 120)]"
  have "\<forall>p \<in> set ?ps. distinct (map fst (fst p))" by code_simp
  from journal_replay [OF this] show ?thesis by simp
qed

lemma severity_of_val [simp]: "severity_of_int (severity_val s) = Some s"
  by (cases s) (simp_all add: severity_of_int_def)

lemma entry_round_trip [simp]: "entry_of_val repr (entry_to_val e) = Some e"
  by (cases e) (simp add: entry_of_val_def entry_to_val_def)

lemma fold_load_entries:
  "distinct (map fst (acc @ book)) \<Longrightarrow>
     fold (load_entry repr) (map (\<lambda>(k, v). (k, entry_to_val v)) book) acc = acc @ book"
  by (induction book arbitrary: acc) (auto simp: load_entry_def update_new map_of_eq_None_iff)

text \<open>Persistence loses nothing: reading back the book the tick wrote yields the same book,
  entry for entry and in the same order.\<close>

theorem book_round_trip:
  assumes "distinct (map fst book)"
  shows "book_from_dict repr (book_to_dict book) = book"
  using fold_load_entries [of "[]" book repr] assms
  by (simp add: book_from_dict_def book_to_dict_def)

theorem book_round_trip_witness:
  "book_from_dict (\<lambda>v. ''?'') (book_to_dict example_book) = example_book"
  by (rule book_round_trip) code_simp

end
