(* ===== verification/StorageRates.thy ===== *)
theory StorageRates
  imports StorageModel
begin

text \<open>
  \<^verbatim>\<open>lib/sigmond/storage/rates.py\<close> and the byte counting of \<^verbatim>\<open>storage/measure.py\<close>: the rate of
  a client, the walk over its files, the bytes allocated and recently written, and the growth
  of a store by least squares.  A file tree is a snapshot: a node carries its \<open>lstat\<close> result
  (\<open>None\<close> when the call fails, as for a file that vanished), whether a listing shows it as a
  directory (a symbolic link to one is shown so too), and its entries.  The lemmas show that
  every inode is counted once and that the growth is the slope of the best fitting line.
\<close>

section \<open>The rate of a client\<close>

definition DAY_S :: rat where "DAY_S = 86400"
definition MB :: rat where "MB = 10 ^ 6"

definition rate_for :: "int option \<Rightarrow> int option \<Rightarrow> rat option \<Rightarrow> rat \<times> string" where
  "rate_for reported recent declared_mb_per_day =
     (let declared = (case declared_mb_per_day of
            Some m \<Rightarrow> if 0 < m then Some (m * MB) else None | None \<Rightarrow> None);
          measured = (case recent of Some b \<Rightarrow> 0 < b | None \<Rightarrow> False);
          unreported = (if measured then (of_int (the recent), ''measured'')
            else case declared of Some d \<Rightarrow> (d, ''declared'')
              | None \<Rightarrow> if recent \<noteq> None then (0, ''measured'') else (0, ''none''))
      in case reported of Some r \<Rightarrow> if 0 \<le> r then (of_int r, ''reported'') else unreported
           | None \<Rightarrow> unreported)"

section \<open>Walking file trees\<close>

datatype file_kind = Regular | Directory | Symlink | Special

record fstat =
  fs_kind :: file_kind
  fs_dev :: int
  fs_ino :: int
  fs_blocks :: int
  fs_mtime :: rat
  fs_ctime :: rat

datatype fnode = FNode (fn_stat: "fstat option") (fn_isdir: bool) (fn_entries: "fnode list")

definition is_link :: "fnode \<Rightarrow> bool" where
  "is_link n = (case fn_stat n of Some st \<Rightarrow> fs_kind st = Symlink | None \<Rightarrow> False)"

text \<open>\<open>os.walk\<close>, top down, links not followed: of every directory its listed directories and
  its other entries.\<close>

fun walk :: "fnode \<Rightarrow> (fnode list \<times> fnode list) list" where
  "walk (FNode st d entries) =
     (filter fn_isdir entries, filter (\<lambda>n. \<not> fn_isdir n) entries) #
     concat (map (\<lambda>n. if fn_isdir n \<and> \<not> is_link n then walk n else []) entries)"

definition inode :: "fstat \<Rightarrow> int \<times> int" where
  "inode st = (fs_dev st, fs_ino st)"

text \<open>The \<open>count\<close> closures, over the inodes seen and the sums.\<close>

definition count_recent ::
  "rat \<Rightarrow> fstat \<Rightarrow> (int \<times> int) list \<times> int \<times> int \<Rightarrow> (int \<times> int) list \<times> int \<times> int" where
  "count_recent since st = (\<lambda>(seen, by_mtime, by_ctime).
     if fs_kind st \<noteq> Regular \<or> inode st \<in> set seen then (seen, by_mtime, by_ctime)
     else (inode st # seen,
       if fs_mtime st \<ge> since then by_mtime + fs_blocks st * 512 else by_mtime,
       if fs_ctime st \<ge> since then by_ctime + fs_blocks st * 512 else by_ctime))"

definition count_all :: "fstat \<Rightarrow> (int \<times> int) list \<times> int \<Rightarrow> (int \<times> int) list \<times> int" where
  "count_all st = (\<lambda>(seen, total).
     if inode st \<in> set seen then (seen, total)
     else (inode st # seen, total + fs_blocks st * 512))"

text \<open>The stats \<open>recent_sums\<close> and \<open>path_bytes\<close> pass to \<open>count\<close>, in order; a failed \<open>lstat\<close> is
  skipped.  The file system maps a path to its node, \<open>None\<close> where the path does not exist.\<close>

definition stats_of :: "fnode list \<Rightarrow> fstat list" where
  "stats_of ns = List.map_filter fn_stat ns"

definition recent_stats :: "(string \<Rightarrow> fnode option) \<Rightarrow> string list \<Rightarrow> fstat list" where
  "recent_stats fs paths = concat (map (\<lambda>p. case fs p of None \<Rightarrow> []
     | Some n \<Rightarrow> (case fn_stat n of None \<Rightarrow> []
         | Some st \<Rightarrow> if fs_kind st \<noteq> Directory then [st]
             else concat (map (\<lambda>(dirs, files). stats_of files) (walk n)))) paths)"

definition all_stats :: "(string \<Rightarrow> fnode option) \<Rightarrow> string list \<Rightarrow> fstat list" where
  "all_stats fs paths = concat (map (\<lambda>p. case fs p of None \<Rightarrow> []
     | Some n \<Rightarrow> (case fn_stat n of None \<Rightarrow> []
         | Some st \<Rightarrow> st # (if \<not> fn_isdir n \<or> is_link n then []
             else concat (map (\<lambda>(dirs, files). stats_of (dirs @ files)) (walk n))))) paths)"

definition recent_sums :: "(string \<Rightarrow> fnode option) \<Rightarrow> string list \<Rightarrow> rat \<Rightarrow> rat \<Rightarrow> int \<times> int" where
  "recent_sums fs paths now window_s =
     snd (fold (count_recent (now - window_s)) (recent_stats fs paths) ([], 0, 0))"

definition recent_bytes :: "(string \<Rightarrow> fnode option) \<Rightarrow> string list \<Rightarrow> rat \<Rightarrow> rat \<Rightarrow> int" where
  "recent_bytes fs paths now window_s = fst (recent_sums fs paths now window_s)"

definition path_bytes :: "(string \<Rightarrow> fnode option) \<Rightarrow> string list \<Rightarrow> int" where
  "path_bytes fs paths = snd (fold count_all (all_stats fs paths) ([], 0))"

section \<open>Growth\<close>

definition CHURN_WINDOW_S :: rat where "CHURN_WINDOW_S = 6 * 3600"

definition mean :: "rat list \<Rightarrow> rat" where
  "mean xs = sum_list xs / of_nat (length xs)"

definition churn_den :: "(rat \<times> rat) list \<Rightarrow> rat" where
  "churn_den pts = (\<Sum>(t, u)\<leftarrow>pts. (t - mean (map fst pts)) ^ 2)"

definition churn_num :: "(rat \<times> rat) list \<Rightarrow> rat" where
  "churn_num pts = (\<Sum>(t, u)\<leftarrow>pts. (t - mean (map fst pts)) * (u - mean (map snd pts)))"

definition time_span :: "(rat \<times> rat) list \<Rightarrow> rat" where
  "time_span pts = Max (set (map fst pts)) - Min (set (map fst pts))"

definition churn_bytes_per_h :: "(rat \<times> rat) list \<Rightarrow> py_error + rat option" where
  "churn_bytes_per_h pts =
     (if length pts < 2 \<or> time_span pts < 3600 then Inr None
      else ebind (py_div (churn_num pts) (churn_den pts)) (\<lambda>q. Inr (Some (max 0 (q * 3600)))))"

section \<open>Every inode counts once\<close>

text \<open>Stats are consistent when two of one inode agree, as in a snapshot.\<close>

definition consistent_stats :: "fstat list \<Rightarrow> bool" where
  "consistent_stats sts = list_all (\<lambda>a. list_all (\<lambda>b. inode a = inode b \<longrightarrow> a = b) sts) sts"

lemma fold_count_recent:
  assumes "inj_on inode (set (done @ sts))"
  shows "snd (fold (count_recent since) sts
      (map inode (filter (\<lambda>s. fs_kind s = Regular) done), bm, bc)) =
    (bm + (\<Sum>s\<in>{s \<in> set sts - set done. fs_kind s = Regular \<and> since \<le> fs_mtime s}. fs_blocks s * 512),
     bc + (\<Sum>s\<in>{s \<in> set sts - set done. fs_kind s = Regular \<and> since \<le> fs_ctime s}. fs_blocks s * 512))"
  using assms
proof (induction sts arbitrary: "done" bm bc)
  case (Cons a sts)
  let ?seen = "\<lambda>ss. map inode (filter (\<lambda>s. fs_kind s = Regular) ss)"
  have inj: "inj_on inode (set ((a # done) @ sts))"
    using Cons.prems by (simp add: insert_commute)
  have mem: "inode a \<in> set (?seen done) \<longleftrightarrow> a \<in> set done" if "fs_kind a = Regular"
    using Cons.prems that by (auto dest: inj_onD)
  show ?case
  proof (cases "fs_kind a = Regular \<and> a \<notin> set done")
    case False
    then have same: "{s \<in> set (a # sts) - set done. fs_kind s = Regular \<and> P s} =
        {s \<in> set sts - set done. fs_kind s = Regular \<and> P s}" for P by auto
    have "count_recent since a (?seen done, bm, bc) = (?seen done, bm, bc)"
      using False mem by (auto simp: count_recent_def)
    moreover have "inj_on inode (set (done @ sts))" by (rule inj_on_subset [OF Cons.prems]) auto
    ultimately show ?thesis
      using Cons.IH [of "done" bm bc] by (simp only: fold.simps comp_apply same)
  next
    case True
    have split: "{s \<in> set (a # sts) - set done. fs_kind s = Regular \<and> P s} =
        (if P a then insert a else id) {s \<in> set sts - set (a # done). fs_kind s = Regular \<and> P s}" for P
      using True by auto
    have "count_recent since a (?seen done, bm, bc) =
       (?seen (a # done), if fs_mtime a \<ge> since then bm + fs_blocks a * 512 else bm,
        if fs_ctime a \<ge> since then bc + fs_blocks a * 512 else bc)"
      using True mem by (simp add: count_recent_def)
    then show ?thesis
      using Cons.IH [of "a # done" "if fs_mtime a \<ge> since then bm + fs_blocks a * 512 else bm"
        "if fs_ctime a \<ge> since then bc + fs_blocks a * 512 else bc"] inj
      by (simp only: fold.simps comp_apply split) simp
  qed
qed simp

lemma fold_count_all:
  assumes "inj_on inode (set (done @ sts))"
  shows "snd (fold count_all sts (map inode done, n)) =
    n + (\<Sum>s\<in>set sts - set done. fs_blocks s * 512)"
  using assms
proof (induction sts arbitrary: "done" n)
  case (Cons a sts)
  have inj: "inj_on inode (set ((a # done) @ sts))"
    using Cons.prems by (simp add: insert_commute)
  have mem: "inode a \<in> set (map inode done) \<longleftrightarrow> a \<in> set done"
    using Cons.prems by (auto dest: inj_onD)
  show ?case
  proof (cases "a \<in> set done")
    case True
    then have "set (a # sts) - set done = set sts - set done" by auto
    with True mem Cons.IH [of "done" n] Cons.prems show ?thesis by (simp add: count_all_def)
  next
    case False
    then have "set (a # sts) - set done = insert a (set sts - set (a # done))" by auto
    moreover have "count_all a (map inode done, n) = (map inode (a # done), n + fs_blocks a * 512)"
      using False mem by (simp add: count_all_def)
    ultimately show ?thesis
      using Cons.IH [of "a # done" "n + fs_blocks a * 512"] inj by simp
  qed
qed simp

lemma consistent_inj: "consistent_stats sts \<Longrightarrow> inj_on inode (set sts)"
  by (auto simp: consistent_stats_def list_all_iff inj_on_def)

text \<open>The measured write rate counts every inode once: in a consistent snapshot, whatever paths
  overlap or repeat and however many hard links a file has, \<open>recent_sums\<close> is the sum of the
  allocated bytes over the set of regular files modified (and changed) since the window
  began, and \<open>path_bytes\<close> the sum over the set of all inodes under the paths.\<close>

theorem usage_counts_inodes_once:
  assumes "consistent_stats (all_stats fs paths)" and "consistent_stats (recent_stats fs paths)"
  shows "recent_sums fs paths now window_s =
      (\<Sum>s\<in>{s \<in> set (recent_stats fs paths). fs_kind s = Regular \<and> now - window_s \<le> fs_mtime s}. fs_blocks s * 512,
       \<Sum>s\<in>{s \<in> set (recent_stats fs paths). fs_kind s = Regular \<and> now - window_s \<le> fs_ctime s}. fs_blocks s * 512)
    \<and> path_bytes fs paths = (\<Sum>s\<in>set (all_stats fs paths). fs_blocks s * 512)"
  using fold_count_recent [of "[]" "recent_stats fs paths" "now - window_s" 0 0]
    fold_count_all [of "[]" "all_stats fs paths" 0] consistent_inj [OF assms(1)] consistent_inj [OF assms(2)]
  by (simp add: recent_sums_def path_bytes_def)

definition example_file :: "int \<Rightarrow> rat \<Rightarrow> fnode" where
  "example_file ino t = FNode (Some \<lparr>fs_kind = Regular, fs_dev = 1, fs_ino = ino, fs_blocks = 8,
     fs_mtime = t, fs_ctime = t\<rparr>) False []"

definition example_tree :: fnode where
  "example_tree = FNode (Some \<lparr>fs_kind = Directory, fs_dev = 1, fs_ino = 2, fs_blocks = 8,
       fs_mtime = 0, fs_ctime = 0\<rparr>) True
     [example_file 10 50, example_file 11 200, example_file 11 200, FNode None False [],
      FNode (Some \<lparr>fs_kind = Directory, fs_dev = 1, fs_ino = 3, fs_blocks = 8,
         fs_mtime = 0, fs_ctime = 0\<rparr>) True [example_file 12 150]]"

definition example_fs :: "string \<Rightarrow> fnode option" where
  "example_fs p = (if p = ''/var/a'' then Some example_tree else None)"

theorem usage_counts_inodes_once_witness:
  "recent_sums example_fs [''/var/a'', ''/gone'', ''/var/a''] 200 100 = (8192, 8192) \<and>
   path_bytes example_fs [''/var/a'', ''/var/a''] = 20480"
proof -
  let ?p1 = "[''/var/a'', ''/gone'', ''/var/a'']" and ?p2 = "[''/var/a'', ''/var/a'']"
  have c: "consistent_stats (all_stats example_fs ?p1)" "consistent_stats (recent_stats example_fs ?p1)"
      "consistent_stats (all_stats example_fs ?p2)" "consistent_stats (recent_stats example_fs ?p2)"
    by code_simp+
  have s1: "(\<Sum>s\<in>{s \<in> set (recent_stats example_fs ?p1). fs_kind s = Regular \<and> 200 - 100 \<le> fs_mtime s}.
        fs_blocks s * 512) = 8192"
      "(\<Sum>s\<in>{s \<in> set (recent_stats example_fs ?p1). fs_kind s = Regular \<and> 200 - 100 \<le> fs_ctime s}.
        fs_blocks s * 512) = 8192"
    by code_simp+
  have s2: "(\<Sum>s\<in>set (all_stats example_fs ?p2). fs_blocks s * 512) = 20480" by code_simp
  show ?thesis
    using usage_counts_inodes_once [OF c(1,2), of 200 100] usage_counts_inodes_once [OF c(3,4), of 200 100]
      s1 s2 by simp
qed

section \<open>The growth is the slope of the best fitting line\<close>

lemma sum_dev_zero:
  assumes "xs \<noteq> []"
  shows "(\<Sum>x\<leftarrow>xs. x - mean xs) = 0"
proof -
  have "(\<Sum>x\<leftarrow>xs. x - mean xs) = sum_list xs - of_nat (length xs) * mean xs"
    by (simp add: sum_list_subtractf sum_list_triv)
  with assms show ?thesis by (simp add: mean_def)
qed

lemma churn_den_pos:
  assumes "pts \<noteq> []" and "0 < time_span pts"
  shows "0 < churn_den pts"
proof -
  have "\<exists>p \<in> set pts. fst p \<noteq> mean (map fst pts)"
  proof (rule ccontr)
    assume "\<not> ?thesis"
    then have "set (map fst pts) \<subseteq> {mean (map fst pts)}" by auto
    moreover have "set (map fst pts) \<noteq> {}" using assms(1) by simp
    ultimately have "set (map fst pts) = {mean (map fst pts)}" by (metis subset_singletonD)
    then have "time_span pts = 0" by (simp add: time_span_def)
    with assms(2) show False by simp
  qed
  then obtain p where p: "p \<in> set pts" "fst p \<noteq> mean (map fst pts)" by blast
  let ?f = "\<lambda>p. (fst p - mean (map fst pts)) ^ 2"
  have "?f p \<le> sum_list (map ?f pts)" using p(1) by (intro sum_list_member_le) auto
  moreover have "0 < ?f p" using p(2) by simp
  moreover have "churn_den pts = sum_list (map ?f pts)" by (simp add: churn_den_def case_prod_unfold)
  ultimately show ?thesis by linarith
qed

lemma least_squares:
  assumes "pts \<noteq> []" and "churn_den pts \<noteq> 0"
  defines "tm \<equiv> mean (map fst pts)" and "um \<equiv> mean (map snd pts)"
    and "k \<equiv> churn_num pts / churn_den pts"
  shows "(\<Sum>(t, u)\<leftarrow>pts. (u - um - k * (t - tm)) ^ 2) \<le> (\<Sum>(t, u)\<leftarrow>pts. (u - a - b * t) ^ 2)"
proof -
  define r where "r = (\<lambda>p :: rat \<times> rat. snd p - um - k * (fst p - tm))"
  define c where "c = um - a - b * tm"
  define d where "d = k - b"
  have dt: "(\<Sum>p\<leftarrow>pts. fst p - tm) = 0" and du: "(\<Sum>p\<leftarrow>pts. snd p - um) = 0"
    using sum_dev_zero [of "map fst pts"] sum_dev_zero [of "map snd pts"] assms(1)
    by (simp_all add: tm_def um_def comp_def)
  have r0: "(\<Sum>p\<leftarrow>pts. r p) = 0"
    using dt du by (simp add: r_def sum_list_subtractf sum_list_const_mult)
  have "(\<Sum>p\<leftarrow>pts. (fst p - tm) * r p) =
      (\<Sum>p\<leftarrow>pts. (fst p - tm) * (snd p - um)) - k * (\<Sum>p\<leftarrow>pts. (fst p - tm) ^ 2)"
    by (simp add: r_def algebra_simps power2_eq_square
        flip: sum_list_subtractf sum_list_const_mult sum_list_addf)
  also have "\<dots> = churn_num pts - k * churn_den pts"
    by (simp add: churn_num_def churn_den_def tm_def um_def case_prod_unfold)
  also have "\<dots> = 0" using assms(2) by (simp add: k_def)
  finally have r1: "(\<Sum>p\<leftarrow>pts. (fst p - tm) * r p) = 0" .
  have point: "(snd p - a - b * fst p) ^ 2 =
      r p ^ 2 + (2 * c * r p + 2 * d * ((fst p - tm) * r p) + (c + d * (fst p - tm)) ^ 2)" for p
    by (simp add: r_def c_def d_def power2_eq_square algebra_simps)
  have "(\<Sum>p\<leftarrow>pts. (snd p - a - b * fst p) ^ 2) =
      (\<Sum>p\<leftarrow>pts. r p ^ 2) + 2 * c * (\<Sum>p\<leftarrow>pts. r p) + 2 * d * (\<Sum>p\<leftarrow>pts. (fst p - tm) * r p)
      + (\<Sum>p\<leftarrow>pts. (c + d * (fst p - tm)) ^ 2)"
    unfolding point by (simp add: sum_list_addf sum_list_const_mult)
  moreover have "0 \<le> (\<Sum>p\<leftarrow>pts. (c + d * (fst p - tm)) ^ 2)"
    by (rule sum_list_nonneg_map) simp
  ultimately have "(\<Sum>p\<leftarrow>pts. r p ^ 2) \<le> (\<Sum>p\<leftarrow>pts. (snd p - a - b * fst p) ^ 2)"
    unfolding r0 r1 by simp
  then show ?thesis by (simp add: case_prod_unfold r_def)
qed

lemma linear_slope:
  assumes "\<forall>p \<in> set pts. snd p = a + b * fst p" and "pts \<noteq> []"
  shows "churn_num pts = b * churn_den pts"
proof -
  have line: "map snd pts = map (\<lambda>p. a + b * fst p) pts" using assms(1) by simp
  have "sum_list (map snd pts) = of_nat (length pts) * a + b * sum_list (map fst pts)"
    unfolding line by (simp add: sum_list_addf sum_list_const_mult sum_list_triv)
  then have m: "mean (map snd pts) = a + b * mean (map fst pts)"
    using assms(2) by (simp add: mean_def field_simps)
  have "churn_num pts = (\<Sum>p\<leftarrow>pts. b * (fst p - mean (map fst pts)) ^ 2)"
    unfolding churn_num_def m case_prod_unfold
    using assms(1) by (intro arg_cong [of _ _ sum_list] map_cong)
      (auto simp: power2_eq_square algebra_simps)
  then show ?thesis by (simp add: churn_den_def case_prod_unfold sum_list_const_mult)
qed

lemma churn_returns: "\<exists>g. churn_bytes_per_h pts = Inr g"
proof (cases "length pts < 2 \<or> time_span pts < 3600")
  case False
  then have "churn_den pts \<noteq> 0" using churn_den_pos [of pts] by fastforce
  then show ?thesis by (simp add: churn_bytes_per_h_def py_div_def)
qed (simp add: churn_bytes_per_h_def)

text \<open>Growth is least squares and never divides by zero: \<open>churn_bytes_per_h\<close> always returns; it
  returns no number exactly when there are fewer than two samples or they span less than an
  hour; otherwise it is 3600 times the slope of the line with the least squared error over
  all lines, with a shrinking store counted as 0; and on samples lying on a line it is that
  line's slope exactly.\<close>

theorem churn_least_squares:
  "churn_bytes_per_h pts = Inr (if length pts < 2 \<or> time_span pts < 3600 then None
      else Some (max 0 (churn_num pts / churn_den pts * 3600)))
   \<and> (length pts \<ge> 2 \<and> time_span pts \<ge> 3600 \<longrightarrow>
      (\<Sum>(t, u)\<leftarrow>pts. (u - mean (map snd pts) - churn_num pts / churn_den pts * (t - mean (map fst pts))) ^ 2)
        \<le> (\<Sum>(t, u)\<leftarrow>pts. (u - a - b * t) ^ 2)
      \<and> ((\<forall>p \<in> set pts. snd p = a + b * fst p) \<longrightarrow>
          churn_bytes_per_h pts = Inr (Some (max 0 (b * 3600)))))"
proof (cases "length pts < 2 \<or> time_span pts < 3600")
  case True
  then show ?thesis by (auto simp: churn_bytes_per_h_def)
next
  case False
  then have ne: "pts \<noteq> []" and pos: "churn_den pts \<noteq> 0"
    using churn_den_pos [of pts] by fastforce+
  have val: "churn_bytes_per_h pts = Inr (Some (max 0 (churn_num pts / churn_den pts * 3600)))"
    using False pos by (simp add: churn_bytes_per_h_def py_div_def)
  have lin: "churn_num pts / churn_den pts = b" if "\<forall>p \<in> set pts. snd p = a + b * fst p"
    using linear_slope [OF that ne] pos by simp
  show ?thesis using False val lin least_squares [OF ne pos, of a b] by auto
qed

theorem churn_least_squares_witness:
  "churn_bytes_per_h [(0, 100), (3600, 7300), (7200, 14500)] = Inr (Some (2 * 3600))"
proof -
  let ?pts = "[(0, 100), (3600, 7300), (7200, 14500)] :: (rat \<times> rat) list"
  have "length ?pts \<ge> 2 \<and> time_span ?pts \<ge> 3600" by (simp add: time_span_def)
  moreover have "\<forall>p \<in> set ?pts. snd p = 100 + 2 * fst p" by simp
  ultimately have "churn_bytes_per_h ?pts = Inr (Some (max 0 (2 * 3600)))"
    using churn_least_squares [of ?pts 100 2] by blast
  then show ?thesis by simp
qed

end
