(* ===== verification/StorageConfig.thy ===== *)
theory StorageConfig
  imports StorageModel PyData
begin

text \<open>
  \<^verbatim>\<open>lib/sigmond/storage/config.py\<close>: reading \<^verbatim>\<open>storage.toml\<close>, the hands-off mark, the edits of
  the command line and the quoting of the writer.  What \<open>tomllib\<close> makes of the file is a value of
  \<open>config_file\<close>; a time is its epoch second, and \<open>isotime\<close> reads an ISO-8601 string to a time and
  whether it carries an offset.  Problem lines are values holding what the f-strings interpolate.
\<close>

section \<open>Data\<close>

datatype tval =
    TBool bool
  | TInt int
  | TFloat pyfloat
  | TStr string
  | TTime rat bool
  | TOther \<comment> \<open>a local date or time\<close>
  | TArr "tval list"
  | TTable "(string \<times> tval) list"

datatype config_file =
    FileAbsent
  | FileUnreadable string
  | FileUnparsable string
  | FileData "(string \<times> tval) list"

datatype mark_fault = MarkFile string | MarkNotTable | MarkNoUntil | MarkBadUntil tval

datatype problem =
    FileProblem string
  | NotATable string
  | HorizonBad
  | LevelUnknown string
  | LevelNotNumber string
  | LevelsUnordered
  | ShareBad string tval
  | DirectiveBad string tval
  | MarkClamped rat
  | MarkUnknown mark_fault
  | PoolShareBad tval
  | ExpectBad
  | StopBad

record config =
  cf_levels :: levels
  cf_shares :: "(string, rat) dict"
  cf_directives :: "(string, string) dict"
  cf_hands_off_until :: "rat option"
  cf_hands_off_reason :: string
  cf_pool_share :: "rat option"
  cf_expect :: "bool option"
  cf_problems :: "problem list"
  cf_horizon_h :: rat
  cf_stop_enabled :: bool
  cf_unknown :: "mark_fault option"

definition MAX_HANDS_OFF :: rat where "MAX_HANDS_OFF = 14 * 86400"
definition DEFAULT_HORIZON_H :: rat where "DEFAULT_HORIZON_H = 24"
definition MAX_HORIZON_H :: rat where "MAX_HORIZON_H = 24 * 365"

definition LEVEL_KEYS :: "string list" where
  "LEVEL_KEYS = [''watch'', ''tighten'', ''demand'', ''final'', ''client_watch'']"

definition default_config :: config where
  "default_config = \<lparr>cf_levels = default_levels, cf_shares = [], cf_directives = [],
     cf_hands_off_until = None, cf_hands_off_reason = '''', cf_pool_share = None,
     cf_expect = None, cf_problems = [], cf_horizon_h = DEFAULT_HORIZON_H,
     cf_stop_enabled = False, cf_unknown = None\<rparr>"

text \<open>\<open>re.match(POLICY_RE, v)\<close>: the pattern ends in \<open>$\<close>, which also matches before a final line
  feed.\<close>

definition custom_char :: "char \<Rightarrow> bool" where
  "custom_char c \<longleftrightarrow> is_lower c \<or> is_digit c \<or> c = CHR ''-''"

definition policy_body :: "string \<Rightarrow> bool" where
  "policy_body s \<longleftrightarrow>
     s \<in> set (map (\<lambda>c. ''give-up-oldest:'' @ c) [''pinned'', ''raw'', ''derived'', ''sent'']) \<or>
     s = ''stop-writing'' \<or> s = ''refuse-new-rows'' \<or>
     (take 7 s = ''custom:'' \<and> drop 7 s \<noteq> [] \<and> list_all custom_char (drop 7 s))"

definition policy_ok :: "string \<Rightarrow> bool" where
  "policy_ok s \<longleftrightarrow> policy_body s \<or> (s \<noteq> [] \<and> last s = CHR 0x0A \<and> policy_body (butlast s))"

section \<open>Loading\<close>

fun num_of :: "tval \<Rightarrow> rat option" where
  "num_of (TInt n) = Some (of_int n)"
| "num_of (TFloat (Fin x)) = Some x"
| "num_of _ = None"

text \<open>The loop of \<open>_parse_levels\<close>: the values, or the problem that ends it.\<close>

fun level_vals :: "(string \<times> tval) list \<Rightarrow> (string, rat) dict \<Rightarrow> problem + (string, rat) dict" where
  "level_vals [] vals = Inr vals"
| "level_vals ((k, v) # tbl) vals =
     (if k \<notin> set LEVEL_KEYS then Inl (LevelUnknown k)
      else case num_of v of None \<Rightarrow> Inl (LevelNotNumber k)
        | Some n \<Rightarrow> level_vals tbl (AList.update k n vals))"

definition levels_from :: "(string, rat) dict \<Rightarrow> levels" where
  "levels_from vals = \<lparr>lv_watch = dget vals ''watch'' 80, lv_tighten = dget vals ''tighten'' 85,
     lv_demand = dget vals ''demand'' 90, lv_final = dget vals ''final'' 95,
     lv_client_watch = dget vals ''client_watch'' 90\<rparr>"

definition levels_ok :: "levels \<Rightarrow> bool" where
  "levels_ok lv \<longleftrightarrow> lv_watch lv < lv_tighten lv \<and> lv_tighten lv < lv_demand lv \<and>
     lv_demand lv < lv_final lv \<and> lv_final lv < 100 \<and>
     0 < lv_client_watch lv \<and> lv_client_watch lv \<le> 100"

definition parse_levels :: "(string \<times> tval) list \<Rightarrow> levels \<times> problem list" where
  "parse_levels tbl = (case level_vals tbl [] of
       Inl p \<Rightarrow> (default_levels, [p])
     | Inr vals \<Rightarrow>
         let lv = levels_from vals
         in if levels_ok lv then (lv, []) else (default_levels, [LevelsUnordered]))"

definition zulu :: "string \<Rightarrow> string" where
  "zulu s = concat (map (\<lambda>c. if c = CHR ''Z'' then ''+00:00'' else [c]) s)"

definition aware_time :: "rat \<times> bool \<Rightarrow> rat option" where
  "aware_time ta = (if snd ta then Some (fst ta) else None)"

fun parse_when :: "(string \<Rightarrow> (rat \<times> bool) option) \<Rightarrow> tval \<Rightarrow> rat option" where
  "parse_when isotime (TTime t aware) = aware_time (t, aware)"
| "parse_when isotime (TStr s) = Option.bind (isotime (zulu (strip s))) aware_time"
| "parse_when isotime _ = None"

definition toml_table :: "(string \<times> tval) list \<Rightarrow> string \<Rightarrow> (string \<times> tval) list \<times> problem list" where
  "toml_table data name = (case dget data name (TTable []) of
     TTable t \<Rightarrow> (t, []) | _ \<Rightarrow> ([], [NotATable name]))"

definition parse_horizon :: "(string \<times> tval) list \<Rightarrow> rat \<times> problem list" where
  "parse_horizon tbl = (case map_of tbl ''horizon_h'' of
       None \<Rightarrow> (DEFAULT_HORIZON_H, [])
     | Some v \<Rightarrow> (case num_of v of
           Some n \<Rightarrow> if 0 < n \<and> n \<le> MAX_HORIZON_H then (n, []) else (DEFAULT_HORIZON_H, [HorizonBad])
         | None \<Rightarrow> (DEFAULT_HORIZON_H, [HorizonBad])))"

definition share_step ::
  "string \<times> tval \<Rightarrow> (string, rat) dict \<times> problem list \<Rightarrow> (string, rat) dict \<times> problem list" where
  "share_step kv = (\<lambda>(shares, ps). case num_of (snd kv) of
       Some n \<Rightarrow> if n \<le> 0 then (shares, ps @ [ShareBad (fst kv) (snd kv)])
         else (AList.update (fst kv) n shares, ps)
     | None \<Rightarrow> (shares, ps @ [ShareBad (fst kv) (snd kv)]))"

definition directive_step ::
  "string \<times> tval \<Rightarrow> (string, string) dict \<times> problem list \<Rightarrow> (string, string) dict \<times> problem list" where
  "directive_step kv = (\<lambda>(ds, ps). case snd kv of
       TStr s \<Rightarrow> if policy_ok s then (AList.update (fst kv) s ds, ps)
         else (ds, ps @ [DirectiveBad (fst kv) (snd kv)])
     | _ \<Rightarrow> (ds, ps @ [DirectiveBad (fst kv) (snd kv)]))"

text \<open>The hands-off mark: the time, or the fault; then the clamp at 14 days.\<close>

definition mark_of :: "(string \<Rightarrow> (rat \<times> bool) option) \<Rightarrow> tval \<Rightarrow> mark_fault + rat \<times> string" where
  "mark_of isotime ho = (case ho of
       TTable t \<Rightarrow> (case map_of t ''until'' of
           None \<Rightarrow> Inl MarkNoUntil
         | Some u \<Rightarrow> (case parse_when isotime u of
             None \<Rightarrow> Inl (MarkBadUntil u)
           | Some at_time \<Rightarrow> Inr (at_time,
               case dget t ''reason'' (TStr '''') of TStr r \<Rightarrow> r | _ \<Rightarrow> '''')))
     | _ \<Rightarrow> Inl MarkNotTable)"

definition parse_mark ::
  "(string \<Rightarrow> (rat \<times> bool) option) \<Rightarrow> rat \<Rightarrow> (string \<times> tval) list \<Rightarrow>
   rat option \<times> string \<times> mark_fault option \<times> problem list" where
  "parse_mark isotime now data = (case map_of data ''hands_off'' of
       None \<Rightarrow> (None, '''', None, [])
     | Some ho \<Rightarrow> (case mark_of isotime ho of
           Inl f \<Rightarrow> (None, '''', Some f, [MarkUnknown f])
         | Inr (until, reason) \<Rightarrow>
             if until - now > MAX_HANDS_OFF
             then (Some (now + MAX_HANDS_OFF), reason, None, [MarkClamped (now + MAX_HANDS_OFF)])
             else (Some until, reason, None, [])))"

definition parse_pool_share :: "(string \<times> tval) list \<Rightarrow> rat option \<times> problem list" where
  "parse_pool_share pool = (case map_of pool ''share'' of
       None \<Rightarrow> (None, [])
     | Some v \<Rightarrow> (case num_of v of
           Some n \<Rightarrow> if 0 \<le> n \<and> n \<le> 1 then (Some n, []) else (None, [PoolShareBad v])
         | None \<Rightarrow> (None, [PoolShareBad v])))"

definition parse_flag :: "(string \<times> tval) list \<Rightarrow> string \<Rightarrow> problem \<Rightarrow> bool option \<times> problem list" where
  "parse_flag tbl key bad = (case map_of tbl key of
     None \<Rightarrow> (None, []) | Some (TBool b) \<Rightarrow> (Some b, []) | Some _ \<Rightarrow> (None, [bad]))"

definition load_data :: "(string \<Rightarrow> (rat \<times> bool) option) \<Rightarrow> rat \<Rightarrow> (string \<times> tval) list \<Rightarrow> config" where
  "load_data isotime now data =
     (let (lv_tbl, p1) = toml_table data ''levels'';
          (horizon, p2) = parse_horizon lv_tbl;
          lv_rest = AList.delete ''horizon_h'' lv_tbl;
          (levels, p3) = (if lv_rest = [] then (default_levels, []) else parse_levels lv_rest);
          (sh_tbl, p4) = toml_table data ''shares'';
          (shares, p5) = fold share_step sh_tbl ([], []);
          (d_tbl, p6) = toml_table data ''directives'';
          (directives, p7) = fold directive_step d_tbl ([], []);
          (until, reason, unknown, p8) = parse_mark isotime now data;
          (pool, p9) = toml_table data ''pool'';
          (pool_share, p10) = parse_pool_share pool;
          (expect, p11) = parse_flag pool ''expect_report'' ExpectBad;
          (stop, p12) = toml_table data ''stop'';
          (enabled, p13) = parse_flag stop ''enabled'' StopBad
      in \<lparr>cf_levels = levels, cf_shares = shares, cf_directives = directives,
          cf_hands_off_until = until, cf_hands_off_reason = reason, cf_pool_share = pool_share,
          cf_expect = expect,
          cf_problems = p1 @ p2 @ p3 @ p4 @ p5 @ p6 @ p7 @ p8 @ p9 @ p10 @ p11 @ p12 @ p13,
          cf_horizon_h = horizon, cf_stop_enabled = (enabled = Some True), cf_unknown = unknown\<rparr>)"

definition load_storage_config ::
  "(string \<Rightarrow> (rat \<times> bool) option) \<Rightarrow> rat \<Rightarrow> config_file \<Rightarrow> config" where
  "load_storage_config isotime now f = (case f of
       FileAbsent \<Rightarrow> default_config
     | FileUnreadable m \<Rightarrow>
         default_config\<lparr>cf_problems := [FileProblem m], cf_unknown := Some (MarkFile m)\<rparr>
     | FileUnparsable m \<Rightarrow>
         default_config\<lparr>cf_problems := [FileProblem m], cf_unknown := Some (MarkFile m)\<rparr>
     | FileData data \<Rightarrow> load_data isotime now data)"

definition hands_off_active :: "config \<Rightarrow> rat \<Rightarrow> bool" where
  "hands_off_active cfg now = (case cf_hands_off_until cfg of None \<Rightarrow> False | Some u \<Rightarrow> now < u)"

definition hands_off_held :: "config \<Rightarrow> rat \<Rightarrow> bool" where
  "hands_off_held cfg now \<longleftrightarrow> cf_unknown cfg \<noteq> None \<or> hands_off_active cfg now"

section \<open>Edits\<close>

definition with_share :: "config \<Rightarrow> string \<Rightarrow> rat option \<Rightarrow> config" where
  "with_share cfg client weight = cfg\<lparr>cf_shares := (case weight of
     None \<Rightarrow> AList.delete client (cf_shares cfg)
   | Some w \<Rightarrow> AList.update client w (cf_shares cfg))\<rparr>"

definition with_directive :: "config \<Rightarrow> string \<Rightarrow> string option \<Rightarrow> py_error + config" where
  "with_directive cfg client policy = (case policy of
     None \<Rightarrow> Inr (cfg\<lparr>cf_directives := AList.delete client (cf_directives cfg)\<rparr>)
   | Some p \<Rightarrow> if \<not> policy_ok p then Inl (ValueError (''unknown policy '' @ p))
       else Inr (cfg\<lparr>cf_directives := AList.update client p (cf_directives cfg)\<rparr>))"

definition with_stop_lever :: "config \<Rightarrow> bool \<Rightarrow> config" where
  "with_stop_lever cfg enabled = cfg\<lparr>cf_stop_enabled := enabled\<rparr>"

text \<open>The time is a pair of its epoch second and whether it carries an offset;
  \<open>replace(microsecond=0)\<close> drops the fraction.\<close>

definition with_hands_off :: "config \<Rightarrow> (rat \<times> bool) option \<Rightarrow> string \<Rightarrow> rat \<Rightarrow> py_error + config" where
  "with_hands_off cfg until reason now = (case until of
     None \<Rightarrow> Inr (cfg\<lparr>cf_hands_off_until := None, cf_hands_off_reason := ''''\<rparr>)
   | Some (u, aware) \<Rightarrow>
       if \<not> aware then Inl (ValueError ''hands-off time needs a timezone'')
       else if u - now > MAX_HANDS_OFF then Inl (ValueError ''hands-off may not run past 14 days'')
       else Inr (cfg\<lparr>cf_hands_off_until := Some (of_int \<lfloor>u\<rfloor>), cf_hands_off_reason := reason\<rparr>))"

section \<open>Writing\<close>

text \<open>The quoting of keys and strings; \<open>_BARE\<close> ends in \<open>$\<close> too.  \<open>hex4\<close> is the \<open>%04x\<close> of a
  code point below 256.\<close>

definition bare_char :: "char \<Rightarrow> bool" where
  "bare_char c \<longleftrightarrow> is_lower c \<or> is_upper c \<or> is_digit c \<or> c = CHR ''_'' \<or> c = CHR ''-''"

definition bare_key :: "string \<Rightarrow> bool" where
  "bare_key k \<longleftrightarrow> (k \<noteq> [] \<and> list_all bare_char k) \<or>
     (k \<noteq> [] \<and> last k = CHR 0x0A \<and> butlast k \<noteq> [] \<and> list_all bare_char (butlast k))"

definition esc_key_char :: "char \<Rightarrow> string" where
  "esc_key_char c = (if c = CHR 0x5C then [CHR 0x5C, CHR 0x5C]
     else if c = CHR 0x22 then [CHR 0x5C, CHR 0x22] else [c])"

definition toml_key :: "string \<Rightarrow> string" where
  "toml_key k = (if bare_key k then k
     else [CHR 0x22] @ concat (map esc_key_char k) @ [CHR 0x22])"

definition hex_digit :: "nat \<Rightarrow> char" where
  "hex_digit n = (if n < 10 then char_of (48 + n) else char_of (87 + n))"

definition hex4 :: "char \<Rightarrow> string" where
  "hex4 c = (let n = of_char c :: nat in [CHR ''0'', CHR ''0'', hex_digit (n div 16), hex_digit (n mod 16)])"

definition control_char :: "char \<Rightarrow> bool" where
  "control_char c = (let n = of_char c :: nat in n < 32 \<or> n = 127)"

definition esc_char :: "char \<Rightarrow> string" where
  "esc_char c = (if c = CHR 0x5C then [CHR 0x5C, CHR 0x5C]
     else if c = CHR 0x22 then [CHR 0x5C, CHR 0x22]
     else if c = CHR 0x0A then [CHR 0x5C, CHR ''n'']
     else if c = CHR 0x0D then [CHR 0x5C, CHR ''r'']
     else if c = CHR 0x09 then [CHR 0x5C, CHR ''t'']
     else if control_char c then [CHR 0x5C, CHR ''u''] @ hex4 c
     else [c])"

definition toml_str :: "string \<Rightarrow> string" where
  "toml_str s = [CHR 0x22] @ concat (map esc_char s) @ [CHR 0x22]"

text \<open>The lines of the file; \<open>flt\<close> is \<open>repr(float(v))\<close> and \<open>stamp\<close> the UTC time with \<open>Z\<close>.\<close>

definition level_fields :: "levels \<Rightarrow> (string, rat) dict" where
  "level_fields lv = [(''watch'', lv_watch lv), (''tighten'', lv_tighten lv),
     (''demand'', lv_demand lv), (''final'', lv_final lv), (''client_watch'', lv_client_watch lv)]"

definition render_storage_toml ::
  "(rat \<Rightarrow> string) \<Rightarrow> (rat \<Rightarrow> string) \<Rightarrow> config \<Rightarrow> string list" where
  "render_storage_toml flt stamp cfg =
     (let lv = map (\<lambda>(k, v). k @ '' = '' @ flt v)
            (filter (\<lambda>(k, v). v \<noteq> dget (level_fields default_levels) k 0) (level_fields (cf_levels cfg)));
          hz = (if cf_horizon_h cfg \<noteq> DEFAULT_HORIZON_H then [''horizon_h = '' @ flt (cf_horizon_h cfg)] else []);
          lines = lv @ hz;
          head = (if lines = [] then [] else ''[levels]'' # lines);
          sh = (if cf_shares cfg = [] then [] else [[], ''[shares]''] @
            map (\<lambda>(k, v). toml_key k @ '' = '' @ flt v) (sort_key fst (cf_shares cfg)));
          ds = (if cf_directives cfg = [] then [] else [[], ''[directives]''] @
            map (\<lambda>(k, v). toml_key k @ '' = '' @ toml_str v) (sort_key fst (cf_directives cfg)));
          ho = (case cf_hands_off_until cfg of None \<Rightarrow> []
            | Some u \<Rightarrow> [[], ''[hands_off]'', ''until = '' @ [CHR 0x22] @ stamp u @ [CHR 0x22],
                ''reason = '' @ toml_str (cf_hands_off_reason cfg)]);
          po = (if cf_pool_share cfg = None \<and> cf_expect cfg = None then [] else
            [[], ''[pool]''] @
            (case cf_pool_share cfg of None \<Rightarrow> [] | Some x \<Rightarrow> [''share = '' @ flt x]) @
            (case cf_expect cfg of None \<Rightarrow> []
             | Some b \<Rightarrow> [''expect_report = '' @ (if b then ''true'' else ''false'')]));
          st = (if cf_stop_enabled cfg then [[], ''[stop]'', ''enabled = true''] else [])
      in dropWhile (\<lambda>l. l = []) (head @ sh @ ds @ ho @ po @ st))"

section \<open>What loading guarantees\<close>

definition config_ok :: "config \<Rightarrow> bool" where
  "config_ok cfg \<longleftrightarrow> levels_ok (cf_levels cfg) \<and>
     0 < cf_horizon_h cfg \<and> cf_horizon_h cfg \<le> MAX_HORIZON_H \<and>
     list_all (\<lambda>(k, w). 0 < w) (cf_shares cfg) \<and>
     list_all (\<lambda>(k, p). policy_ok p) (cf_directives cfg) \<and>
     (case cf_pool_share cfg of None \<Rightarrow> True | Some x \<Rightarrow> 0 \<le> x \<and> x \<le> 1)"

lemma default_levels_ok [simp]: "levels_ok default_levels"
  by (simp add: levels_ok_def default_levels_def)

lemma parse_levels_ok: "levels_ok (fst (parse_levels tbl))"
  by (simp add: parse_levels_def Let_def split: sum.split)

lemma parse_horizon_range: "0 < fst (parse_horizon tbl) \<and> fst (parse_horizon tbl) \<le> MAX_HORIZON_H"
  by (auto simp: parse_horizon_def DEFAULT_HORIZON_H_def MAX_HORIZON_H_def split: option.split)

lemma list_all_update:
  "list_all P d \<Longrightarrow> P (k, v) \<Longrightarrow> list_all P (AList.update k v d)"
  by (induction d) auto

lemma list_all_delete: "list_all P d \<Longrightarrow> list_all P (AList.delete k d)"
  by (induction d) auto

lemma shares_positive:
  "list_all (\<lambda>(k, w). 0 < w) acc \<Longrightarrow> list_all (\<lambda>(k, w). 0 < w) (fst (fold share_step tbl (acc, ps)))"
proof (induction tbl arbitrary: acc ps)
  case (Cons kv tbl)
  obtain acc' ps' where s: "share_step kv (acc, ps) = (acc', ps')" by fastforce
  have "list_all (\<lambda>(k, w). 0 < w) acc'"
    using s Cons.prems by (auto simp: share_step_def split: option.splits if_splits intro!: list_all_update)
  then show ?case using Cons.IH by (simp add: s)
qed simp

lemma directives_ok:
  "list_all (\<lambda>(k, p). policy_ok p) acc \<Longrightarrow>
     list_all (\<lambda>(k, p). policy_ok p) (fst (fold directive_step tbl (acc, ps)))"
proof (induction tbl arbitrary: acc ps)
  case (Cons kv tbl)
  obtain acc' ps' where s: "directive_step kv (acc, ps) = (acc', ps')" by fastforce
  have "list_all (\<lambda>(k, p). policy_ok p) acc'"
    using s Cons.prems by (auto simp: directive_step_def split: tval.splits if_splits intro!: list_all_update)
  then show ?case using Cons.IH by (simp add: s)
qed simp

lemma pool_share_range:
  "case fst (parse_pool_share tbl) of None \<Rightarrow> True | Some x \<Rightarrow> 0 \<le> x \<and> x \<le> 1"
  by (auto simp: parse_pool_share_def split: option.split)

lemma load_data_fields:
  "cf_levels (load_data isotime now data) =
     (let t = AList.delete ''horizon_h'' (fst (toml_table data ''levels''))
      in if t = [] then default_levels else fst (parse_levels t))"
  "cf_horizon_h (load_data isotime now data) = fst (parse_horizon (fst (toml_table data ''levels'')))"
  "cf_shares (load_data isotime now data) = fst (fold share_step (fst (toml_table data ''shares'')) ([], []))"
  "cf_directives (load_data isotime now data) =
     fst (fold directive_step (fst (toml_table data ''directives'')) ([], []))"
  "cf_pool_share (load_data isotime now data) = fst (parse_pool_share (fst (toml_table data ''pool'')))"
  "cf_hands_off_until (load_data isotime now data) = fst (parse_mark isotime now data)"
  "cf_unknown (load_data isotime now data) = fst (snd (snd (parse_mark isotime now data)))"
  "cf_stop_enabled (load_data isotime now data) \<longleftrightarrow>
     fst (parse_flag (fst (toml_table data ''stop'')) ''enabled'' StopBad) = Some True"
  by (simp_all add: load_data_def Let_def case_prod_unfold)

text \<open>Whatever the file holds, the loaded configuration is usable: its levels are strictly ordered
  below 100, the horizon lies within (0, one year], every share is positive, every directive
  a known policy, the pool share within [0, 1], a hands-off runs at most 14 days from now,
  and the stop lever is on only where the file says \<open>stop.enabled = true\<close>.\<close>

theorem load_storage_config_sound:
  "config_ok (load_storage_config isotime now f) \<and>
   (case cf_hands_off_until (load_storage_config isotime now f) of
      None \<Rightarrow> True | Some u \<Rightarrow> u \<le> now + MAX_HANDS_OFF) \<and>
   (cf_stop_enabled (load_storage_config isotime now f) \<longleftrightarrow>
      (case f of FileData data \<Rightarrow> (case map_of data ''stop'' of
          Some (TTable t) \<Rightarrow> map_of t ''enabled'' = Some (TBool True) | _ \<Rightarrow> False)
       | _ \<Rightarrow> False))"
proof (cases f)
  case (FileData data)
  let ?cfg = "load_data isotime now data"
  have "config_ok ?cfg"
    unfolding config_ok_def load_data_fields
    using parse_horizon_range [of "fst (toml_table data ''levels'')"] shares_positive [of "[]"]
      directives_ok [of "[]"] pool_share_range
    by (simp add: Let_def parse_levels_ok)
  moreover have "case cf_hands_off_until ?cfg of None \<Rightarrow> True | Some u \<Rightarrow> u \<le> now + MAX_HANDS_OFF"
    by (auto simp: load_data_fields parse_mark_def split: option.split sum.split)
  moreover have "cf_stop_enabled ?cfg \<longleftrightarrow> (case map_of data ''stop'' of
          Some (TTable t) \<Rightarrow> map_of t ''enabled'' = Some (TBool True) | _ \<Rightarrow> False)"
    by (auto simp: load_data_fields parse_flag_def toml_table_def dget_def
        split: option.splits tval.splits)
  ultimately show ?thesis by (simp add: FileData load_storage_config_def)
qed (simp_all add: load_storage_config_def default_config_def config_ok_def DEFAULT_HORIZON_H_def
    MAX_HORIZON_H_def)


text \<open>The edits of the command line keep what loading guarantees: a directive is accepted exactly
  when it is a known policy, a hands-off exactly when its time is aware and at most 14 days
  ahead, and every accepted edit (a share of positive weight) leaves a configuration that is
  still sound and, for a hands-off, holds the lever at every whole second before its time.\<close>

theorem config_edits_sound:
  assumes "config_ok cfg"
  shows "config_ok (with_stop_lever cfg b)
    \<and> config_ok (with_share cfg c None)
    \<and> (0 < w \<longrightarrow> config_ok (with_share cfg c (Some w)))
    \<and> ((\<exists>cfg'. with_directive cfg c (Some p) = Inr cfg') \<longleftrightarrow> policy_ok p)
    \<and> (\<forall>cfg'. with_directive cfg c pol = Inr cfg' \<longrightarrow> config_ok cfg')
    \<and> ((\<exists>cfg'. with_hands_off cfg (Some (u, aware)) r now = Inr cfg') \<longleftrightarrow>
        aware \<and> u \<le> now + MAX_HANDS_OFF)
    \<and> (\<forall>cfg'. with_hands_off cfg (Some (u, aware)) r now = Inr cfg' \<longrightarrow>
        config_ok cfg' \<and> (\<forall>n :: int. of_int n + 1 \<le> u \<longrightarrow> hands_off_held cfg' (of_int n)))"
proof -
  have held: "of_int n < (of_int \<lfloor>u\<rfloor> :: rat)" if "of_int n + 1 \<le> u" for n :: int
    using that by linarith
  show ?thesis
    using assms held
    by (auto simp: config_ok_def with_stop_lever_def with_share_def with_directive_def with_hands_off_def
        hands_off_held_def hands_off_active_def list_all_update list_all_delete
        split: option.splits if_splits)
qed

theorem config_edits_sound_witness:
  "config_ok (with_share default_config ''psk'' (Some 2)) \<and>
   (\<exists>cfg'. with_hands_off default_config (Some (100, True)) ''test'' 50 = Inr cfg' \<and>
      hands_off_held cfg' 90)"
proof -
  have d: "config_ok default_config" by code_simp
  have e: "with_hands_off default_config (Some (100, True)) ''test'' 50 =
      Inr (default_config\<lparr>cf_hands_off_until := Some 100, cf_hands_off_reason := ''test''\<rparr>)" by code_simp
  have "\<forall>cfg'. with_hands_off default_config (Some (100, True)) ''test'' 50 = Inr cfg' \<longrightarrow>
      config_ok cfg' \<and> (\<forall>n :: int. of_int n + 1 \<le> (100 :: rat) \<longrightarrow> hands_off_held cfg' (of_int n))"
    using config_edits_sound [OF d] by blast
  then have all: "\<forall>n :: int. of_int n + 1 \<le> (100 :: rat) \<longrightarrow>
      hands_off_held (default_config\<lparr>cf_hands_off_until := Some 100, cf_hands_off_reason := ''test''\<rparr>) (of_int n)"
    using e by blast
  have "hands_off_held (default_config\<lparr>cf_hands_off_until := Some 100, cf_hands_off_reason := ''test''\<rparr>) 90"
    using all [rule_format, of 90] by simp
  moreover have "config_ok (with_share default_config ''psk'' (Some 2))"
    using config_edits_sound [OF d, of False "''psk''" 2] by simp
  ultimately show ?thesis using e by simp
qed

section \<open>Quoted strings read back\<close>

text \<open>How TOML reads the body of a basic string: an escape stands for its character, a raw quote,
  a line feed or another control character is an error.\<close>

definition hex_val :: "char \<Rightarrow> nat option" where
  "hex_val c = (let n = of_char c :: nat in
     if 48 \<le> n \<and> n \<le> 57 then Some (n - 48)
     else if 97 \<le> n \<and> n \<le> 102 then Some (n - 87) else None)"

fun toml_body :: "string \<Rightarrow> string option" where
  "toml_body [] = Some []"
| "toml_body (c # cs) =
     (if c = CHR 0x5C then
        (case cs of
           [] \<Rightarrow> None
         | d # ds \<Rightarrow>
             if d = CHR 0x5C \<or> d = CHR 0x22 then map_option (Cons d) (toml_body ds)
             else if d = CHR ''n'' then map_option (Cons (CHR 0x0A)) (toml_body ds)
             else if d = CHR ''r'' then map_option (Cons (CHR 0x0D)) (toml_body ds)
             else if d = CHR ''t'' then map_option (Cons (CHR 0x09)) (toml_body ds)
             else if d = CHR ''u'' then
               (case ds of z1 # z2 # h # l # rest \<Rightarrow>
                  (case (hex_val h, hex_val l) of
                     (Some x, Some y) \<Rightarrow> if z1 = CHR ''0'' \<and> z2 = CHR ''0''
                       then map_option (Cons (char_of (16 * x + y))) (toml_body rest) else None
                   | _ \<Rightarrow> None)
                | _ \<Rightarrow> None)
             else None)
      else if c = CHR 0x22 \<or> control_char c then None
      else map_option (Cons c) (toml_body cs))"

definition toml_string :: "string \<Rightarrow> string option" where
  "toml_string s = (case s of [] \<Rightarrow> None
     | q # t \<Rightarrow> if q = CHR 0x22 \<and> t \<noteq> [] \<and> last t = CHR 0x22 then toml_body (butlast t) else None)"

lemma hex_digit_val [simp]: "n < 16 \<Longrightarrow> hex_val (hex_digit n) = Some n"
  by (simp add: hex_val_def hex_digit_def Let_def)

lemma hex4_val:
  "hex4 c = [CHR ''0'', CHR ''0'', h, l] \<Longrightarrow>
     \<exists>x y. hex_val h = Some x \<and> hex_val l = Some y \<and> char_of (16 * x + y) = c"
proof -
  assume h: "hex4 c = [CHR ''0'', CHR ''0'', h, l]"
  let ?n = "of_char c :: nat"
  have "?n < 256" by simp
  then have "?n div 16 < 16" by (simp add: less_mult_imp_div_less)
  moreover have "char_of (16 * (?n div 16) + ?n mod 16) = c" by simp
  ultimately show ?thesis using h by (auto simp: hex4_def Let_def)
qed

lemma toml_body_esc: "toml_body (esc_char c @ s) = map_option (Cons c) (toml_body s)"
proof (cases "control_char c \<and> c \<noteq> CHR 0x0A \<and> c \<noteq> CHR 0x0D \<and> c \<noteq> CHR 0x09")
  case True
  moreover have "c \<noteq> CHR 0x5C" "c \<noteq> CHR 0x22" using True by (auto simp: control_char_def)
  moreover obtain h l where hl: "hex4 c = [CHR ''0'', CHR ''0'', h, l]" by (simp add: hex4_def Let_def)
  moreover obtain x y where "hex_val h = Some x" "hex_val l = Some y" "char_of (16 * x + y) = c"
    using hex4_val [OF hl] by blast
  ultimately show ?thesis by (simp add: esc_char_def)
next
  case False
  then show ?thesis by (auto simp: esc_char_def)
qed

text \<open>Quoting is safe: for every string, the text the writer puts in \<^verbatim>\<open>storage.toml\<close> (a reason, a
  directive) reads back as one basic string with exactly that content, so no reason an
  operator types can end its own string, break the file or add a key to it.\<close>

theorem toml_str_round_trip: "toml_string (toml_str s) = Some s"
proof -
  have "toml_body (concat (map esc_char s)) = Some s"
    by (induction s) (simp_all add: toml_body_esc del: toml_body.simps(2))
  then show ?thesis by (simp add: toml_string_def toml_str_def butlast_append)
qed

text \<open>A key ending in a line feed passes for bare, as \<open>$\<close> matches before it.\<close>

lemma bare_key_line_feed: "toml_key ''psk\<newline>'' = ''psk\<newline>'' \<and> policy_ok ''stop-writing\<newline>''"
  by code_simp

end
