(* ===== verification/StorageRegistry.thy ===== *)
theory StorageRegistry
  imports StorageConfig
begin

text \<open>
  \<^verbatim>\<open>lib/sigmond/storage/registry.py\<close>: the registrations of the ledger from the client views of
  \<^verbatim>\<open>lib/sigmond/clients/base.py\<close>.  A declared number is an integer, a finite float or something
  else (a bool, a string, NaN, nothing); the issues a view collects are returned beside the
  registrations.  The lemmas show that the loop over sinks groups them by store.
\<close>

section \<open>Views\<close>

datatype declared = DInt int | DFloat rat | DOther

record sink =
  sk_kind :: string
  sk_path :: string
  sk_mb_per_day :: declared
  sk_retention_days :: declared
  sk_floor_bytes :: int
  sk_final_policy :: "string option"
  sk_classes :: "string list"

record disk_write =
  dw_path :: string
  dw_mb_per_day :: declared
  dw_retention_days :: declared

record inst_view =
  iv_data_sinks :: "sink list"
  iv_disk_writes :: "disk_write list"

record client_view =
  cv_contract_version :: string
  cv_instances :: "inst_view list"

datatype view_issue = UnknownPolicy string string | NoStore string

section \<open>Registrations\<close>

definition CONTRACT_STORAGE_VERSION :: "int list" where
  "CONTRACT_STORAGE_VERSION = [0, 9]"

definition path_parts :: "string \<Rightarrow> string list" where
  "path_parts path = filter (\<lambda>p. p \<noteq> []) (split_on (CHR ''/'') path)"

definition better_store :: "string list \<Rightarrow> store \<Rightarrow> store option \<times> int \<Rightarrow> store option \<times> int" where
  "better_store want s = (\<lambda>(best, best_len).
     let m = path_parts (st_mount s) in
     if take (length m) want = m \<and> int (length m) > best_len
     then (Some s, int (length m)) else (best, best_len))"

definition store_for_path :: "string \<Rightarrow> store list \<Rightarrow> store option" where
  "store_for_path path stores = fst (fold (better_store (path_parts path)) stores (None, - 1))"

text \<open>\<open>_version\<close>: a tuple of at most two integers, or (0, 0) when one does not parse; tuples compare
  like lists.\<close>

fun ints_of :: "string list \<Rightarrow> int list option" where
  "ints_of [] = Some []"
| "ints_of (x # xs) = (case int_of_string x of None \<Rightarrow> None
     | Some n \<Rightarrow> map_option (Cons n) (ints_of xs))"

definition version_of :: "string \<Rightarrow> int list" where
  "version_of text = (case ints_of (take 2 (split_on (CHR ''.'') text)) of
     Some ns \<Rightarrow> ns | None \<Rightarrow> [0, 0])"

definition storage_contract :: "client_view \<Rightarrow> bool" where
  "storage_contract view \<longleftrightarrow> CONTRACT_STORAGE_VERSION \<le> version_of (cv_contract_version view)"

fun declared_rate :: "declared \<Rightarrow> rat" where
  "declared_rate (DInt n) = (if 0 < n then of_int n else 0)"
| "declared_rate (DFloat x) = (if 0 < x then x else 0)"
| "declared_rate DOther = 0"

record sink_row =
  sr_path :: string
  sr_floor :: int
  sr_policy :: "string option"
  sr_managed :: bool
  sr_mb :: declared
  sr_keep :: declared

text \<open>One data sink: the policy kept and the issue of a policy that is not known; then its row.\<close>

definition known_policy :: "string option \<Rightarrow> string option" where
  "known_policy p = (case p of Some q \<Rightarrow> if policy_ok q then Some q else None | None \<Rightarrow> None)"

definition sink_managed :: "bool \<Rightarrow> sink \<Rightarrow> bool" where
  "sink_managed v09 s \<longleftrightarrow> v09 \<and> filter (\<lambda>c. c \<in> set CLASSES) (sk_classes s) \<noteq> []"

definition sink_rows :: "bool \<Rightarrow> sink \<Rightarrow> sink_row list" where
  "sink_rows v09 s = (if sk_kind s \<noteq> ''file'' \<or> sk_path s = [] then []
     else let managed = sink_managed v09 s in
       [\<lparr>sr_path = sk_path s, sr_floor = (if managed then sk_floor_bytes s else 0),
         sr_policy = (if managed then known_policy (sk_final_policy s) else None),
         sr_managed = managed, sr_mb = sk_mb_per_day s, sr_keep = sk_retention_days s\<rparr>])"

definition sink_issues :: "sink \<Rightarrow> view_issue list" where
  "sink_issues s = (if sk_kind s \<noteq> ''file'' \<or> sk_path s = [] then []
     else case sk_final_policy s of None \<Rightarrow> []
       | Some p \<Rightarrow> if policy_ok p then [] else [UnknownPolicy (sk_path s) p])"

definition write_rows :: "disk_write \<Rightarrow> sink_row list" where
  "write_rows dw = (if dw_path dw = [] then [] else
     [\<lparr>sr_path = dw_path dw, sr_floor = 0, sr_policy = None, sr_managed = False,
       sr_mb = dw_mb_per_day dw, sr_keep = dw_retention_days dw\<rparr>])"

definition view_rows :: "client_view \<Rightarrow> sink_row list" where
  "view_rows view = concat (map (\<lambda>iv.
     concat (map (sink_rows (storage_contract view)) (iv_data_sinks iv)) @
     concat (map write_rows (iv_disk_writes iv))) (cv_instances view))"

definition view_policy_issues :: "client_view \<Rightarrow> view_issue list" where
  "view_policy_issues view =
     concat (map (\<lambda>iv. concat (map sink_issues (iv_data_sinks iv))) (cv_instances view))"

text \<open>The entry merged per store, and the loop over the rows.\<close>

record store_entry =
  se_paths :: "string list"
  se_floor :: int
  se_policy :: "string option"
  se_managed :: bool
  se_mb :: rat
  se_max_days :: "rat option"

definition new_entry :: store_entry where
  "new_entry = \<lparr>se_paths = [], se_floor = 0, se_policy = None, se_managed = False, se_mb = 0,
     se_max_days = None\<rparr>"

definition add_row :: "sink_row \<Rightarrow> store_entry \<Rightarrow> store_entry" where
  "add_row r e =
     \<lparr>se_paths = (if sr_path r \<in> set (se_paths e) then se_paths e else se_paths e @ [sr_path r]),
      se_floor = se_floor e + sr_floor r,
      se_policy = (if se_policy e = None \<or> se_policy e = Some [] then sr_policy r else se_policy e),
      se_managed = (se_managed e \<or> sr_managed r),
      se_mb = se_mb e + declared_rate (sr_mb r),
      se_max_days = (let k = declared_rate (sr_keep r) in
        if 0 < k then Some (case se_max_days e of None \<Rightarrow> k | Some d \<Rightarrow> min d k)
        else se_max_days e)\<rparr>"

definition merge_row ::
  "store list \<Rightarrow> sink_row \<Rightarrow> (string, store_entry) dict \<times> view_issue list \<Rightarrow>
   (string, store_entry) dict \<times> view_issue list" where
  "merge_row stores r = (\<lambda>(merged, issues). case store_for_path (sr_path r) stores of
       None \<Rightarrow> (merged, issues @ [NoStore (sr_path r)])
     | Some s \<Rightarrow> (AList.update (st_name s) (add_row r (dget merged (st_name s) new_entry)) merged, issues))"

definition registration_of :: "string \<Rightarrow> string \<Rightarrow> store_entry \<Rightarrow> registration" where
  "registration_of client store_name e = \<lparr>rg_client = client, rg_store = store_name,
     rg_paths = se_paths e, rg_floor_bytes = se_floor e, rg_policy = se_policy e,
     rg_managed = se_managed e, rg_mb_per_day = se_mb e, rg_max_days = se_max_days e\<rparr>"

definition view_registrations ::
  "store list \<Rightarrow> string \<Rightarrow> client_view \<Rightarrow> registration list \<times> view_issue list" where
  "view_registrations stores name view =
     (let (merged, issues) = fold (merge_row stores) (view_rows view) ([], view_policy_issues view)
      in (map (\<lambda>s. registration_of name s (dget merged s new_entry)) (sort (map fst merged)), issues))"

definition registrations_from_views ::
  "(string, client_view) dict \<Rightarrow> store list \<Rightarrow> registration list" where
  "registrations_from_views views stores =
     concat (map (\<lambda>name. case map_of views name of None \<Rightarrow> []
       | Some view \<Rightarrow> fst (view_registrations stores name view)) (sort (map fst views)))"

section \<open>The store of a path\<close>

definition mount_holds :: "string \<Rightarrow> store \<Rightarrow> bool" where
  "mount_holds path s \<longleftrightarrow> take (length (path_parts (st_mount s))) (path_parts path) = path_parts (st_mount s)"

lemma better_store_longest:
  assumes "case best of None \<Rightarrow> len = - 1
      | Some s \<Rightarrow> mount_holds path s \<and> len = int (length (path_parts (st_mount s)))"
  shows "(case fst (fold (better_store (path_parts path)) stores (best, len)) of
      None \<Rightarrow> best = None \<and> (\<forall>s \<in> set stores. \<not> mount_holds path s)
    | Some s \<Rightarrow> mount_holds path s \<and> (best = Some s \<or> s \<in> set stores) \<and>
        len \<le> int (length (path_parts (st_mount s))) \<and>
        (\<forall>s' \<in> set stores. mount_holds path s' \<longrightarrow>
          length (path_parts (st_mount s')) \<le> length (path_parts (st_mount s))))"
  using assms
proof (induction stores arbitrary: best len)
  case Nil
  then show ?case by (auto split: option.splits)
next
  case (Cons s stores)
  show ?case
  proof (cases "mount_holds path s \<and> int (length (path_parts (st_mount s))) > len")
    case True
    then have step: "better_store (path_parts path) s (best, len) =
        (Some s, int (length (path_parts (st_mount s))))"
      by (simp add: better_store_def mount_holds_def Let_def)
    from Cons.IH [where best = "Some s" and len = "int (length (path_parts (st_mount s)))"] True show ?thesis
      by (auto simp: step split: option.splits)
  next
    case False
    then have step: "better_store (path_parts path) s (best, len) = (best, len)"
      by (auto simp: better_store_def mount_holds_def Let_def)
    have short: "mount_holds path s \<Longrightarrow> int (length (path_parts (st_mount s))) \<le> len"
      using False by auto
    have "best = None \<Longrightarrow> \<not> mount_holds path s"
      using short Cons.prems by auto
    with Cons.IH [OF Cons.prems] short show ?thesis
      by (auto simp: step split: option.splits)
  qed
qed

text \<open>A path belongs to the store mounted deepest above it: \<open>store_for_path\<close> returns a store
  whose mount is a component prefix of the path and at least as long as every other such
  mount, and nothing exactly when no mount contains the path.\<close>

theorem store_for_path_deepest:
  "case store_for_path path stores of
     None \<Rightarrow> \<forall>s \<in> set stores. \<not> mount_holds path s
   | Some s \<Rightarrow> s \<in> set stores \<and> mount_holds path s \<and>
       (\<forall>s' \<in> set stores. mount_holds path s' \<longrightarrow>
          length (path_parts (st_mount s')) \<le> length (path_parts (st_mount s)))"
  using better_store_longest [where best = None and len = "- 1" and path = path and stores = stores]
  unfolding store_for_path_def by (auto split: option.splits)

section \<open>The registrations are the rows grouped by store\<close>

definition on_store :: "store list \<Rightarrow> string \<Rightarrow> sink_row \<Rightarrow> bool" where
  "on_store stores name r \<longleftrightarrow> map_option st_name (store_for_path (sr_path r) stores) = Some name"

lemma merge_fold_key:
  "map_of (fst (fold (merge_row stores) rows (merged, issues))) k =
     (let rs = filter (on_store stores k) rows in
      if rs = [] then map_of merged k else Some (fold add_row rs (dget merged k new_entry)))"
proof (induction rows arbitrary: merged issues)
  case (Cons r rows)
  show ?case
  proof (cases "store_for_path (sr_path r) stores")
    case None
    then show ?thesis using Cons.IH by (simp add: merge_row_def on_store_def)
  next
    case (Some s)
    let ?m = "AList.update (st_name s) (add_row r (dget merged (st_name s) new_entry)) merged"
    have "merge_row stores r (merged, issues) = (?m, issues)" using Some by (simp add: merge_row_def)
    then show ?thesis
      using Cons.IH [of ?m issues] Some
      by (auto simp: on_store_def Let_def update_conv dget_update)
  qed
qed (simp add: Let_def)

lemma merge_fold_keys_distinct:
  "distinct (map fst merged) \<Longrightarrow> distinct (map fst (fst (fold (merge_row stores) rows (merged, issues))))"
proof (induction rows arbitrary: merged issues)
  case (Cons r rows)
  obtain m i where mi: "merge_row stores r (merged, issues) = (m, i)" by fastforce
  have "distinct (map fst m)"
    using mi Cons.prems by (auto simp: merge_row_def distinct_update split: option.splits)
  with Cons.IH show ?case by (simp add: mi)
qed simp

lemma add_row_fields [simp]:
  "se_floor (add_row r e) = se_floor e + sr_floor r"
  "se_managed (add_row r e) \<longleftrightarrow> se_managed e \<or> sr_managed r"
  "se_mb (add_row r e) = se_mb e + declared_rate (sr_mb r)"
  "set (se_paths (add_row r e)) = insert (sr_path r) (set (se_paths e))"
  "distinct (se_paths e) \<Longrightarrow> distinct (se_paths (add_row r e))"
  by (auto simp: add_row_def)

lemma add_rows_fields:
  "se_floor (fold add_row rs e) = se_floor e + sum_list (map sr_floor rs)"
  "se_managed (fold add_row rs e) \<longleftrightarrow> se_managed e \<or> list_ex sr_managed rs"
  "se_mb (fold add_row rs e) = se_mb e + (\<Sum>r\<leftarrow>rs. declared_rate (sr_mb r))"
  "set (se_paths (fold add_row rs e)) = set (se_paths e) \<union> set (map sr_path rs)"
  by (induction rs arbitrary: e) auto

lemma add_rows_distinct:
  "distinct (se_paths e) \<Longrightarrow> distinct (se_paths (fold add_row rs e))"
  by (induction rs arbitrary: e) auto

lemma declared_rate_nonneg [simp]: "0 \<le> declared_rate d"
  by (cases d) simp_all

lemma add_rows_max_days:
  "se_max_days (fold add_row rs e) = fold (\<lambda>r m. let k = declared_rate (sr_keep r) in
     if 0 < k then Some (case m of None \<Rightarrow> k | Some d \<Rightarrow> min d k) else m) rs (se_max_days e)"
  by (induction rs arbitrary: e) (simp_all add: add_row_def Let_def)

lemma fold_min_cap:
  "fold (\<lambda>r m. let k = f r :: rat in
       if 0 < k then Some (case m of None \<Rightarrow> k | Some d \<Rightarrow> min d k) else m) rs m0 = Some d \<Longrightarrow>
     (m0 = Some d \<or> d \<in> f ` set rs \<and> 0 < d) \<and> (\<forall>k. m0 = Some k \<longrightarrow> d \<le> k) \<and>
     (\<forall>r \<in> set rs. 0 < f r \<longrightarrow> d \<le> f r)"
proof (induction rs arbitrary: m0)
  case (Cons r rs)
  show ?case
  proof (cases "0 < f r")
    case False
    with Cons show ?thesis by (auto simp: Let_def)
  next
    case True
    let ?m = "Some (case m0 of None \<Rightarrow> f r | Some d \<Rightarrow> min d (f r))"
    from Cons.prems True have "fold (\<lambda>r m. let k = f r in
       if 0 < k then Some (case m of None \<Rightarrow> k | Some d \<Rightarrow> min d k) else m) rs ?m = Some d"
      by (simp add: Let_def)
    from Cons.IH [OF this] True show ?thesis
      by (cases m0) (auto simp: min_def split: if_splits)
  qed
qed simp

lemma fold_min_cap_None:
  "fold (\<lambda>r m. let k = f r :: rat in
       if 0 < k then Some (case m of None \<Rightarrow> k | Some d \<Rightarrow> min d k) else m) rs m0 = None \<longleftrightarrow>
     m0 = None \<and> (\<forall>r \<in> set rs. f r \<le> 0)"
  by (induction rs arbitrary: m0) (auto simp: Let_def not_le split: option.split)

lemma view_registrations_set:
  "r \<in> set (fst (view_registrations stores name view)) \<longleftrightarrow>
     (\<exists>k. filter (on_store stores k) (view_rows view) \<noteq> [] \<and>
        r = registration_of name k (fold add_row (filter (on_store stores k) (view_rows view)) new_entry))"
proof -
  let ?m = "fst (fold (merge_row stores) (view_rows view) ([], view_policy_issues view))"
  have key: "map_of ?m k = (let rs = filter (on_store stores k) (view_rows view) in
      if rs = [] then None else Some (fold add_row rs new_entry))" for k
    by (simp add: merge_fold_key dget_def Let_def)
  have dom: "k \<in> set (map fst ?m) \<longleftrightarrow> filter (on_store stores k) (view_rows view) \<noteq> []" for k
    using key [of k] by (simp only: keys_iff_map_of Let_def split: if_split) simp
  have get: "dget ?m k new_entry = fold add_row (filter (on_store stores k) (view_rows view)) new_entry"
    if "k \<in> set (map fst ?m)" for k
    using key [of k] dom [of k] that by (simp add: Let_def)
  have "set (fst (view_registrations stores name view)) =
      (\<lambda>k. registration_of name k (dget ?m k new_entry)) ` set (map fst ?m)"
    by (simp add: view_registrations_def case_prod_unfold Let_def)
  also have "\<dots> = (\<lambda>k. registration_of name k
      (fold add_row (filter (on_store stores k) (view_rows view)) new_entry)) ` set (map fst ?m)"
    using get by (intro image_cong) auto
  finally show ?thesis using dom by auto
qed

lemma registrations_of_client:
  assumes "map_of views name = Some view"
  shows "r \<in> set (registrations_from_views views stores) \<and> rg_client r = name \<longleftrightarrow>
    r \<in> set (fst (view_registrations stores name view))"
proof -
  have client: "rg_client r = n" if "r \<in> set (fst (view_registrations stores n v))" for n v
    using that by (auto simp: view_registrations_set registration_of_def)
  have dom: "name \<in> set (sort (map fst views))" using assms map_of_eq_None_iff [of views name] by auto
  show ?thesis
  proof
    assume r: "r \<in> set (registrations_from_views views stores) \<and> rg_client r = name"
    then obtain n where "r \<in> set (case map_of views n of None \<Rightarrow> []
        | Some view \<Rightarrow> fst (view_registrations stores n view))"
      by (auto simp: registrations_from_views_def)
    then obtain v where n: "map_of views n = Some v" "r \<in> set (fst (view_registrations stores n v))"
      by (cases "map_of views n") auto
    with client [OF n(2)] r assms show "r \<in> set (fst (view_registrations stores name view))" by simp
  next
    assume r: "r \<in> set (fst (view_registrations stores name view))"
    with dom assms have "r \<in> set (registrations_from_views views stores)"
      unfolding registrations_from_views_def set_concat set_map
      by (force simp: image_image)
    with client [OF r] show "r \<in> set (registrations_from_views views stores) \<and> rg_client r = name"
      by simp
  qed
qed

text \<open>Registrations group a client's sinks by store: every registration's paths are the distinct
  paths of the client's rows on that store, its floor and its daily rate their sums, it is
  managed exactly when one of them is, its cap is the smallest positive retention (or none),
  and every row on a known store belongs to a registration.\<close>

theorem registrations_group_rows:
  fixes stores :: "store list"
  assumes "map_of views name = Some view"
  defines "on \<equiv> \<lambda>k. filter (on_store stores k) (view_rows view)"
  shows "(\<forall>r \<in> set (registrations_from_views views stores). rg_client r = name \<longrightarrow>
      (let rs = on (rg_store r) in rs \<noteq> [] \<and>
        set (rg_paths r) = set (map sr_path rs) \<and> distinct (rg_paths r) \<and>
        rg_floor_bytes r = sum_list (map sr_floor rs) \<and>
        rg_mb_per_day r = (\<Sum>x\<leftarrow>rs. declared_rate (sr_mb x)) \<and>
        (rg_managed r \<longleftrightarrow> list_ex sr_managed rs) \<and>
        (case rg_max_days r of None \<Rightarrow> \<forall>x \<in> set rs. declared_rate (sr_keep x) = 0
         | Some d \<Rightarrow> 0 < d \<and> (\<exists>x \<in> set rs. declared_rate (sr_keep x) = d) \<and>
             (\<forall>x \<in> set rs. 0 < declared_rate (sr_keep x) \<longrightarrow> d \<le> declared_rate (sr_keep x)))))
    \<and> (\<forall>row \<in> set (view_rows view). \<forall>s. store_for_path (sr_path row) stores = Some s \<longrightarrow>
        (\<exists>r \<in> set (registrations_from_views views stores).
           rg_client r = name \<and> rg_store r = st_name s \<and> sr_path row \<in> set (rg_paths r)))"
proof -
  have mem: "r \<in> set (registrations_from_views views stores) \<and> rg_client r = name \<longleftrightarrow>
      (\<exists>k. on k \<noteq> [] \<and> r = registration_of name k (fold add_row (on k) new_entry))" for r
    using registrations_of_client [OF assms(1), of r stores] by (simp add: view_registrations_set on_def)
  have days: "case se_max_days (fold add_row rs new_entry) of
        None \<Rightarrow> \<forall>x \<in> set rs. declared_rate (sr_keep x) = 0
      | Some d \<Rightarrow> 0 < d \<and> (\<exists>x \<in> set rs. declared_rate (sr_keep x) = d) \<and>
          (\<forall>x \<in> set rs. 0 < declared_rate (sr_keep x) \<longrightarrow> d \<le> declared_rate (sr_keep x))" for rs
  proof (cases "se_max_days (fold add_row rs new_entry)")
    case None
    then show ?thesis
      using fold_min_cap_None [of "\<lambda>x. declared_rate (sr_keep x)" rs None]
      by (auto simp: add_rows_max_days new_entry_def intro: order_antisym)
  next
    case (Some d)
    then show ?thesis
      using fold_min_cap [of "\<lambda>x. declared_rate (sr_keep x)" rs None d]
      by (auto simp: add_rows_max_days new_entry_def)
  qed
  have fields: "set (rg_paths r) = set (map sr_path (on k)) \<and> distinct (rg_paths r) \<and>
        rg_floor_bytes r = sum_list (map sr_floor (on k)) \<and>
        rg_mb_per_day r = (\<Sum>x\<leftarrow>on k. declared_rate (sr_mb x)) \<and>
        (rg_managed r \<longleftrightarrow> list_ex sr_managed (on k)) \<and> rg_store r = k \<and>
        rg_max_days r = se_max_days (fold add_row (on k) new_entry)"
    if "r = registration_of name k (fold add_row (on k) new_entry)" for r k
    using that by (simp add: registration_of_def add_rows_fields add_rows_distinct) (simp add: new_entry_def add_rows_distinct)
  have one: "\<forall>r \<in> set (registrations_from_views views stores). rg_client r = name \<longrightarrow>
      (let rs = on (rg_store r) in rs \<noteq> [] \<and>
        set (rg_paths r) = set (map sr_path rs) \<and> distinct (rg_paths r) \<and>
        rg_floor_bytes r = sum_list (map sr_floor rs) \<and>
        rg_mb_per_day r = (\<Sum>x\<leftarrow>rs. declared_rate (sr_mb x)) \<and>
        (rg_managed r \<longleftrightarrow> list_ex sr_managed rs) \<and>
        (case rg_max_days r of None \<Rightarrow> \<forall>x \<in> set rs. declared_rate (sr_keep x) = 0
         | Some d \<Rightarrow> 0 < d \<and> (\<exists>x \<in> set rs. declared_rate (sr_keep x) = d) \<and>
             (\<forall>x \<in> set rs. 0 < declared_rate (sr_keep x) \<longrightarrow> d \<le> declared_rate (sr_keep x))))"
  proof (intro ballI impI)
    fix r assume "r \<in> set (registrations_from_views views stores)" "rg_client r = name"
    then obtain k where k: "on k \<noteq> []" "r = registration_of name k (fold add_row (on k) new_entry)"
      using mem by blast
    from fields [OF k(2)] k(1) days [of "on k"] show "let rs = on (rg_store r) in rs \<noteq> [] \<and>
        set (rg_paths r) = set (map sr_path rs) \<and> distinct (rg_paths r) \<and>
        rg_floor_bytes r = sum_list (map sr_floor rs) \<and>
        rg_mb_per_day r = (\<Sum>x\<leftarrow>rs. declared_rate (sr_mb x)) \<and>
        (rg_managed r \<longleftrightarrow> list_ex sr_managed rs) \<and>
        (case rg_max_days r of None \<Rightarrow> \<forall>x \<in> set rs. declared_rate (sr_keep x) = 0
         | Some d \<Rightarrow> 0 < d \<and> (\<exists>x \<in> set rs. declared_rate (sr_keep x) = d) \<and>
             (\<forall>x \<in> set rs. 0 < declared_rate (sr_keep x) \<longrightarrow> d \<le> declared_rate (sr_keep x)))"
      by (simp only: Let_def simp_thms)
  qed
  have two: "\<exists>r \<in> set (registrations_from_views views stores).
      rg_client r = name \<and> rg_store r = st_name s \<and> sr_path row \<in> set (rg_paths r)"
    if "row \<in> set (view_rows view)" "store_for_path (sr_path row) stores = Some s" for row s
  proof -
    let ?r = "registration_of name (st_name s) (fold add_row (on (st_name s)) new_entry)"
    have "row \<in> set (on (st_name s))" using that by (simp add: on_def on_store_def)
    then have "on (st_name s) \<noteq> []" "sr_path row \<in> set (map sr_path (on (st_name s)))" by auto
    with mem [of ?r] fields [of ?r "st_name s"] show ?thesis by blast
  qed
  from one two show ?thesis by blast
qed

definition example_stores :: "store list" where
  "example_stores = [\<lparr>st_name = ''root'', st_mount = ''/'', st_kind = ''guest'', st_capacity = 100, st_used = 50\<rparr>,
     \<lparr>st_name = ''archive'', st_mount = ''/mnt/archive'', st_kind = ''guest'', st_capacity = 100, st_used = 50\<rparr>]"

definition example_views :: "(string, client_view) dict" where
  "example_views = [(''psk'', \<lparr>cv_contract_version = ''0.9'', cv_instances =
     [\<lparr>iv_data_sinks =
         [\<lparr>sk_kind = ''file'', sk_path = ''/mnt/archive/psk'', sk_mb_per_day = DInt 10,
            sk_retention_days = DFloat 30, sk_floor_bytes = 7, sk_final_policy = Some ''stop-writing'',
            sk_classes = [''raw'']\<rparr>,
          \<lparr>sk_kind = ''file'', sk_path = ''/mnt/archive/psk2'', sk_mb_per_day = DInt 5,
            sk_retention_days = DOther, sk_floor_bytes = 2, sk_final_policy = None,
            sk_classes = [''raw'']\<rparr>],
       iv_disk_writes = [\<lparr>dw_path = ''/var/log/psk'', dw_mb_per_day = DInt 1, dw_retention_days = DInt 0\<rparr>]\<rparr>]\<rparr>)]"

theorem store_for_path_deepest_witness:
  "store_for_path ''/mnt/archive/psk'' example_stores = Some (example_stores ! 1) \<and>
   mount_holds ''/mnt/archive/psk'' (example_stores ! 1)"
proof -
  have "store_for_path ''/mnt/archive/psk'' example_stores = Some (example_stores ! 1)" by code_simp
  then show ?thesis using store_for_path_deepest [where path = "''/mnt/archive/psk''" and stores = example_stores] by simp
qed

theorem registrations_group_rows_witness:
  "\<exists>r \<in> set (registrations_from_views example_views example_stores).
     rg_client r = ''psk'' \<and> rg_store r = ''archive'' \<and> ''/mnt/archive/psk'' \<in> set (rg_paths r)"
proof -
  let ?v = "snd (hd example_views)"
  let ?row = "hd (view_rows ?v)"
  have v: "map_of example_views ''psk'' = Some ?v" by (simp add: example_views_def)
  have "?row \<in> set (view_rows ?v)" by code_simp
  moreover have "store_for_path (sr_path ?row) example_stores = Some (example_stores ! 1)" by code_simp
  ultimately have "\<exists>r \<in> set (registrations_from_views example_views example_stores).
      rg_client r = ''psk'' \<and> rg_store r = st_name (example_stores ! 1) \<and> sr_path ?row \<in> set (rg_paths r)"
    using registrations_group_rows [OF v, of example_stores] by blast
  moreover have "st_name (example_stores ! 1) = ''archive''" "sr_path ?row = ''/mnt/archive/psk''"
    by code_simp+
  ultimately show ?thesis by metis
qed

end
