(* ===== verification/StorageClient.thy ===== *)
theory StorageClient
  imports StorageModel PyData
begin

text \<open>
  The two ends of the storage verbs: \<^verbatim>\<open>lib/sigmond/storage/client_kit.py\<close>, by which a client lists
  what it holds and chooses what to trim, and \<^verbatim>\<open>storage/clientcall.py\<close>, by which the ledger calls
  a client and stops it.  A call's outcome is a value of \<open>run_result\<close>; \<open>delete\<close> gives the text of
  the exception where a delete fails.  The lemmas show what a trim keeps, that the answers of the
  one end are those the other accepts, and what the stop lever touches.
\<close>

section \<open>What a client holds\<close>

record item =
  it_path :: string
  it_bytes :: int
  it_cls :: string
  it_mtime :: rat

definition holdings_of :: "item list \<Rightarrow> (string, int) dict" where
  "holdings_of items =
     fold (\<lambda>it out. AList.update (it_cls it) (dget out (it_cls it) 0 + it_bytes it) out) items []"

definition written_per_day :: "item list \<Rightarrow> rat \<Rightarrow> int" where
  "written_per_day items now =
     sum_list (map it_bytes (filter (\<lambda>it. now - 86400 < it_mtime it \<and> it_mtime it \<le> now + 86400) items))"

definition TRIM_ORDER :: "string list" where
  "TRIM_ORDER = filter (\<lambda>c. c \<in> set CLASSES) [''sent'', ''derived'', ''raw'']"

text \<open>The candidates in order, class by class and oldest first; the loop over them, with its two
  returns.\<close>

definition trim_candidates :: "item list \<Rightarrow> string list option \<Rightarrow> item list" where
  "trim_candidates items classes =
     concat (map (\<lambda>c. sort_key it_mtime (filter (\<lambda>i. it_cls i = c) items))
       (filter (\<lambda>c. case classes of None \<Rightarrow> True | Some cs \<Rightarrow> c \<in> set cs) TRIM_ORDER))"

fun trim_loop :: "int \<Rightarrow> int \<Rightarrow> bool \<Rightarrow> item list \<Rightarrow> int \<Rightarrow> item list" where
  "trim_loop fit floor_bytes final [] remaining = []"
| "trim_loop fit floor_bytes final (it # its) remaining =
     (if remaining \<le> fit then []
      else if \<not> final \<and> remaining - it_bytes it < floor_bytes then []
      else it # trim_loop fit floor_bytes final its (remaining - it_bytes it))"

definition choose_trim :: "item list \<Rightarrow> int \<Rightarrow> int \<Rightarrow> bool \<Rightarrow> string list option \<Rightarrow> item list" where
  "choose_trim items fit floor_bytes final classes =
     trim_loop fit floor_bytes final (trim_candidates items classes) (sum_list (map it_bytes items))"

record answer =
  an_held_bytes :: int
  an_bytes_by_class :: "(string, int) dict"
  an_refused :: bool
  an_reason :: string

definition answer_of :: "item list \<Rightarrow> bool \<Rightarrow> string \<Rightarrow> answer" where
  "answer_of items refused reason = \<lparr>an_held_bytes = sum_list (map it_bytes items),
     an_bytes_by_class = holdings_of items, an_refused = refused, an_reason = reason\<rparr>"

definition delete_all :: "(item \<Rightarrow> string option) \<Rightarrow> item list \<Rightarrow> item list \<Rightarrow> item list \<times> string list" where
  "delete_all delete chosen items =
     (let gone = map it_path (filter (\<lambda>it. delete it = None) chosen);
          errors = concat (map (\<lambda>it. case delete it of None \<Rightarrow> []
            | Some exc \<Rightarrow> [it_path it @ '': '' @ exc]) chosen)
      in (filter (\<lambda>i. it_path i \<notin> set gone) items, errors))"

definition delete_note :: "string list \<Rightarrow> string list" where
  "delete_note errors = (if errors = [] then [] else [''could not delete '' @ join_on '', '' errors])"

definition trim_left :: "(item \<Rightarrow> string option) \<Rightarrow> int \<Rightarrow> item list \<Rightarrow> int \<Rightarrow> item list" where
  "trim_left delete floor_bytes items fit = fst (delete_all delete (choose_trim items fit floor_bytes False None) items)"

definition do_trim :: "(item \<Rightarrow> string option) \<Rightarrow> int \<Rightarrow> item list \<Rightarrow> int \<Rightarrow> answer" where
  "do_trim delete floor_bytes items fit =
     (let refused = fit < floor_bytes;
          note = (if refused then [''fit '' @ string_of_int fit @ '' B lies below the floor '' @
            string_of_int floor_bytes @ '' B; keeping the floor''] else []);
          (left, errors) = delete_all delete (choose_trim items fit floor_bytes False None) items
      in answer_of left refused (join_on ''; '' (note @ delete_note errors)))"

definition policy_class :: "string \<Rightarrow> string option" where
  "policy_class policy =
     (let kind = takeWhile (\<lambda>c. c \<noteq> CHR '':'') policy;
          cls = drop 1 (dropWhile (\<lambda>c. c \<noteq> CHR '':'') policy)
      in if kind \<noteq> ''give-up-oldest'' \<or> cls \<notin> set CLASSES \<or> cls = ''pinned'' then None else Some cls)"

definition final_left ::
  "(item \<Rightarrow> string option) \<Rightarrow> int \<Rightarrow> string \<Rightarrow> item list \<Rightarrow> int \<Rightarrow> item list" where
  "final_left delete floor_bytes policy items fit = (case policy_class policy of
     None \<Rightarrow> items
   | Some cls \<Rightarrow> fst (delete_all delete (choose_trim items fit floor_bytes True (Some [cls])) items))"

definition effective_policy :: "string \<Rightarrow> string option \<Rightarrow> string" where
  "effective_policy final_policy arg =
     (case arg of Some p \<Rightarrow> if p \<noteq> [] then p else final_policy | None \<Rightarrow> final_policy)"

definition final_answer ::
  "(item \<Rightarrow> string option) \<Rightarrow> int \<Rightarrow> string \<Rightarrow> item list \<Rightarrow> int \<Rightarrow> answer" where
  "final_answer delete floor_bytes policy items fit = (case policy_class policy of
     None \<Rightarrow> answer_of items True (''policy '' @ policy @ '' is not handled by this client'')
   | Some cls \<Rightarrow>
       let (left, errors) = delete_all delete (choose_trim items fit floor_bytes True (Some [cls])) items
       in answer_of left False (join_on '''' (delete_note errors)))"

definition answer_json :: "answer \<Rightarrow> pyval" where
  "answer_json a = PDict [(''held_bytes'', PInt (an_held_bytes a)),
     (''bytes_by_class'', PDict (map (\<lambda>(k, v). (k, PInt v)) (an_bytes_by_class a))),
     (''refused'', PBool (an_refused a)), (''reason'', PStr (an_reason a))]"

text \<open>\<open>do_final\<close>: a client's own \<open>apply_policy\<close>, where it has one, answers instead.\<close>

definition do_final ::
  "(string \<Rightarrow> int \<Rightarrow> pyval) option \<Rightarrow> (item \<Rightarrow> string option) \<Rightarrow> int \<Rightarrow> string \<Rightarrow> string option \<Rightarrow>
   item list \<Rightarrow> int \<Rightarrow> pyval" where
  "do_final apply_policy delete floor_bytes final_policy arg items fit =
     (let policy = effective_policy final_policy arg
      in case apply_policy of
           Some f \<Rightarrow> f policy fit
         | None \<Rightarrow> answer_json (final_answer delete floor_bytes policy items fit))"

definition do_holdings :: "item list \<Rightarrow> rat \<Rightarrow> pyval" where
  "do_holdings items now = PDict
     [(''bytes_by_class'', PDict (map (\<lambda>(k, v). (k, PInt v)) (holdings_of items))),
      (''estimated'', PBool False), (''bytes_written_per_day'', PInt (written_per_day items now))]"

section \<open>Calls\<close>

datatype run_result = TimedOut | RunError string | Exited int "pyval option"

record client_answer =
  ca_ok :: bool
  ca_held_bytes :: "int option"
  ca_bytes_by_class :: "(string, int) dict"
  ca_refused :: bool
  ca_reason :: string
  ca_unsupported :: bool
  ca_written :: "int option"

definition fail_answer :: "string \<Rightarrow> bool \<Rightarrow> client_answer" where
  "fail_answer reason unsupported = \<lparr>ca_ok = False, ca_held_bytes = None, ca_bytes_by_class = [],
     ca_refused = False, ca_reason = reason, ca_unsupported = unsupported, ca_written = None\<rparr>"

fun plain_int :: "pyval \<Rightarrow> int option" where
  "plain_int (PInt n) = Some n"
| "plain_int _ = None"

fun int_values :: "(string \<times> pyval) list \<Rightarrow> (string, int) dict option" where
  "int_values [] = Some []"
| "int_values ((k, v) # d) = (case (plain_int v, int_values d) of
     (Some n, Some d') \<Rightarrow> Some ((k, n) # d') | _ \<Rightarrow> None)"

definition by_class_of :: "pyval \<Rightarrow> (string, int) dict option" where
  "by_class_of v = (case v of PDict d \<Rightarrow> int_values d | _ \<Rightarrow> None)"

definition accept_answer :: "(pyval \<Rightarrow> string) \<Rightarrow> (string \<times> pyval) list \<Rightarrow> client_answer" where
  "accept_answer repr data = (case by_class_of (py_get data ''bytes_by_class'') of
       None \<Rightarrow> fail_answer ''bytes_by_class missing or malformed'' False
     | Some by_class \<Rightarrow>
         let held = (if py_get data ''held_bytes'' = PNone then PInt (sum_list (map snd by_class))
               else py_get data ''held_bytes'')
         in case plain_int held of
              None \<Rightarrow> fail_answer ''held_bytes malformed'' False
            | Some h \<Rightarrow> \<lparr>ca_ok = True, ca_held_bytes = Some h, ca_bytes_by_class = by_class,
                ca_refused = py_truthy (dget data ''refused'' (PBool False)),
                ca_reason = py_str repr (dget data ''reason'' (PStr [])), ca_unsupported = False,
                ca_written = (case plain_int (py_get data ''bytes_written_per_day'') of
                  Some w \<Rightarrow> if w < 0 then None else Some w | None \<Rightarrow> None)\<rparr>)"

definition invoke :: "(pyval \<Rightarrow> string) \<Rightarrow> int \<Rightarrow> run_result \<Rightarrow> client_answer" where
  "invoke repr timeout r = (case r of
       TimedOut \<Rightarrow> fail_answer (''timed out after '' @ string_of_int timeout @ ''s'') False
     | RunError exc \<Rightarrow> fail_answer (''could not run: '' @ exc) False
     | Exited code out \<Rightarrow>
         if code = 2 then fail_answer ''verb not supported (older client)'' True
         else if code \<noteq> 0 then fail_answer (''exit '' @ string_of_int code) False
         else case out of
             None \<Rightarrow> fail_answer ''output is not JSON'' False
           | Some (PDict data) \<Rightarrow> accept_answer repr data
           | Some _ \<Rightarrow> fail_answer ''output is not a JSON object'' False)"

definition HOLDINGS_TIMEOUT_S :: int where "HOLDINGS_TIMEOUT_S = 10"
definition TRIM_TIMEOUT_S :: int where "TRIM_TIMEOUT_S = 120"

definition call_holdings ::
  "(pyval \<Rightarrow> string) \<Rightarrow> (string list \<Rightarrow> run_result) \<Rightarrow> string \<Rightarrow> client_answer" where
  "call_holdings repr run binary =
     invoke repr HOLDINGS_TIMEOUT_S (run [binary, ''storage'', ''holdings'', ''--json''])"

definition call_trim ::
  "(pyval \<Rightarrow> string) \<Rightarrow> (string list \<Rightarrow> run_result) \<Rightarrow> string \<Rightarrow> int \<Rightarrow> client_answer" where
  "call_trim repr run binary fit = invoke repr TRIM_TIMEOUT_S
     (run [binary, ''storage'', ''trim'', ''--fit-bytes'', string_of_int fit, ''--json''])"

definition call_final ::
  "(pyval \<Rightarrow> string) \<Rightarrow> (string list \<Rightarrow> run_result) \<Rightarrow> string \<Rightarrow> int \<Rightarrow> string option \<Rightarrow> client_answer" where
  "call_final repr run binary fit policy = invoke repr TRIM_TIMEOUT_S
     (run ([binary, ''storage'', ''final'', ''--fit-bytes'', string_of_int fit] @
       (case policy of Some p \<Rightarrow> if p \<noteq> [] then [''--policy'', p] else [] | None \<Rightarrow> []) @ [''--json'']))"

section \<open>The stop lever\<close>

definition NEVER_STOP :: "string list" where
  "NEVER_STOP = [''radiod'', ''ka9q-radio'', ''ka9q-web'', ''sigmond'']"

record unit_ref =
  ur_kind :: string
  ur_unit :: string

datatype stop_result = StopError string | StopExit int

definition already :: "string list \<Rightarrow> string" where
  "already stopped = (if stopped = [] then [] else ''; already stopped: '' @ join_on '', '' stopped)"

text \<open>The loop over the units: the verdict and the units \<open>systemctl stop\<close> was called for.\<close>

fun stop_units ::
  "(string \<Rightarrow> stop_result) \<Rightarrow> unit_ref list \<Rightarrow> string list \<Rightarrow> (bool \<times> string) \<times> string list" where
  "stop_units run [] stopped =
     (if stopped = [] then (False, ''no units to stop'') else (True, ''stopped '' @ join_on '', '' stopped), stopped)"
| "stop_units run (ref # refs) stopped =
     (if ur_kind ref \<noteq> ''service'' \<and> ur_kind ref \<noteq> ''timer'' then stop_units run refs stopped
      else case run (ur_unit ref) of
          StopError exc \<Rightarrow> ((False, ''systemctl stop '' @ ur_unit ref @ '' failed: '' @ exc @ already stopped),
            stopped @ [ur_unit ref])
        | StopExit code \<Rightarrow> if code \<noteq> 0
            then ((False, ''systemctl stop '' @ ur_unit ref @ '' failed (exit '' @ string_of_int code @ '')'' @
              already stopped), stopped @ [ur_unit ref])
            else stop_units run refs (stopped @ [ur_unit ref]))"

definition stop_client ::
  "(string \<Rightarrow> string + unit_ref list) \<Rightarrow> (string \<Rightarrow> stop_result) \<Rightarrow> string \<Rightarrow> (bool \<times> string) \<times> string list" where
  "stop_client resolve run component =
     (if component \<in> set NEVER_STOP
      then ((False, component @ '' is never stopped by the storage ledger''), [])
      else case resolve component of
          Inl exc \<Rightarrow> ((False, ''cannot resolve units of '' @ component @ '': '' @ exc), [])
        | Inr refs \<Rightarrow> stop_units run refs [])"

section \<open>What a trim chooses\<close>

lemma TRIM_ORDER_eq: "TRIM_ORDER = [''sent'', ''derived'', ''raw'']"
  by code_simp

lemma trim_loop_prefix:
  "let chosen = trim_loop fit lowest final cs r; held = (\<lambda>k. r - sum_list (map it_bytes (take k cs))) in
     chosen = take (length chosen) cs \<and> length chosen \<le> length cs \<and>
     (\<forall>k < length chosen. fit < held k \<and> (final \<or> lowest \<le> held (Suc k))) \<and>
     (length chosen = length cs \<or> held (length chosen) \<le> fit \<or>
       \<not> final \<and> held (Suc (length chosen)) < lowest)"
proof (induction cs arbitrary: r)
  case (Cons c cs)
  show ?case
  proof (cases "r \<le> fit \<or> \<not> final \<and> r - it_bytes c < lowest")
    case True
    then show ?thesis by (auto simp: Let_def)
  next
    case False
    with Cons [of "r - it_bytes c"] show ?thesis
      by (auto simp: Let_def algebra_simps less_Suc_eq_0_disj)
  qed
qed simp

definition class_rank :: "string \<Rightarrow> nat" where
  "class_rank c = (if c = ''sent'' then 0 else if c = ''derived'' then 1 else 2)"

definition trims_before :: "item \<Rightarrow> item \<Rightarrow> bool" where
  "trims_before a b \<longleftrightarrow> class_rank (it_cls a) < class_rank (it_cls b) \<or>
     it_cls a = it_cls b \<and> it_mtime a \<le> it_mtime b"

lemma sorted_wrt_concat:
  "sorted_wrt (\<lambda>a b. \<forall>x \<in> set (g a). \<forall>y \<in> set (g b). R x y) as \<Longrightarrow>
     (\<And>a. a \<in> set as \<Longrightarrow> sorted_wrt R (g a)) \<Longrightarrow> sorted_wrt R (concat (map g as))"
  by (induction as) (auto simp: sorted_wrt_append)

lemma candidates_sorted: "sorted_wrt trims_before (trim_candidates items classes)"
proof -
  let ?P = "\<lambda>c. case classes of None \<Rightarrow> True | Some cs \<Rightarrow> c \<in> set cs"
  let ?g = "\<lambda>c. sort_key it_mtime (filter (\<lambda>i. it_cls i = c) items)"
  have "sorted_wrt (\<lambda>a b. \<forall>x \<in> set (?g a). \<forall>y \<in> set (?g b). trims_before x y) (filter ?P TRIM_ORDER)"
    by (rule sorted_wrt_filter) (simp add: TRIM_ORDER_eq trims_before_def class_rank_def)
  moreover have "sorted_wrt trims_before (?g c)" for c
  proof -
    have "sorted_wrt (\<lambda>a b. it_mtime a \<le> it_mtime b) (?g c)"
      using sorted_sort_key [of it_mtime "filter (\<lambda>i. it_cls i = c) items"] by (simp add: sorted_map)
    then show ?thesis by (rule sorted_wrt_mono_rel [rotated]) (auto simp: trims_before_def)
  qed
  ultimately show ?thesis unfolding trim_candidates_def by (rule sorted_wrt_concat)
qed

lemma candidate_class:
  "i \<in> set (trim_candidates items classes) \<longleftrightarrow>
     i \<in> set items \<and> it_cls i \<in> {''sent'', ''derived'', ''raw''} \<and>
     (case classes of None \<Rightarrow> True | Some cs \<Rightarrow> it_cls i \<in> set cs)"
  by (auto simp: trim_candidates_def TRIM_ORDER_eq split: option.splits)

lemmas choose_trim_loop = trim_loop_prefix [of fit lowest final "trim_candidates items classes"
  "sum_list (map it_bytes items)" for fit lowest final items classes, unfolded Let_def, folded choose_trim_def]

text \<open>C8. A trim takes no more than it must: the chosen items are the first of the candidates, which
  run from sent through derived to raw and oldest first within a class, and never include a
  pinned item; before each choice the holding was still above the bytes to fit, and outside
  the final stage no choice takes it below the floor; and the choice ends only when the
  holding fits, nothing is left, or the next item would break the floor.\<close>

theorem choose_trim_correct:
  fixes items lowest final classes fit
  defines "cs \<equiv> trim_candidates items classes"
    and "chosen \<equiv> choose_trim items fit lowest final classes"
    and "held \<equiv> \<lambda>k. sum_list (map it_bytes items) -
      sum_list (map it_bytes (take k (trim_candidates items classes)))"
  shows "chosen = take (length chosen) cs \<and> sorted_wrt trims_before chosen \<and>
     (\<forall>i. i \<in> set cs \<longleftrightarrow> i \<in> set items \<and> it_cls i \<in> {''sent'', ''derived'', ''raw''} \<and>
        (classes = None \<or> it_cls i \<in> set (the classes))) \<and>
     (\<forall>k < length chosen. fit < held k \<and> (final \<or> lowest \<le> held (Suc k))) \<and>
     (length chosen = length cs \<or> held (length chosen) \<le> fit \<or>
       \<not> final \<and> held (Suc (length chosen)) < lowest)"
proof -
  have loop: "chosen = take (length chosen) cs"
    "\<forall>k < length chosen. fit < held k \<and> (final \<or> lowest \<le> held (Suc k))"
    "length chosen = length cs \<or> held (length chosen) \<le> fit \<or> \<not> final \<and> held (Suc (length chosen)) < lowest"
    unfolding chosen_def cs_def held_def
    using choose_trim_loop [where fit = fit and lowest = lowest and final = final and items = items and classes = classes] by blast+
  have "sorted_wrt trims_before (take (length chosen) cs)"
    using candidates_sorted by (simp add: cs_def sorted_wrt_take)
  then have "sorted_wrt trims_before chosen" using loop(1) by simp
  moreover have "i \<in> set cs \<longleftrightarrow> i \<in> set items \<and> it_cls i \<in> {''sent'', ''derived'', ''raw''} \<and>
        (classes = None \<or> it_cls i \<in> set (the classes))" for i
    unfolding cs_def candidate_class by (cases classes) auto
  ultimately show ?thesis using loop by blast
qed

section \<open>What a trim keeps\<close>

definition distinct_paths :: "item list \<Rightarrow> bool" where
  "distinct_paths items \<longleftrightarrow> distinct (map it_path items)"

lemma delete_all_left:
  assumes "distinct_paths items" and "set chosen \<subseteq> set items"
  shows "fst (delete_all delete chosen items) =
    filter (\<lambda>i. \<not> (i \<in> set chosen \<and> delete i = None)) items"
proof -
  have same: "i = j" if "i \<in> set items" "j \<in> set items" "it_path i = it_path j" for i j
    using assms(1) that by (auto simp: distinct_paths_def distinct_map inj_on_def)
  have mem: "it_path i \<in> set (map it_path (filter (\<lambda>it. delete it = None) chosen)) \<longleftrightarrow>
      i \<in> set chosen \<and> delete i = None" if i: "i \<in> set items" for i
  proof
    assume "it_path i \<in> set (map it_path (filter (\<lambda>it. delete it = None) chosen))"
    then obtain j where j: "j \<in> set chosen" "delete j = None" "it_path i = it_path j" by auto
    then have "i = j" using same [OF i] assms(2) by blast
    with j show "i \<in> set chosen \<and> delete i = None" by simp
  qed auto
  show ?thesis unfolding delete_all_def Let_def fst_conv using mem by (intro filter_cong) simp_all
qed

lemma choose_trim_subset: "set (choose_trim items fit lowest final classes) \<subseteq> set items"
  and choose_trim_not_pinned: "i \<in> set (choose_trim items fit lowest final classes) \<Longrightarrow> it_cls i \<noteq> ''pinned''"
proof -
  have "choose_trim items fit lowest final classes =
      take (length (choose_trim items fit lowest final classes)) (trim_candidates items classes)"
    using choose_trim_loop [where fit = fit and lowest = lowest and final = final and items = items and classes = classes] by blast
  then have sub: "set (choose_trim items fit lowest final classes) \<subseteq> set (trim_candidates items classes)"
    by (metis set_take_subset)
  then show "set (choose_trim items fit lowest final classes) \<subseteq> set items"
    by (auto simp: candidate_class)
  show "it_cls i \<noteq> ''pinned''" if "i \<in> set (choose_trim items fit lowest final classes)"
    using that sub by (auto simp: candidate_class)
qed

text \<open>The contract of a client's verbs, as the ledger relies on it: a call removes items and no
  pinned one.  Whatever calls the ledger makes, in whatever order, pinned data stays.\<close>

locale trim_verb =
  fixes keep :: "item list \<Rightarrow> int \<Rightarrow> item list"
  assumes keep_filter: "distinct_paths items \<Longrightarrow> \<exists>P. keep items fit = filter P items"
    and keep_pinned: "distinct_paths items \<Longrightarrow> i \<in> set items \<Longrightarrow> it_cls i = ''pinned'' \<Longrightarrow>
      i \<in> set (keep items fit)"
begin

lemma keep_distinct: "distinct_paths items \<Longrightarrow> distinct_paths (keep items fit)"
  using keep_filter [of items fit] by (auto simp: distinct_paths_def distinct_map_filter)

lemma keep_subset: "distinct_paths items \<Longrightarrow> set (keep items fit) \<subseteq> set items"
  using keep_filter [of items fit] by auto

lemma keep_bytes:
  assumes "distinct_paths items" and "\<forall>i \<in> set items. 0 \<le> it_bytes i"
  shows "sum_list (map it_bytes (keep items fit)) \<le> sum_list (map it_bytes items)"
proof -
  obtain P where P: "keep items fit = filter P items" using keep_filter [OF assms(1)] by blast
  have "sum_list (map it_bytes (filter P items)) \<le> sum_list (map it_bytes items)"
    using assms(2) by (induction items) auto
  with P show ?thesis by simp
qed

lemma calls_keep_pinned:
  "distinct_paths items \<Longrightarrow>
     distinct_paths (fold (\<lambda>fit its. keep its fit) fits items) \<and>
     set (fold (\<lambda>fit its. keep its fit) fits items) \<subseteq> set items \<and>
     (\<forall>i \<in> set items. it_cls i = ''pinned'' \<longrightarrow> i \<in> set (fold (\<lambda>fit its. keep its fit) fits items))"
proof (induction fits arbitrary: items)
  case (Cons fit fits)
  from Cons.IH [OF keep_distinct [OF Cons.prems, of fit]] keep_subset [OF Cons.prems, of fit]
    keep_pinned [OF Cons.prems, where fit = fit]
  show ?case by (simp, blast)
qed simp

end

interpretation trim: trim_verb "trim_left delete lowest"
proof
  show "\<exists>P. trim_left delete lowest items fit = filter P items" if "distinct_paths items" for items fit
    unfolding trim_left_def delete_all_left [OF that choose_trim_subset] by blast
  show "i \<in> set (trim_left delete lowest items fit)"
    if "distinct_paths items" "i \<in> set items" "it_cls i = ''pinned''" for items fit i
    using that choose_trim_not_pinned unfolding trim_left_def delete_all_left [OF that(1) choose_trim_subset]
    by auto
qed

interpretation final: trim_verb "final_left delete lowest policy"
proof
  show "\<exists>P. final_left delete lowest policy items fit = filter P items" if "distinct_paths items" for items fit
  proof (cases "policy_class policy")
    case None
    then have "final_left delete lowest policy items fit = filter (\<lambda>_. True) items"
      by (simp add: final_left_def)
    then show ?thesis by blast
  next
    case (Some c)
    then show ?thesis
      unfolding final_left_def by (simp add: delete_all_left [OF that choose_trim_subset]) blast
  qed
  show "i \<in> set (final_left delete lowest policy items fit)"
    if "distinct_paths items" "i \<in> set items" "it_cls i = ''pinned''" for items fit i
    using that choose_trim_not_pinned
    by (cases "policy_class policy") (auto simp: final_left_def delete_all_left [OF that(1) choose_trim_subset])
qed

lemma held_after_trim:
  assumes "distinct_paths items" and "\<forall>i \<in> set items. 0 \<le> it_bytes i"
  shows "sum_list (map it_bytes items) - sum_list (map it_bytes (choose_trim items fit lowest final classes))
      \<le> sum_list (map it_bytes (fst (delete_all delete (choose_trim items fit lowest final classes) items)))"
    and "(\<And>i. delete i = None) \<Longrightarrow>
      sum_list (map it_bytes (fst (delete_all delete (choose_trim items fit lowest final classes) items))) =
      sum_list (map it_bytes items) - sum_list (map it_bytes (choose_trim items fit lowest final classes))"
proof -
  let ?ch = "choose_trim items fit lowest final classes"
  have "distinct items" using assms(1) by (simp add: distinct_paths_def distinct_map)
  then have "distinct (trim_candidates items classes)"
    unfolding trim_candidates_def TRIM_ORDER_eq by (cases classes) auto
  then have dch: "distinct ?ch"
    using choose_trim_loop [where fit = fit and lowest = lowest and final = final and items = items and classes = classes] by (metis distinct_take)
  have total: "sum_list (map it_bytes items) = (\<Sum>i\<in>set items. it_bytes i)"
    "sum_list (map it_bytes ?ch) = (\<Sum>i\<in>set ?ch. it_bytes i)"
    using \<open>distinct items\<close> dch by (simp_all add: sum_list_distinct_conv_sum_set)
  have left: "sum_list (map it_bytes (fst (delete_all delete ?ch items))) =
      (\<Sum>i\<in>{i \<in> set items. \<not> (i \<in> set ?ch \<and> delete i = None)}. it_bytes i)"
    using \<open>distinct items\<close>
    by (simp add: delete_all_left [OF assms(1) choose_trim_subset] sum_list_distinct_conv_sum_set)
  have diff: "(\<Sum>i\<in>set items. it_bytes i) - (\<Sum>i\<in>set ?ch. it_bytes i) = (\<Sum>i\<in>set items - set ?ch. it_bytes i)"
    using choose_trim_subset by (simp add: sum_diff)
  show "sum_list (map it_bytes items) - sum_list (map it_bytes ?ch)
      \<le> sum_list (map it_bytes (fst (delete_all delete ?ch items)))"
    unfolding left total diff using assms(2) by (intro sum_mono2) auto
  show "sum_list (map it_bytes (fst (delete_all delete ?ch items))) =
      sum_list (map it_bytes items) - sum_list (map it_bytes ?ch)" if "\<And>i. delete i = None"
    unfolding left total diff using that by (intro sum.cong) auto
qed

text \<open>A trim answer keeps its promises: over distinct paths and sizes that are not negative, the
  answer reports the bytes of exactly what is left, no pinned item goes, a holding at or above
  the floor stays there whatever deletes fail, a request is refused exactly when it asks for
  less than the floor, and where every delete succeeds the holding fits the request unless
  nothing more may go: no candidate is left, or the next would break the floor.\<close>

theorem trim_answer_sound:
  assumes "distinct_paths items" and "\<forall>i \<in> set items. 0 \<le> it_bytes i"
  shows "an_held_bytes (do_trim delete lowest items fit) = sum_list (map it_bytes (trim_left delete lowest items fit))
    \<and> (\<forall>i \<in> set items. it_cls i = ''pinned'' \<longrightarrow> i \<in> set (trim_left delete lowest items fit))
    \<and> (lowest \<le> sum_list (map it_bytes items) \<longrightarrow> lowest \<le> an_held_bytes (do_trim delete lowest items fit))
    \<and> (an_refused (do_trim delete lowest items fit) \<longleftrightarrow> fit < lowest)
    \<and> ((\<forall>i. delete i = None) \<longrightarrow>
        (let n = length (choose_trim items fit lowest False None); cs = trim_candidates items None in
         an_held_bytes (do_trim delete lowest items fit) \<le> fit \<or> n = length cs \<or>
         an_held_bytes (do_trim delete lowest items fit) - it_bytes (cs ! n) < lowest))"
proof -
  let ?ch = "choose_trim items fit lowest False None" and ?total = "sum_list (map it_bytes items)"
  let ?cs = "trim_candidates items None"
  have held: "an_held_bytes (do_trim delete lowest items fit) = sum_list (map it_bytes (trim_left delete lowest items fit))"
    by (simp add: do_trim_def trim_left_def answer_of_def Let_def case_prod_unfold)
  have refused: "an_refused (do_trim delete lowest items fit) \<longleftrightarrow> fit < lowest"
    by (simp add: do_trim_def answer_of_def Let_def case_prod_unfold)
  have loop: "?ch = take (length ?ch) ?cs" "length ?ch \<le> length ?cs"
    "\<forall>k < length ?ch. lowest \<le> ?total - sum_list (map it_bytes (take (Suc k) ?cs))"
    "length ?ch = length ?cs \<or> ?total - sum_list (map it_bytes (take (length ?ch) ?cs)) \<le> fit \<or>
       ?total - sum_list (map it_bytes (take (Suc (length ?ch)) ?cs)) < lowest"
    using choose_trim_loop [where fit = fit and lowest = lowest and final = False and items = items and classes = None] by blast+
  have above: "lowest \<le> ?total - sum_list (map it_bytes ?ch)" if "lowest \<le> ?total"
  proof (cases "?ch")
    case Nil
    with that show ?thesis by simp
  next
    case (Cons c ch)
    with loop(1,3) show ?thesis by (metis length_Cons lessI)
  qed
  have keep: "?total - sum_list (map it_bytes ?ch) \<le> sum_list (map it_bytes (trim_left delete lowest items fit))"
    using held_after_trim(1) [OF assms] by (simp add: trim_left_def)
  have exact: "sum_list (map it_bytes (trim_left delete lowest items fit)) =
      ?total - sum_list (map it_bytes (take (length ?ch) ?cs))" if "\<forall>i. delete i = None"
    using held_after_trim(2) [OF assms] that loop(1) by (simp add: trim_left_def)
  have next_item: "sum_list (map it_bytes (take (Suc (length ?ch)) ?cs)) =
      sum_list (map it_bytes (take (length ?ch) ?cs)) + it_bytes (?cs ! length ?ch)"
    if "length ?ch \<noteq> length ?cs"
    using that loop(2) by (simp add: take_Suc_conv_app_nth)
  show ?thesis
    using held refused above keep exact next_item loop(4) trim.keep_pinned [OF assms(1)]
    unfolding Let_def by fastforce
qed

definition example_items :: "item list" where
  "example_items = [\<lparr>it_path = ''a'', it_bytes = 5, it_cls = ''pinned'', it_mtime = 0\<rparr>,
     \<lparr>it_path = ''b'', it_bytes = 4, it_cls = ''raw'', it_mtime = 2\<rparr>,
     \<lparr>it_path = ''c'', it_bytes = 3, it_cls = ''sent'', it_mtime = 3\<rparr>,
     \<lparr>it_path = ''d'', it_bytes = 2, it_cls = ''sent'', it_mtime = 1\<rparr>]"

theorem choose_trim_correct_witness:
  "10 < sum_list (map it_bytes example_items) \<and>
   sorted_wrt trims_before (choose_trim example_items 10 6 False None)"
proof -
  have "0 < length (choose_trim example_items 10 6 False None)" by code_simp
  with choose_trim_correct [where items = example_items and fit = 10 and lowest = 6 and final = False
      and classes = None]
  show ?thesis by force
qed

theorem trim_answer_sound_witness:
  "6 \<le> an_held_bytes (do_trim (\<lambda>i. None) 6 example_items 10) \<and>
   \<not> an_refused (do_trim (\<lambda>i. None) 6 example_items 10)"
proof -
  have h: "distinct_paths example_items" "\<forall>i \<in> set example_items. 0 \<le> it_bytes i" by code_simp+
  have "(6 :: int) \<le> sum_list (map it_bytes example_items)" by code_simp
  with trim_answer_sound [OF h, where lowest = 6 and delete = "\<lambda>i. None" and fit = 10] show ?thesis by simp
qed

section \<open>The ledger accepts what the client answers\<close>

lemma int_values_map [simp]: "int_values (map (\<lambda>(k, v). (k, PInt v)) d) = Some d"
  by (induction d) auto

lemma update_sum:
  "distinct (map fst d) \<Longrightarrow> sum_list (map snd (AList.update k (dget d k 0 + n) d)) =
     sum_list (map snd d) + (n :: int)"
proof (induction d)
  case (Cons kv d)
  obtain j v where kv: "kv = (j, v)" by (cases kv)
  show ?case
  proof (cases "j = k")
    case True
    then show ?thesis by (simp add: kv dget_def)
  next
    case False
    then have "dget (kv # d) k 0 = dget d k 0" by (simp add: kv dget_def)
    with False Cons show ?thesis by (simp add: kv)
  qed
qed (simp add: dget_def)

lemma holdings_total: "sum_list (map snd (holdings_of items)) = sum_list (map it_bytes items)"
proof -
  have "distinct (map fst d) \<Longrightarrow>
      sum_list (map snd (fold (\<lambda>it out. AList.update (it_cls it) (dget out (it_cls it) 0 + it_bytes it) out) items d)) =
      sum_list (map snd d) + sum_list (map it_bytes items)" for d :: "(string, int) dict"
    by (induction items arbitrary: d) (simp_all add: update_sum distinct_update)
  from this [of "[]"] show ?thesis by (simp add: holdings_of_def)
qed

lemma invoke_answer:
  "invoke repr t (Exited 0 (Some (answer_json a))) =
     \<lparr>ca_ok = True, ca_held_bytes = Some (an_held_bytes a), ca_bytes_by_class = an_bytes_by_class a,
       ca_refused = an_refused a, ca_reason = an_reason a, ca_unsupported = False, ca_written = None\<rparr>"
  by (simp add: invoke_def answer_json_def accept_answer_def by_class_of_def py_get_def dget_def)

text \<open>Both ends of the protocol agree: whatever a client of the kit prints for \<^verbatim>\<open>trim\<close>,
  \<^verbatim>\<open>final\<close> or \<^verbatim>\<open>holdings\<close>, the ledger's call takes as an ok answer carrying the same bytes per
  class, their sum as the holding, the same refusal and reason, and the rate of a day where it
  is not negative.\<close>

theorem verbs_round_trip:
  assumes "run [binary, ''storage'', ''trim'', ''--fit-bytes'', string_of_int fit, ''--json''] =
      Exited 0 (Some (answer_json (do_trim delete lowest items fit)))"
    and "run [binary, ''storage'', ''final'', ''--fit-bytes'', string_of_int fit, ''--json''] =
      Exited 0 (Some (do_final None delete lowest policy None items fit))"
    and "run [binary, ''storage'', ''holdings'', ''--json''] = Exited 0 (Some (do_holdings items now))"
  shows "(let a = do_trim delete lowest items fit; c = call_trim repr run binary fit in
        ca_ok c \<and> ca_held_bytes c = Some (an_held_bytes a) \<and>
        ca_held_bytes c = Some (sum_list (map snd (ca_bytes_by_class c))) \<and>
        ca_refused c = an_refused a \<and> ca_reason c = an_reason a)
    \<and> (let a = final_answer delete lowest policy items fit; c = call_final repr run binary fit None in
        ca_ok c \<and> ca_held_bytes c = Some (an_held_bytes a) \<and> ca_refused c = an_refused a \<and>
        ca_reason c = an_reason a)
    \<and> (let c = call_holdings repr run binary in
        ca_ok c \<and> ca_held_bytes c = Some (sum_list (map it_bytes items)) \<and>
        ca_bytes_by_class c = holdings_of items \<and>
        ca_written c = (if 0 \<le> written_per_day items now then Some (written_per_day items now) else None))"
proof (intro conjI)
  have "\<exists>left refused reason. do_trim delete lowest items fit = answer_of left refused reason"
    by (simp add: do_trim_def Let_def case_prod_unfold) blast
  then have sum: "sum_list (map snd (an_bytes_by_class (do_trim delete lowest items fit))) =
      an_held_bytes (do_trim delete lowest items fit)"
    by (auto simp: answer_of_def holdings_total)
  show "let a = do_trim delete lowest items fit; c = call_trim repr run binary fit in
        ca_ok c \<and> ca_held_bytes c = Some (an_held_bytes a) \<and>
        ca_held_bytes c = Some (sum_list (map snd (ca_bytes_by_class c))) \<and>
        ca_refused c = an_refused a \<and> ca_reason c = an_reason a"
    by (simp add: call_trim_def assms(1) invoke_answer Let_def sum)
  show "let a = final_answer delete lowest policy items fit; c = call_final repr run binary fit None in
        ca_ok c \<and> ca_held_bytes c = Some (an_held_bytes a) \<and> ca_refused c = an_refused a \<and>
        ca_reason c = an_reason a"
    using assms(2) by (simp add: call_final_def do_final_def effective_policy_def invoke_answer Let_def)
  show "let c = call_holdings repr run binary in
        ca_ok c \<and> ca_held_bytes c = Some (sum_list (map it_bytes items)) \<and>
        ca_bytes_by_class c = holdings_of items \<and>
        ca_written c = (if 0 \<le> written_per_day items now then Some (written_per_day items now) else None)"
    by (simp add: call_holdings_def assms(3) invoke_def do_holdings_def accept_answer_def by_class_of_def
        py_get_def dget_def holdings_total)
qed

definition example_run :: "string list \<Rightarrow> run_result" where
  "example_run argv = (if argv ! 2 = ''trim'' then
       Exited 0 (Some (answer_json (do_trim (\<lambda>i. None) 6 example_items 10)))
     else if argv ! 2 = ''final'' then
       Exited 0 (Some (do_final None (\<lambda>i. None) 6 ''give-up-oldest:raw'' None example_items 10))
     else Exited 0 (Some (do_holdings example_items 4)))"

theorem verbs_round_trip_witness:
  "ca_held_bytes (call_trim (\<lambda>v. []) example_run ''psk'' 10) = Some 9"
proof -
  have "ca_held_bytes (call_trim (\<lambda>v. []) example_run ''psk'' 10) =
      Some (an_held_bytes (do_trim (\<lambda>i. None) 6 example_items 10))"
    using verbs_round_trip [of example_run "''psk''" 10 "\<lambda>i. None" 6 example_items
      "''give-up-oldest:raw''" 4 "\<lambda>v. []"]
    by (simp add: example_run_def Let_def)
  moreover have "an_held_bytes (do_trim (\<lambda>i. None) 6 example_items 10) = 9" by code_simp
  ultimately show ?thesis by simp
qed

section \<open>What the stop lever touches\<close>

definition stoppable :: "unit_ref list \<Rightarrow> string list" where
  "stoppable refs = map ur_unit (filter (\<lambda>r. ur_kind r = ''service'' \<or> ur_kind r = ''timer'') refs)"

lemma stop_units_calls:
  "(\<exists>n. snd (stop_units run refs stopped) = stopped @ take n (stoppable refs)) \<and>
   (fst (fst (stop_units run refs stopped)) \<longleftrightarrow>
      stopped @ stoppable refs \<noteq> [] \<and> (\<forall>u \<in> set (stoppable refs). run u = StopExit 0)) \<and>
   (fst (fst (stop_units run refs stopped)) \<longrightarrow>
      snd (stop_units run refs stopped) = stopped @ stoppable refs)"
proof (induction refs arbitrary: stopped)
  case Nil
  then show ?case by (simp add: stoppable_def)
next
  case (Cons r refs)
  show ?case
  proof (cases "ur_kind r = ''service'' \<or> ur_kind r = ''timer''")
    case False
    then show ?thesis using Cons [of stopped] by (simp add: stoppable_def)
  next
    case True
    then have st: "stoppable (r # refs) = ur_unit r # stoppable refs" by (simp add: stoppable_def)
    have first: "stopped @ [ur_unit r] = stopped @ take 1 (stoppable (r # refs))" by (simp add: st)
    show ?thesis
    proof (cases "run (ur_unit r) = StopExit 0")
      case ok: True
      have step: "stop_units run (r # refs) stopped = stop_units run refs (stopped @ [ur_unit r])"
        using True ok by auto
      obtain n where n: "snd (stop_units run refs (stopped @ [ur_unit r])) =
          (stopped @ [ur_unit r]) @ take n (stoppable refs)"
        using Cons [of "stopped @ [ur_unit r]"] by blast
      have "\<exists>n. snd (stop_units run (r # refs) stopped) = stopped @ take n (stoppable (r # refs))"
        by (rule exI [of _ "Suc n"]) (simp add: step n st del: stop_units.simps)
      moreover have "(\<forall>u \<in> set (stoppable (r # refs)). run u = StopExit 0) \<longleftrightarrow>
          (\<forall>u \<in> set (stoppable refs). run u = StopExit 0)" using ok by (simp add: st)
      moreover have "stopped @ stoppable (r # refs) = (stopped @ [ur_unit r]) @ stoppable refs"
        by (simp add: st)
      ultimately show ?thesis using Cons [of "stopped @ [ur_unit r]"] unfolding step by metis
    next
      case fails: False
      have "snd (stop_units run (r # refs) stopped) = stopped @ [ur_unit r]"
        "\<not> fst (fst (stop_units run (r # refs) stopped))"
        using True fails by (auto split: stop_result.split)
      moreover have "\<not> (\<forall>u \<in> set (stoppable (r # refs)). run u = StopExit 0)"
        using fails by (simp add: st)
      ultimately show ?thesis using first by metis
    qed
  qed
qed



end
