(* ===== verification/StorageTick.thy ===== *)
theory StorageTick
  imports StorageAlarms StorageRates StorageRegistry StorageClient
begin

text \<open>
  \<^verbatim>\<open>lib/sigmond/storage/tick.py\<close>: one pass of the ledger.  The \<open>Runners\<close> are the record
  \<open>runners\<close>; a measurement the pass takes again just before a stop is a field of its own, as it may
  have changed since.  The state file's own tables are typed here (\<open>tick_state\<close>), except the trim
  records and the caches, which are checked value by value on load; numbers in them are finite.
  The passes' effects (trim and final calls, stops) are returned as a trace beside the new state.
  The lemmas show what guards a stop, how trim records are kept and what a fault preserves.
\<close>

section \<open>Small parts\<close>

definition DU_CACHE_S :: rat where "DU_CACHE_S = 1800"
definition RECENT_CACHE_S :: rat where "RECENT_CACHE_S = 1800"
definition STALE_TRIM_S :: rat where "STALE_TRIM_S = 3600"
definition UNCLAIMED_EVERY_S :: rat where "UNCLAIMED_EVERY_S = 6 * 3600"
definition CLEANUP_EVERY_S :: rat where "CLEANUP_EVERY_S = 3600"
definition ARCHIVE_STORE :: string where "ARCHIVE_STORE = ''archive''"

fun tick_num :: "pyval \<Rightarrow> rat option" where
  "tick_num (PInt n) = Some (of_int n)"
| "tick_num (PFloat (Fin x)) = Some x"
| "tick_num _ = None"

text \<open>\<open>_load_trims\<close>: one item of the table, then the loop.\<close>

definition latest :: "rat \<Rightarrow> rat option \<Rightarrow> rat option \<Rightarrow> rat" where
  "latest req ans touched = Max (set (req # List.map_filter id [ans, touched]))"

definition load_trim :: "rat \<Rightarrow> pyval \<Rightarrow> (trim_record \<times> rat) option" where
  "load_trim now v = (case v of
     PDict d \<Rightarrow> (case tick_num (py_get d ''requested_at'') of
         None \<Rightarrow> None
       | Some req \<Rightarrow>
           let ans = tick_num (py_get d ''answered_at'');
               fin = tick_num (py_get d ''final_since'');
               last_touch = latest req ans (tick_num (py_get d ''touched''))
           in if now - last_touch > STALE_TRIM_S \<or> last_touch > now + 300 then None
              else Some (\<lparr>tr_requested_at = req, tr_answered_at = ans,
                     tr_ok = py_truthy (dget d ''ok'' (PBool False)), tr_final_since = fin\<rparr>, last_touch))
   | _ \<Rightarrow> None)"

definition load_trims ::
  "rat \<Rightarrow> pyval \<Rightarrow> (string, trim_record) dict \<times> (string, rat) dict" where
  "load_trims now raw = (case raw of
     PDict items \<Rightarrow> fold (\<lambda>(client, v) (trims, touched). case load_trim now v of
         None \<Rightarrow> (trims, touched)
       | Some (rec, at_time) \<Rightarrow> (AList.update client rec trims, AList.update client at_time touched))
       items ([], [])
   | _ \<Rightarrow> ([], []))"

definition opt_val :: "rat option \<Rightarrow> pyval" where
  "opt_val x = (case x of None \<Rightarrow> PNone | Some y \<Rightarrow> PFloat (Fin y))"

text \<open>The \<open>"trims"\<close> entry of the new state.\<close>

definition dump_trims :: "rat \<Rightarrow> (string, trim_record) dict \<Rightarrow> (string, rat) dict \<Rightarrow> pyval" where
  "dump_trims t trims touched = PDict (map (\<lambda>(c, x). (c, PDict
     [(''requested_at'', PFloat (Fin (tr_requested_at x))), (''answered_at'', opt_val (tr_answered_at x)),
      (''ok'', PBool (tr_ok x)), (''final_since'', opt_val (tr_final_since x)),
      (''touched'', PFloat (Fin (dget touched c t)))])) (sort_key fst trims))"

text \<open>\<open>_since\<close>: when each active alarm's episode began.\<close>

type_synonym since_table = "(string, pyval) dict"

definition since_row :: "rat \<Rightarrow> severity \<Rightarrow> pyval" where
  "since_row now sev = PDict [(''at'', PFloat (Fin now)), (''sev'', PInt (severity_val sev))]"

definition keeps_since :: "severity \<Rightarrow> pyval option \<Rightarrow> bool" where
  "keeps_since sev prev = (case prev of
     Some (PDict d) \<Rightarrow> py_get d ''sev'' = PInt (severity_val sev) \<and> tick_num (py_get d ''at'') \<noteq> None
   | _ \<Rightarrow> False)"

definition alarms_since ::
  "since_table \<Rightarrow> (string, severity \<times> 'm) dict \<Rightarrow> rat \<Rightarrow> since_table" where
  "alarms_since old active now = map (\<lambda>(key, sev, msg).
     (key, if keeps_since sev (map_of old key) then the (map_of old key) else since_row now sev)) active"

definition fresh_stamp :: "pyval \<Rightarrow> rat \<Rightarrow> rat \<Rightarrow> bool" where
  "fresh_stamp stamp now max_age = (case tick_num stamp of
     None \<Rightarrow> False | Some a \<Rightarrow> 0 \<le> now - a \<and> now - a < max_age)"

section \<open>Caches\<close>

type_synonym cache = "(string, pyval) dict"

definition cache_key :: "string \<Rightarrow> string \<Rightarrow> string" where
  "cache_key c store = c @ ''|'' @ store"

definition client_paths :: "registration list \<Rightarrow> string \<Rightarrow> string \<Rightarrow> string list" where
  "client_paths regs c store =
     sort (concat (map rg_paths (filter (\<lambda>r. rg_client r = c \<and> rg_store r = store) regs)))"

definition paths_val :: "string list \<Rightarrow> pyval" where
  "paths_val ps = PList (map PStr ps)"

text \<open>\<open>isinstance(v, int)\<close>: a bool is one too.\<close>

fun int_like :: "pyval \<Rightarrow> int option" where
  "int_like (PInt n) = Some n"
| "int_like (PBool b) = Some (if b then 1 else 0)"
| "int_like _ = None"

definition du_hit :: "pyval option \<Rightarrow> string list \<Rightarrow> rat \<Rightarrow> int option" where
  "du_hit hit paths now = (case hit of
     Some (PDict d) \<Rightarrow> if py_get d ''paths'' = paths_val paths \<and> fresh_stamp (py_get d ''at'') now DU_CACHE_S
       then int_like (py_get d ''bytes'') else None
   | _ \<Rightarrow> None)"

text \<open>\<open>_measure\<close> and \<open>_recent\<close>: the value and the new cache; the keys used are collected by the
  callers.\<close>

definition measure_client ::
  "registration list \<Rightarrow> (string list \<Rightarrow> int) \<Rightarrow> cache \<Rightarrow> rat \<Rightarrow> string \<Rightarrow> string \<Rightarrow> bool \<Rightarrow> int \<times> cache" where
  "measure_client regs size_of du now c store fresh =
     (let paths = client_paths regs c store; key = cache_key c store
      in case (if fresh then None else du_hit (map_of du key) paths now) of
           Some n \<Rightarrow> (n, du)
         | None \<Rightarrow> let n = size_of paths
             in (n, AList.update key (PDict [(''at'', PFloat (Fin now)), (''bytes'', PInt n),
                   (''paths'', paths_val paths)]) du))"

definition recent_hit :: "pyval option \<Rightarrow> string list \<Rightarrow> rat \<Rightarrow> (int \<times> int) option" where
  "recent_hit hit paths now = (case hit of
     Some (PDict d) \<Rightarrow> if py_get d ''paths'' = paths_val paths \<and> fresh_stamp (py_get d ''at'') now RECENT_CACHE_S
       then (case (int_like (py_get d ''mtime''), int_like (py_get d ''ctime'')) of
           (Some m, Some ch) \<Rightarrow> Some (m, ch) | _ \<Rightarrow> None)
       else None
   | _ \<Rightarrow> None)"

definition recent_client ::
  "registration list \<Rightarrow> (string list \<Rightarrow> int \<times> int) \<Rightarrow> cache \<Rightarrow> rat \<Rightarrow> string \<Rightarrow> string \<Rightarrow> bool \<Rightarrow>
   (int \<times> int) \<times> cache" where
  "recent_client regs recent_writes recent now c store fresh =
     (let paths = client_paths regs c store; key = cache_key c store
      in case (if fresh then None else recent_hit (map_of recent key) paths now) of
           Some mc \<Rightarrow> (mc, recent)
         | None \<Rightarrow> let (m, ch) = recent_writes paths
             in ((m, ch), AList.update key (PDict [(''at'', PFloat (Fin now)), (''mtime'', PInt m),
                   (''ctime'', PInt ch), (''paths'', paths_val paths)]) recent))"

section \<open>Samples\<close>

text \<open>One sample of the state file, a list of two numbers; anything else is skipped.\<close>

definition sample_of :: "pyval \<Rightarrow> (rat \<times> rat) option" where
  "sample_of item = (case item of
     PList (a # b # rest) \<Rightarrow> (case (to_float a, to_float b) of
         (Some (Fin t), Some (Fin u)) \<Rightarrow> Some (t, u) | _ \<Rightarrow> None)
   | _ \<Rightarrow> None)"

definition store_history :: "pyval list \<Rightarrow> rat \<Rightarrow> int \<Rightarrow> (rat \<times> rat) list" where
  "store_history old now used =
     filter (\<lambda>(t, u). now - CHURN_WINDOW_S \<le> t \<and> t < now) (List.map_filter sample_of old) @ [(now, of_int used)]"

definition history_of :: "(string, pyval list) dict \<Rightarrow> (string, store) dict \<Rightarrow> rat \<Rightarrow> (string, (rat \<times> rat) list) dict" where
  "history_of old stores now = map (\<lambda>(name, s). (name, store_history (dget old name []) now (st_used s))) stores"

section \<open>Trim calls\<close>

text \<open>\<open>_record_answer\<close>.\<close>

definition record_answer ::
  "string \<Rightarrow> client_answer \<Rightarrow> rat \<Rightarrow> (string, trim_record) dict \<times> (string, rat) dict \<Rightarrow>
   (string, trim_record) dict \<times> (string, rat) dict" where
  "record_answer c ans now = (\<lambda>(trims, touched).
     let old = map_of trims c;
         rec = (case old of
             None \<Rightarrow> \<lparr>tr_requested_at = now, tr_answered_at = None, tr_ok = False, tr_final_since = None\<rparr>
           | Some r \<Rightarrow> if tr_ok r then \<lparr>tr_requested_at = now, tr_answered_at = None, tr_ok = False,
               tr_final_since = tr_final_since r\<rparr> else r)
     in (AList.update c (rec\<lparr>tr_answered_at := Some now, tr_ok := ca_ok ans\<rparr>) trims,
         AList.update c now touched))"

record runners =
  rn_path_bytes :: "string list \<Rightarrow> int"
  rn_path_bytes_late :: "string list \<Rightarrow> int"
  rn_recent_writes :: "(string list \<Rightarrow> int \<times> int) option"
  rn_recent_writes_late :: "string list \<Rightarrow> int \<times> int"
  rn_call_holdings :: "string \<Rightarrow> client_answer"
  rn_call_trim :: "string \<Rightarrow> int \<Rightarrow> client_answer"
  rn_call_final :: "string \<Rightarrow> int \<Rightarrow> string option \<Rightarrow> client_answer"
  rn_stop_client :: "string \<Rightarrow> bool \<times> string"
  rn_binary_for :: "string \<Rightarrow> string option"
  rn_client_active :: "string \<Rightarrow> bool"

datatype call = TrimCall string int | FinalCall string int "string option"

definition unique_step :: "string \<Rightarrow> action \<Rightarrow> action list \<Rightarrow> action list" where
  "unique_step kind a out =
     (if ac_kind a = kind \<and> ac_client a \<notin> set (map ac_client out) then out @ [a] else out)"

definition unique_clients :: "action list \<Rightarrow> string \<Rightarrow> action list" where
  "unique_clients actions kind = fold (unique_step kind) actions []"

definition asked_stores :: "action list \<Rightarrow> string \<Rightarrow> string list" where
  "asked_stores actions c = map ac_store (filter (\<lambda>a. ac_kind a = ''trim'' \<and> ac_client a = Some c) actions)"

definition asked_clients :: "action list \<Rightarrow> string list" where
  "asked_clients actions = sorted_set (List.map_filter ac_client (filter (\<lambda>a. ac_kind a = ''trim'') actions))"

text \<open>\<open>finals.setdefault(a.client, a.policy)\<close>: the first final action's policy.\<close>

definition final_policy_of :: "action list \<Rightarrow> string \<Rightarrow> string option option" where
  "final_policy_of actions c =
     (case filter (\<lambda>a. ac_kind a = ''final'' \<and> ac_client a = Some c) actions of
        [] \<Rightarrow> None | a # _ \<Rightarrow> Some (ac_policy a))"

text \<open>The bytes a client is asked to fit: its target on each store asked, its holding elsewhere.\<close>

definition fit_bytes ::
  "(string, (string, int) dict) dict \<Rightarrow> (string \<times> string, holding) dict \<Rightarrow> string list \<Rightarrow> string \<Rightarrow> int" where
  "fit_bytes targets holdings asked c = (\<Sum>((hc, sname), h) \<leftarrow> filter (\<lambda>((hc, s), h). hc = c) holdings.
     if sname \<in> set asked then dget (dget targets sname []) c 0 else holding_total h)"

definition or_policy :: "string option \<Rightarrow> string option \<Rightarrow> string option" where
  "or_policy p q = (case p of Some s \<Rightarrow> if s \<noteq> [] then p else q | None \<Rightarrow> q)"

type_synonym trim_state = "(string, trim_record) dict \<times> (string, rat) dict"

definition trim_reply :: "runners \<Rightarrow> string \<Rightarrow> int \<Rightarrow> client_answer" where
  "trim_reply r c fit = (case rn_binary_for r c of Some b \<Rightarrow> rn_call_trim r b fit
     | None \<Rightarrow> fail_answer ''binary not found'' False)"

definition final_reply :: "runners \<Rightarrow> string \<Rightarrow> int \<Rightarrow> string option \<Rightarrow> client_answer" where
  "final_reply r c fit policy = (case rn_binary_for r c of Some b \<Rightarrow> rn_call_final r b fit policy
     | None \<Rightarrow> fail_answer ''binary not found'' False)"

text \<open>The first trim answer suffices when it is ok and the client reports that it fits.\<close>

definition now_fits :: "client_answer \<Rightarrow> int \<Rightarrow> bool" where
  "now_fits ans fit \<longleftrightarrow> ca_ok ans \<and> (case ca_held_bytes ans of Some h \<Rightarrow> h \<le> fit | None \<Rightarrow> False)"

definition trim_client ::
  "runners \<Rightarrow> config \<Rightarrow> rat \<Rightarrow> action list \<Rightarrow> (string, (string, int) dict) dict \<Rightarrow>
   (string \<times> string, holding) dict \<Rightarrow> string list \<Rightarrow> string \<Rightarrow> trim_state \<times> call list \<Rightarrow> trim_state \<times> call list" where
  "trim_client r cfg t actions targets holdings stopped c = (\<lambda>(st, calls).
     if c \<in> set stopped then (st, calls)
     else let fit = fit_bytes targets holdings (asked_stores actions c) c;
              found = rn_binary_for r c \<noteq> None;
              ans = trim_reply r c fit;
              calls1 = (if found then calls @ [TrimCall c fit] else calls);
              st1 = record_answer c ans t st
          in case final_policy_of actions c of
               None \<Rightarrow> (st1, calls1)
             | Some pol \<Rightarrow>
                 if now_fits ans fit then (st1, calls1)
                 else let policy = or_policy pol (map_of (cf_directives cfg) c)
                      in (record_answer c (final_reply r c fit policy) t st1,
                          if found then calls1 @ [FinalCall c fit policy] else calls1))"

definition act_trims ::
  "runners \<Rightarrow> config \<Rightarrow> rat \<Rightarrow> action list \<Rightarrow> (string, (string, int) dict) dict \<Rightarrow>
   (string \<times> string, holding) dict \<Rightarrow> string list \<Rightarrow> trim_state \<Rightarrow> trim_state \<times> call list" where
  "act_trims r cfg t actions targets holdings stopped st =
     fold (trim_client r cfg t actions targets holdings stopped) (asked_clients actions) (st, [])"

section \<open>The pass\<close>

record stop_note =
  sn_at :: rat
  sn_store :: string
  sn_reason :: string
  sn_detail :: string

datatype tick_msg =
    LadderMsg ladder_msg
  | ConfigMsg problem
  | MarkUnknownMsg mark_fault
  | StoreMissingMsg string
  | IdleOverMsg string string int
  | WouldStopMsg string string stage int "int option" bool
  | StopFailedMsg string string string
  | StoppedMsg string stop_note

type_synonym tick_alarms = "(string, severity \<times> tick_msg) dict"

record tick_state =
  ts_trims :: pyval
  ts_stopped :: "(string, stop_note) dict"
  ts_du :: cache
  ts_recent :: cache
  ts_history :: "(string, pyval list) dict"
  ts_stages :: "(string, stage) dict"
  ts_last_cleanup :: rat
  ts_last_unclaimed :: rat

text \<open>The observations of one pass: the views and stores, the pool's store with the number of
  machines on it, the fault of its report and whether one is expected.\<close>

record tick_in =
  ti_now :: rat
  ti_cfg :: config
  ti_views :: "(string, client_view) dict"
  ti_stores :: "store list"
  ti_faults :: "string list"
  ti_pool :: "(store \<times> nat) option"
  ti_report_fault :: "string option"
  ti_report_expected :: bool
  ti_state :: tick_state

subsection \<open>Holdings\<close>

record gathered =
  ga_regs :: "registration list"
  ga_holdings :: "(string \<times> string, holding) dict"
  ga_reported :: "(string \<times> string, int) dict"
  ga_du :: cache
  ga_du_used :: "string list"

definition demote :: "registration \<Rightarrow> registration" where
  "demote x = x\<lparr>rg_floor_bytes := 0, rg_policy := None, rg_managed := False\<rparr>"

definition measured_holding ::
  "runners \<Rightarrow> rat \<Rightarrow> string \<Rightarrow> registration list \<Rightarrow> registration \<Rightarrow> gathered \<Rightarrow> gathered" where
  "measured_holding r t c cregs x g =
     (let (n, du) = measure_client cregs (rn_path_bytes r) (ga_du g) t c (rg_store x) False
      in g\<lparr>ga_holdings := AList.update (c, rg_store x) \<lparr>hd_client = c, hd_store = rg_store x,
             hd_bytes_by_class = [(''unclassified'', n)], hd_estimated = True\<rparr> (ga_holdings g),
           ga_du := du, ga_du_used := cache_key c (rg_store x) # ga_du_used g\<rparr>)"

definition reported_holding ::
  "string \<Rightarrow> client_answer \<Rightarrow> registration \<Rightarrow> gathered \<Rightarrow> gathered" where
  "reported_holding c a x g =
     g\<lparr>ga_holdings := AList.update (c, rg_store x) \<lparr>hd_client = c, hd_store = rg_store x,
         hd_bytes_by_class = ca_bytes_by_class a, hd_estimated = False\<rparr> (ga_holdings g),
       ga_reported := (case ca_written a of None \<Rightarrow> ga_reported g
         | Some w \<Rightarrow> AList.update (c, rg_store x) w (ga_reported g))\<rparr>"

definition holding_step ::
  "runners \<Rightarrow> rat \<Rightarrow> string \<Rightarrow> client_answer option \<Rightarrow> registration list \<Rightarrow> registration \<Rightarrow> gathered \<Rightarrow> gathered" where
  "holding_step r t c ans cregs x g = (case ans of
       Some a \<Rightarrow> if ca_ok a \<and> length cregs = 1 then reported_holding c a x g
         else measured_holding r t c cregs x g
     | None \<Rightarrow> measured_holding r t c cregs x g)"

definition holdings_answer :: "runners \<Rightarrow> string \<Rightarrow> client_answer" where
  "holdings_answer r c = (case rn_binary_for r c of
     Some b \<Rightarrow> rn_call_holdings r b | None \<Rightarrow> fail_answer ''binary not found'' False)"

text \<open>The body of the loop over clients: the answer of a managed client, the demotion of one that
  does not know the verb, then its stores.\<close>

definition gather_client :: "runners \<Rightarrow> rat \<Rightarrow> registration list \<Rightarrow> string \<Rightarrow> gathered \<Rightarrow> gathered" where
  "gather_client r t regs c g =
     (let own = filter (\<lambda>x. rg_client x = c) regs;
          a = holdings_answer r c;
          asked = list_ex rg_managed own;
          cregs = (if asked \<and> ca_unsupported a then map demote own else own);
          ans = (if asked \<and> \<not> ca_unsupported a then Some a else None)
      in fold (holding_step r t c ans cregs) cregs (g\<lparr>ga_regs := ga_regs g @ cregs\<rparr>))"

definition gather :: "runners \<Rightarrow> rat \<Rightarrow> registration list \<Rightarrow> cache \<Rightarrow> gathered" where
  "gather r t regs du =
     (let g = fold (gather_client r t regs) (sorted_set (map rg_client regs))
          \<lparr>ga_regs = [], ga_holdings = [], ga_reported = [], ga_du = du, ga_du_used = []\<rparr>
      in g\<lparr>ga_du := filter (\<lambda>(k, v). k \<in> set (ga_du_used g)) (ga_du g)\<rparr>)"

subsection \<open>Rates\<close>

type_synonym rate_table = "(string \<times> string, rat \<times> string) dict"

definition rate_step ::
  "runners \<Rightarrow> rat \<Rightarrow> registration list \<Rightarrow> (string \<times> string, int) dict \<Rightarrow> registration \<Rightarrow>
   cache \<times> string list \<times> rate_table \<Rightarrow> cache \<times> string list \<times> rate_table" where
  "rate_step r t regs reported x = (\<lambda>(recent, used, rates).
     let key = (rg_client x, rg_store x);
         rep = map_of reported key;
         (mc_opt, recent', used') = (case (rep, rn_recent_writes r) of
             (None, Some rw) \<Rightarrow>
               let (mc, rec') = recent_client regs rw recent t (rg_client x) (rg_store x) False
               in (Some mc, rec', cache_key (rg_client x) (rg_store x) # used)
           | _ \<Rightarrow> (None, recent, used))
     in (recent', used', AList.update key
           (rate_for rep (map_option fst mc_opt) (Some (rg_mb_per_day x))) rates))"

definition rates_of ::
  "runners \<Rightarrow> rat \<Rightarrow> registration list \<Rightarrow> (string \<times> string, int) dict \<Rightarrow> cache \<Rightarrow> cache \<times> rate_table" where
  "rates_of r t regs reported recent =
     (let (recent', used, rates) = fold (rate_step r t regs reported) regs (recent, [], [])
      in (filter (\<lambda>(k, v). k \<in> set used) recent', rates))"

subsection \<open>Allotments\<close>

definition registered_on :: "(string \<times> string, holding) dict \<Rightarrow> string \<Rightarrow> int" where
  "registered_on holdings name = (\<Sum>((c, s), h) \<leftarrow> filter (\<lambda>((c, s), h). s = name) holdings. holding_total h)"

definition store_demands ::
  "config \<Rightarrow> registration list \<Rightarrow> rate_table \<Rightarrow> string \<Rightarrow> demand list" where
  "store_demands cfg regs rates name = map (\<lambda>x.
       \<lparr>dm_client = rg_client x, dm_floor_bytes = rg_floor_bytes x,
        dm_rate = fst (dget rates (rg_client x, rg_store x) (0, [])),
        dm_weight = dget (cf_shares cfg) (rg_client x) 1, dm_max_days = rg_max_days x\<rparr>)
     (filter (\<lambda>x. rg_store x = name) regs)"

definition pool_share_of :: "config \<Rightarrow> nat \<Rightarrow> rat" where
  "pool_share_of cfg vms = (case cf_pool_share cfg of Some s \<Rightarrow> s
     | None \<Rightarrow> if 0 < vms then 1 / of_nat vms else 1)"

definition own_allottable :: "config \<Rightarrow> (string \<times> string, holding) dict \<Rightarrow> store \<Rightarrow> int" where
  "own_allottable cfg holdings s = allottable_bytes s (cf_levels cfg) (registered_on holdings (st_name s))
     (if st_mount s = ''/'' then STATE_RESERVE_BYTES else 0)"

definition limited_allottable ::
  "config \<Rightarrow> (store \<times> nat) option \<Rightarrow> (string \<times> string, holding) dict \<Rightarrow> store \<Rightarrow> int" where
  "limited_allottable cfg pool holdings s = (case pool of
       Some (p, vms) \<Rightarrow> if st_name s \<noteq> ARCHIVE_STORE then
           apply_pool_limit (own_allottable cfg holdings s) (registered_on holdings (st_name s))
             (pool_room_bytes p (cf_levels cfg) (pool_share_of cfg vms))
         else own_allottable cfg holdings s
     | None \<Rightarrow> own_allottable cfg holdings s)"

definition store_allotment ::
  "config \<Rightarrow> (store \<times> nat) option \<Rightarrow> (string \<times> string, holding) dict \<Rightarrow> registration list \<Rightarrow> rate_table \<Rightarrow>
   store \<Rightarrow> py_error + allotments" where
  "store_allotment cfg pool holdings regs rates s =
     (let own = own_allottable cfg holdings s;
          allottable = limited_allottable cfg pool holdings s;
          ds = store_demands cfg regs rates (st_name s)
      in ebind (allot_days ds allottable) (\<lambda>al.
           if \<not> al_floors_fit al \<and> allottable < own then
             ebind (allot_days ds own) (\<lambda>alone. Inr (if al_floors_fit alone then al\<lparr>al_pool_caused := True\<rparr> else al))
           else Inr al))"

fun allot_stores ::
  "(store \<Rightarrow> py_error + allotments) \<Rightarrow> store list \<Rightarrow> py_error + (string, allotments) dict" where
  "allot_stores f [] = Inr []"
| "allot_stores f (s # ss) = ebind (f s) (\<lambda>al. ebind (allot_stores f ss) (\<lambda>als. Inr ((st_name s, al) # als)))"

fun churn_stores ::
  "(string, (rat \<times> rat) list) dict \<Rightarrow> py_error + (string, rat option) dict" where
  "churn_stores [] = Inr []"
| "churn_stores ((name, pts) # h) =
     ebind (churn_bytes_per_h pts) (\<lambda>g. ebind (churn_stores h) (\<lambda>gs. Inr ((name, g) # gs)))"

subsection \<open>The stop lever\<close>

text \<open>Who sits over its target on a store under pressure, and at FINAL.\<close>

definition over_at ::
  "(string, store) dict \<Rightarrow> decision \<Rightarrow> (string \<times> string, holding) dict \<Rightarrow> stage \<Rightarrow> string list" where
  "over_at stores d holdings lowest = sorted_set (concat (map (\<lambda>(sname, tgt).
     let stage = dget (dc_stages d) sname OK in
     if (case map_of stores sname of Some s \<Rightarrow> st_kind s = ''pool'' | None \<Rightarrow> False) \<or> stage < TIGHTEN \<or> stage < lowest
     then [] else map fst (filter (\<lambda>(c, target). case map_of holdings (c, sname) of
         None \<Rightarrow> False | Some h \<Rightarrow> holding_total h > target) tgt)) (dc_targets d)))"

record stop_env =
  se_runners :: runners
  se_cfg :: config
  se_regs :: "registration list"
  se_holdings :: "(string \<times> string, holding) dict"
  se_decision :: decision
  se_trims :: "(string, trim_record) dict"
  se_du_before :: cache
  se_now :: rat

record stop_state =
  ss_du :: cache
  ss_recent :: cache
  ss_stopped :: "(string, stop_note) dict"
  ss_alarms :: tick_alarms
  ss_calls :: "string list"

definition is_managed :: "stop_env \<Rightarrow> string \<Rightarrow> bool" where
  "is_managed e c \<longleftrightarrow> list_ex (\<lambda>x. rg_managed x \<and> rg_client x = c) (se_regs e)"

definition answered_ok :: "stop_env \<Rightarrow> string \<Rightarrow> bool" where
  "answered_ok e c = (case map_of (se_trims e) c of None \<Rightarrow> False | Some rec \<Rightarrow> tr_ok rec)"

definition stop_target :: "stop_env \<Rightarrow> string \<Rightarrow> string \<Rightarrow> int option" where
  "stop_target e store c = map_of (dget (dc_targets (se_decision e)) store []) c"

definition stop_held :: "stop_env \<Rightarrow> string \<Rightarrow> string \<Rightarrow> int" where
  "stop_held e store c = (case map_of (se_holdings e) (c, store) of None \<Rightarrow> 0 | Some h \<Rightarrow> holding_total h)"

definition du_earlier :: "stop_env \<Rightarrow> string \<Rightarrow> string \<Rightarrow> int option" where
  "du_earlier e store c = (case map_of (se_du_before e) (cache_key c store) of
     Some (PDict d) \<Rightarrow> if py_get d ''paths'' = paths_val (client_paths (se_regs e) c store)
       then int_like (py_get d ''bytes'') else None
   | _ \<Rightarrow> None)"

definition measure_late :: "stop_env \<Rightarrow> cache \<Rightarrow> string \<Rightarrow> string \<Rightarrow> int \<times> cache" where
  "measure_late e du store c =
     measure_client (se_regs e) (rn_path_bytes_late (se_runners e)) du (se_now e) c store True"

text \<open>The lever itself: off, it raises the alarm; on, it stops the client or says that it could
  not.\<close>

definition pull_lever :: "stop_env \<Rightarrow> string \<Rightarrow> string \<Rightarrow> stop_state \<Rightarrow> stop_state" where
  "pull_lever e store c s =
     (if \<not> cf_stop_enabled (se_cfg e) then
        s\<lparr>ss_alarms := AList.update (''would-stop:'' @ c) (CRITICAL,
          WouldStopMsg store c (dget (dc_stages (se_decision e)) store OK) (stop_held e store c)
            (stop_target e store c) (is_managed e c)) (ss_alarms s)\<rparr>
      else let (ok, why) = rn_stop_client (se_runners e) c;
               s = s\<lparr>ss_calls := ss_calls s @ [c]\<rparr>
           in if ok then s\<lparr>ss_stopped := AList.update c \<lparr>sn_at = se_now e, sn_store = store,
                 sn_reason = (if is_managed e c then ''it failed to answer a trim request''
                   else ''it is unmanaged and sat over its target at FINAL''), sn_detail = why\<rparr> (ss_stopped s)\<rparr>
              else s\<lparr>ss_alarms := AList.update (''stop-failed:'' @ c)
                 (CRITICAL, StopFailedMsg store c why) (ss_alarms s)\<rparr>)"

text \<open>The idle check: a client that changed no file in 24 h and whose size has not grown is
  spared.\<close>

definition idle_check ::
  "stop_env \<Rightarrow> string \<Rightarrow> string \<Rightarrow> int option \<Rightarrow> stop_state \<Rightarrow> bool \<times> stop_state" where
  "idle_check e store c fresh s = (case (rn_recent_writes (se_runners e), du_earlier e store c) of
       (Some _, Some prev) \<Rightarrow>
         if cache_key c store \<in> set (map fst (ss_recent s)) then
           let (mc, recent) = recent_client (se_regs e) (rn_recent_writes_late (se_runners e)) (ss_recent s)
                 (se_now e) c store True;
               s = s\<lparr>ss_recent := recent\<rparr>
           in if snd mc = 0 then
                (case fresh of
                   Some n \<Rightarrow> (n \<le> prev, s)
                 | None \<Rightarrow> let (n, du) = measure_late e (ss_du s) store c in (n \<le> prev, s\<lparr>ss_du := du\<rparr>))
              else (False, s)
         else (False, s)
     | _ \<Rightarrow> (False, s))"

definition stop_one :: "stop_env \<Rightarrow> action \<Rightarrow> stop_state \<Rightarrow> stop_state" where
  "stop_one e a s = (case ac_client a of None \<Rightarrow> s | Some c \<Rightarrow>
     let store = ac_store a in
     if c \<in> set (map fst (ss_stopped s)) then s
     else if is_managed e c \<and> answered_ok e c then s
     else let (fresh, s) = (if is_managed e c then (None, s)
                else let (n, du) = measure_late e (ss_du s) store c in (Some n, s\<lparr>ss_du := du\<rparr>))
          in if (case (fresh, stop_target e store c) of (Some n, Some tg) \<Rightarrow> n \<le> tg | _ \<Rightarrow> False) then s
             else let (idle, s) = idle_check e store c fresh s
                  in if idle then s\<lparr>ss_alarms := AList.update (''idle-over:'' @ c)
                         (WARNING, IdleOverMsg store c (stop_held e store c)) (ss_alarms s)\<rparr>
                     else pull_lever e store c s)"

definition stop_pass :: "stop_env \<Rightarrow> stop_state \<Rightarrow> stop_state" where
  "stop_pass e s = fold (stop_one e) (unique_clients (dc_actions (se_decision e)) ''stop'') s"

subsection \<open>Record upkeep\<close>

definition start_final :: "rat \<Rightarrow> string \<Rightarrow> (string, trim_record) dict \<Rightarrow> (string, trim_record) dict" where
  "start_final t c trims =
     (let rec = (case map_of trims c of Some r \<Rightarrow> r
        | None \<Rightarrow> \<lparr>tr_requested_at = t, tr_answered_at = None, tr_ok = False, tr_final_since = None\<rparr>)
      in AList.update c (if tr_final_since rec = None then rec\<lparr>tr_final_since := Some t\<rparr> else rec) trims)"

definition settle :: "string list \<Rightarrow> string list \<Rightarrow> (string, trim_record) dict \<Rightarrow> (string, trim_record) dict" where
  "settle pressed over_final trims =
     map (\<lambda>(c, rec). (c, if c \<in> set over_final then rec else rec\<lparr>tr_final_since := None\<rparr>))
       (filter (\<lambda>(c, rec). c \<in> set pressed) trims)"

definition upkeep :: "rat \<Rightarrow> string list \<Rightarrow> string list \<Rightarrow> trim_state \<Rightarrow> trim_state" where
  "upkeep t pressed over_final = (\<lambda>(trims, touched).
     let kept = settle pressed over_final (fold (start_final t) over_final trims)
     in (kept, fold (\<lambda>c. AList.update c t) (map fst kept) touched))"

subsection \<open>The whole pass\<close>

definition restarted_clients :: "runners \<Rightarrow> (string, stop_note) dict \<Rightarrow> string list" where
  "restarted_clients r stopped = filter (rn_client_active r) (sort (map fst stopped))"

text \<open>The name in parentheses before \<open>unreadable\<close> in a fault line.\<close>

fun fault_mount :: "string \<Rightarrow> string option" where
  "fault_mount [] = None"
| "fault_mount (c # cs) =
     (let body = takeWhile (\<lambda>x. x \<noteq> CHR '')'') cs
      in if c = CHR ''('' \<and> starts_with (drop (length body) cs) '') unreadable'' then Some body
         else fault_mount cs)"

definition opening_alarms :: "config \<Rightarrow> string list \<Rightarrow> tick_alarms" where
  "opening_alarms cfg faults =
     (let a = map (\<lambda>(i, p). (''config:'' @ string_of_int (int i), (WARNING, ConfigMsg p)))
            (enumerate 0 (cf_problems cfg));
          a = (case cf_unknown cfg of None \<Rightarrow> a
            | Some f \<Rightarrow> AList.update ''hands-off-unknown'' (ERROR, MarkUnknownMsg f) a)
      in fold (\<lambda>f. AList.update (''store-missing:'' @ (case fault_mount f of Some m \<Rightarrow> m | None \<Rightarrow> f))
           (ERROR, StoreMissingMsg f)) faults a)"

definition stopped_alarms :: "(string, stop_note) dict \<Rightarrow> tick_alarms \<Rightarrow> tick_alarms" where
  "stopped_alarms stopped a = fold (\<lambda>c. AList.update (''stopped:'' @ c)
     (CRITICAL, StoppedMsg c (the (map_of stopped c)))) (sort (map fst stopped)) a"

record tick_out =
  to_decision :: decision
  to_trims :: trim_state
  to_stopped :: "(string, stop_note) dict"
  to_du :: cache
  to_recent :: cache
  to_history :: "(string, (rat \<times> rat) list) dict"
  to_alarms :: tick_alarms
  to_calls :: "call list"
  to_stop_calls :: "string list"
  to_last_cleanup :: rat
  to_last_unclaimed :: rat

definition store_dict :: "store list \<Rightarrow> (store \<times> nat) option \<Rightarrow> (string, store) dict" where
  "store_dict ss pool = fold (\<lambda>s. AList.update (st_name s) s)
     (ss @ (case pool of Some (p, n) \<Rightarrow> [p] | None \<Rightarrow> [])) []"

definition decide_input ::
  "tick_in \<Rightarrow> gathered \<Rightarrow> (string, store) dict \<Rightarrow> (string, allotments) dict \<Rightarrow> (string, demand list) dict \<Rightarrow>
   (string, rat option) dict \<Rightarrow> (string, trim_record) dict \<Rightarrow> decide_in" where
  "decide_input i g stores allots ds growth trims =
     \<lparr>di_stores = stores, di_allotments = allots, di_holdings = ga_holdings g,
      di_registrations = ga_regs g, di_levels = cf_levels (ti_cfg i), di_trims = trims,
      di_directives = cf_directives (ti_cfg i), di_hands_off = hands_off_held (ti_cfg i) (ti_now i),
      di_host_fault = (if ti_report_expected i then ti_report_fault i else None), di_now = ti_now i,
      di_demands = Some ds, di_churn = growth, di_horizon_h = cf_horizon_h (ti_cfg i),
      di_previous = ts_stages (ti_state i)\<rparr>"

text \<open>What follows the decision.\<close>

definition finish_pass ::
  "runners \<Rightarrow> tick_in \<Rightarrow> gathered \<Rightarrow> cache \<Rightarrow> (string, store) dict \<Rightarrow> (string, (rat \<times> rat) list) dict \<Rightarrow>
   (string, stop_note) dict \<Rightarrow> trim_state \<Rightarrow> decision \<Rightarrow> tick_out" where
  "finish_pass r i g recent stores history stopped st d =
     (let cfg = ti_cfg i; t = ti_now i; holdings = ga_holdings g;
          alarms = fold (\<lambda>(k, sev, m). AList.update k (sev, LadderMsg m)) (dc_alarms d)
            (opening_alarms cfg (ti_faults i));
          pressed = over_at stores d holdings TIGHTEN;
          over_final = over_at stores d holdings FINAL;
          (st, calls) = act_trims r cfg t (dc_actions d) (dc_targets d) holdings (map fst stopped) st;
          s = stop_pass \<lparr>se_runners = r, se_cfg = cfg, se_regs = ga_regs g, se_holdings = holdings,
              se_decision = d, se_trims = fst st, se_du_before = ts_du (ti_state i), se_now = t\<rparr>
            \<lparr>ss_du = ga_du g, ss_recent = recent, ss_stopped = stopped, ss_alarms = alarms, ss_calls = []\<rparr>
      in \<lparr>to_decision = d, to_trims = upkeep t pressed over_final st, to_stopped = ss_stopped s,
          to_du = ss_du s, to_recent = ss_recent s, to_history = history,
          to_alarms = stopped_alarms (ss_stopped s) (ss_alarms s), to_calls = calls,
          to_stop_calls = ss_calls s,
          to_last_cleanup = (if list_ex (\<lambda>a. ac_kind a = ''cleanup'') (dc_actions d) \<and>
              t - ts_last_cleanup (ti_state i) \<ge> CLEANUP_EVERY_S then t else ts_last_cleanup (ti_state i)),
          to_last_unclaimed = (if t - ts_last_unclaimed (ti_state i) \<ge> UNCLAIMED_EVERY_S then t
            else ts_last_unclaimed (ti_state i))\<rparr>)"

definition tick_pass :: "runners \<Rightarrow> tick_in \<Rightarrow> py_error + tick_out" where
  "tick_pass r i =
     (let cfg = ti_cfg i; t = ti_now i; ss = ti_stores i; state = ti_state i;
          restarted = restarted_clients r (ts_stopped state);
          stopped = filter (\<lambda>(c, n). c \<notin> set restarted) (ts_stopped state);
          g = gather r t (registrations_from_views (ti_views i) ss) (ts_du state);
          (recent, rates) = rates_of r t (ga_regs g) (ga_reported g) (ts_recent state)
      in ebind (allot_stores (store_allotment cfg (ti_pool i) (ga_holdings g) (ga_regs g) rates) ss) (\<lambda>allots.
         let ds = map (\<lambda>s. (st_name s, store_demands cfg (ga_regs g) rates (st_name s))) ss;
             stores = store_dict ss (ti_pool i);
             history = history_of (ts_history state) stores t
         in ebind (churn_stores history) (\<lambda>growth.
         let (trims, touched) = load_trims t (ts_trims state);
             trims = filter (\<lambda>(c, x). c \<notin> set restarted) trims;
             touched = filter (\<lambda>(c, x). c \<notin> set restarted) touched
         in ebind (decide (decide_input i g stores allots ds growth trims)) (\<lambda>d.
            Inr (finish_pass r i g recent stores history stopped (trims, touched) d)))))"

section \<open>A fault\<close>

text \<open>The alarms \<open>_fault\<close> holds: those of the book as it stood, the fault itself, and the stops the
  pass had in hand (\<open>carry["stopped"]\<close>), which replace the book's \<open>stopped:\<close> alarms.  Messages of the
  book are its strings; \<open>show_stop\<close> is the text of a stop.\<close>

definition fault_alarms ::
  "(string \<Rightarrow> stop_note \<Rightarrow> string) \<Rightarrow> string \<Rightarrow> string book \<Rightarrow> (string, stop_note) dict option \<Rightarrow>
   (string, severity \<times> string) dict" where
  "fault_alarms show_stop msg book carry =
     (let held = map (\<lambda>(k, v). (k, (en_severity v, en_message v))) book;
          held = AList.update ''ledger-fault'' (CRITICAL, msg) held
      in case carry of None \<Rightarrow> held
         | Some stopped \<Rightarrow>
             let held = filter (\<lambda>(k, v). \<not> (starts_with k ''stopped:'' \<and>
                   drop 8 k \<notin> set (map fst stopped))) held
             in fold (\<lambda>c. AList.update (''stopped:'' @ c) (CRITICAL, show_stop c (the (map_of stopped c))))
                  (sort (map fst stopped)) held)"

section \<open>The stop lever\<close>

lemma unique_clients_props:
  "distinct (map ac_client (unique_clients as kind)) \<and>
   set (unique_clients as kind) \<subseteq> {a \<in> set as. ac_kind a = kind}"
  unfolding unique_clients_def
  by (rule fold_invariant [where Q = "\<lambda>a. a \<in> set as"]) (auto simp: unique_step_def)

lemma unique_clients_all:
  assumes "a \<in> set as" and "ac_kind a = kind"
  shows "ac_client a \<in> set (map ac_client (unique_clients as kind))"
  unfolding unique_clients_def
  by (rule fold_reaches [OF assms(1)]) (auto simp: unique_step_def assms(2))

lemma measure_late_value [simp]:
  "fst (measure_late e du store c) = rn_path_bytes_late (se_runners e) (client_paths (se_regs e) c store)"
  by (simp add: measure_late_def measure_client_def Let_def)

lemma recent_late_value:
  "fst (recent_client regs rw recent t c store True) = rw (client_paths regs c store)"
  by (cases "rw (client_paths regs c store)") (simp add: recent_client_def Let_def)

lemma recent_late_keys:
  "cache_key c store \<in> set (map fst recent) \<Longrightarrow>
     set (map fst (snd (recent_client regs rw recent t c store True))) = set (map fst recent)"
  by (cases "rw (client_paths regs c store)") (auto simp: recent_client_def Let_def dom_update image_iff)

text \<open>Idle: two fresh measures agree that the client is not growing.\<close>

definition idle_now :: "stop_env \<Rightarrow> string set \<Rightarrow> string \<Rightarrow> string \<Rightarrow> bool" where
  "idle_now e keys store c \<longleftrightarrow> rn_recent_writes (se_runners e) \<noteq> None \<and> cache_key c store \<in> keys \<and>
     snd (rn_recent_writes_late (se_runners e) (client_paths (se_regs e) c store)) = 0 \<and>
     (case du_earlier e store c of None \<Rightarrow> False
      | Some prev \<Rightarrow> rn_path_bytes_late (se_runners e) (client_paths (se_regs e) c store) \<le> prev)"

definition within_target :: "stop_env \<Rightarrow> string \<Rightarrow> string \<Rightarrow> bool" where
  "within_target e store c \<longleftrightarrow> \<not> is_managed e c \<and> (case stop_target e store c of None \<Rightarrow> False
     | Some tg \<Rightarrow> rn_path_bytes_late (se_runners e) (client_paths (se_regs e) c store) \<le> tg)"

text \<open>What one stop action does: nothing, an alarm, or a call.\<close>

definition spared :: "stop_env \<Rightarrow> stop_state \<Rightarrow> string \<Rightarrow> string \<Rightarrow> bool" where
  "spared e s store c \<longleftrightarrow> c \<in> set (map fst (ss_stopped s)) \<or> is_managed e c \<and> answered_ok e c \<or>
     within_target e store c"

lemma idle_check_result:
  assumes "\<And>n. fresh = Some n \<Longrightarrow> n = rn_path_bytes_late (se_runners e) (client_paths (se_regs e) c store)"
  shows "fst (idle_check e store c fresh s) = idle_now e (set (map fst (ss_recent s))) store c
    \<and> ss_stopped (snd (idle_check e store c fresh s)) = ss_stopped s
    \<and> ss_alarms (snd (idle_check e store c fresh s)) = ss_alarms s
    \<and> ss_calls (snd (idle_check e store c fresh s)) = ss_calls s
    \<and> set (map fst (ss_recent (snd (idle_check e store c fresh s)))) = set (map fst (ss_recent s))"
proof -
  let ?rc = "recent_client (se_regs e) (rn_recent_writes_late (se_runners e)) (ss_recent s) (se_now e) c store True"
  have v: "fst ?rc = rn_recent_writes_late (se_runners e) (client_paths (se_regs e) c store)"
    by (rule recent_late_value)
  have keys: "set (map fst (snd ?rc)) = set (map fst (ss_recent s))"
    if "cache_key c store \<in> set (map fst (ss_recent s))" using that by (rule recent_late_keys)
  obtain m du where late: "measure_late e (ss_du s) store c = (m, du)" by fastforce
  then have m: "m = rn_path_bytes_late (se_runners e) (client_paths (se_regs e) c store)"
    using measure_late_value [of e "ss_du s" store c] by simp
  obtain mc rec where rc: "?rc = (mc, rec)" by fastforce
  show ?thesis
    using assms v keys m
    by (cases fresh; cases "du_earlier e store c"; cases "rn_recent_writes (se_runners e)")
      (simp_all add: idle_check_def idle_now_def rc late Let_def)
qed

lemma pull_lever_frame:
  "ss_recent (pull_lever e store c s) = ss_recent s"
  "ss_calls (pull_lever e store c s) =
     (if cf_stop_enabled (se_cfg e) then ss_calls s @ [c] else ss_calls s)"
  "ss_stopped (pull_lever e store c s) =
     (if cf_stop_enabled (se_cfg e) \<and> fst (rn_stop_client (se_runners e) c)
      then AList.update c \<lparr>sn_at = se_now e, sn_store = store,
        sn_reason = (if is_managed e c then ''it failed to answer a trim request''
          else ''it is unmanaged and sat over its target at FINAL''),
        sn_detail = snd (rn_stop_client (se_runners e) c)\<rparr> (ss_stopped s)
      else ss_stopped s)"
  "ss_alarms (pull_lever e store c s) =
     (if cf_stop_enabled (se_cfg e)
      then if fst (rn_stop_client (se_runners e) c) then ss_alarms s
        else AList.update (''stop-failed:'' @ c)
          (CRITICAL, StopFailedMsg store c (snd (rn_stop_client (se_runners e) c))) (ss_alarms s)
      else AList.update (''would-stop:'' @ c) (CRITICAL,
          WouldStopMsg store c (dget (dc_stages (se_decision e)) store OK) (stop_held e store c)
            (stop_target e store c) (is_managed e c)) (ss_alarms s))"
  by (cases "rn_stop_client (se_runners e) c"; simp add: pull_lever_def Let_def)+

lemma stop_one_cases:
  fixes s :: stop_state
  assumes "ac_client a = Some c"
  defines "store \<equiv> ac_store a" and "R \<equiv> set (map fst (ss_recent s))"
  shows "set (map fst (ss_recent (stop_one e a s))) = R \<and>
    (if spared e s store c then
       ss_calls (stop_one e a s) = ss_calls s \<and> ss_stopped (stop_one e a s) = ss_stopped s \<and>
       ss_alarms (stop_one e a s) = ss_alarms s
     else if idle_now e R store c then
       ss_calls (stop_one e a s) = ss_calls s \<and> ss_stopped (stop_one e a s) = ss_stopped s \<and>
       ss_alarms (stop_one e a s) = AList.update (''idle-over:'' @ c)
         (WARNING, IdleOverMsg store c (stop_held e store c)) (ss_alarms s)
     else \<exists>s1. ss_calls s1 = ss_calls s \<and> ss_stopped s1 = ss_stopped s \<and> ss_alarms s1 = ss_alarms s \<and>
       stop_one e a s = pull_lever e store c s1)"
proof -
  obtain m du where late: "measure_late e (ss_du s) store c = (m, du)" by fastforce
  then have m: "m = rn_path_bytes_late (se_runners e) (client_paths (se_regs e) c store)"
    using measure_late_value [of e "ss_du s" store c] by simp
  define fresh where "fresh = (if is_managed e c then None else Some m)"
  define s1 where "s1 = (if is_managed e c then s else s\<lparr>ss_du := du\<rparr>)"
  have s1: "ss_recent s1 = ss_recent s" "ss_calls s1 = ss_calls s" "ss_stopped s1 = ss_stopped s"
    "ss_alarms s1 = ss_alarms s"
    by (simp_all add: s1_def)
  have pre: "n = rn_path_bytes_late (se_runners e) (client_paths (se_regs e) c store)" if "fresh = Some n" for n
    using that m by (simp add: fresh_def split: if_splits)
  have idle: "fst (idle_check e store c fresh s1) = idle_now e R store c"
    "ss_stopped (snd (idle_check e store c fresh s1)) = ss_stopped s"
    "ss_alarms (snd (idle_check e store c fresh s1)) = ss_alarms s"
    "ss_calls (snd (idle_check e store c fresh s1)) = ss_calls s"
    "set (map fst (ss_recent (snd (idle_check e store c fresh s1)))) = R"
    using idle_check_result [of fresh e c store s1, OF pre] by (simp_all only: s1 R_def)
  have wt: "(case (fresh, stop_target e store c) of (Some n, Some tg) \<Rightarrow> n \<le> tg | _ \<Rightarrow> False) =
      within_target e store c"
    by (auto simp: fresh_def within_target_def m split: option.split)
  have eq: "stop_one e a s = (if c \<in> set (map fst (ss_stopped s)) \<or> is_managed e c \<and> answered_ok e c then s
      else if within_target e store c then s1
      else let (i, s2) = idle_check e store c fresh s1
           in if i then s2\<lparr>ss_alarms := AList.update (''idle-over:'' @ c)
                (WARNING, IdleOverMsg store c (stop_held e store c)) (ss_alarms s2)\<rparr>
              else pull_lever e store c s2)"
    unfolding stop_one_def assms(1) using late wt
    by (simp add: store_def [symmetric] fresh_def s1_def Let_def split del: if_split)
      (auto simp: case_prod_unfold fresh_def s1_def)
  obtain i s2 where is2: "idle_check e store c fresh s1 = (i, s2)" by fastforce
  show ?thesis
    using idle s1 unfolding eq spared_def is2 R_def Let_def by (simp add: pull_lever_frame) blast
qed

lemma stop_one_none [simp]: "ac_client a = None \<Longrightarrow> stop_one e a s = s"
  by (simp add: stop_one_def)

text \<open>The grounds of a call, given the walked clients \<open>R\<close>.\<close>

definition stop_grounds :: "stop_env \<Rightarrow> string set \<Rightarrow> string \<Rightarrow> string \<Rightarrow> bool" where
  "stop_grounds e R store c \<longleftrightarrow> cf_stop_enabled (se_cfg e) \<and> \<not> (is_managed e c \<and> answered_ok e c) \<and>
     \<not> within_target e store c \<and> \<not> idle_now e R store c"

lemma stop_one_call:
  fixes s :: stop_state
  defines "R \<equiv> set (map fst (ss_recent s))"
  shows "set (map fst (ss_recent (stop_one e a s))) = R \<and>
    ((ss_calls (stop_one e a s) = ss_calls s \<and> ss_stopped (stop_one e a s) = ss_stopped s) \<or>
     (\<exists>c. ac_client a = Some c \<and> ss_calls (stop_one e a s) = ss_calls s @ [c] \<and>
        c \<notin> set (map fst (ss_stopped s)) \<and> stop_grounds e R (ac_store a) c \<and>
        set (map fst (ss_stopped (stop_one e a s))) =
          (if fst (rn_stop_client (se_runners e) c) then {c} else {}) \<union> set (map fst (ss_stopped s))))"
proof (cases "ac_client a")
  case None
  then show ?thesis by (simp add: R_def)
next
  case (Some c)
  note cases = stop_one_cases [OF Some, where s = s and e = e]
  show ?thesis
  proof (cases "spared e s (ac_store a) c \<or> idle_now e R (ac_store a) c")
    case True
    with cases show ?thesis unfolding R_def by (auto split: if_splits)
  next
    case False
    then obtain s1 where s1: "ss_calls s1 = ss_calls s" "ss_stopped s1 = ss_stopped s"
      "stop_one e a s = pull_lever e (ac_store a) c s1"
      using cases unfolding R_def by auto
    have keys: "set (map fst (ss_recent (stop_one e a s))) = R" using cases by (simp add: R_def)
    show ?thesis
    proof (cases "cf_stop_enabled (se_cfg e)")
      case True
      with False Some s1 keys show ?thesis
        by (auto simp: pull_lever_frame spared_def stop_grounds_def dom_update simp del: image_set)
    next
      case off: False
      with s1 keys show ?thesis by (simp add: pull_lever_frame)
    qed
  qed
qed

lemma fold_stop_calls:
  assumes "distinct (map ac_client us)" and "set (map fst (ss_recent s)) = R"
  shows "\<exists>cs. ss_calls (fold (stop_one e) us s) = ss_calls s @ cs \<and> distinct cs \<and>
    (\<forall>c \<in> set cs. c \<notin> set (map fst (ss_stopped s)) \<and>
       (\<exists>a \<in> set us. ac_client a = Some c \<and> stop_grounds e R (ac_store a) c)) \<and>
    set (map fst (ss_stopped (fold (stop_one e) us s))) =
      set (map fst (ss_stopped s)) \<union> {c \<in> set cs. fst (rn_stop_client (se_runners e) c)}"
  using assms
proof (induction us arbitrary: s)
  case Nil
  then show ?case by simp
next
  case (Cons a us)
  let ?s = "stop_one e a s"
  have R: "set (map fst (ss_recent ?s)) = R" using stop_one_call [where s = s] Cons.prems(2) by simp
  from Cons.IH [OF _ R] Cons.prems(1) obtain cs where cs:
    "ss_calls (fold (stop_one e) us ?s) = ss_calls ?s @ cs" "distinct cs"
    "\<forall>c \<in> set cs. c \<notin> set (map fst (ss_stopped ?s)) \<and>
       (\<exists>a \<in> set us. ac_client a = Some c \<and> stop_grounds e R (ac_store a) c)"
    "set (map fst (ss_stopped (fold (stop_one e) us ?s))) =
      set (map fst (ss_stopped ?s)) \<union> {c \<in> set cs. fst (rn_stop_client (se_runners e) c)}"
    by auto
  have step: "fold (stop_one e) (a # us) s = fold (stop_one e) us ?s" by simp
  from stop_one_call [where s = s and e = e and a = a] show ?case
  proof (elim conjE disjE exE)
    assume "ss_calls ?s = ss_calls s" and "ss_stopped ?s = ss_stopped s"
    with cs show ?thesis unfolding step by (intro exI [of _ cs]) auto
  next
    fix c assume c: "ac_client a = Some c" "ss_calls ?s = ss_calls s @ [c]"
      "c \<notin> set (map fst (ss_stopped s))" "stop_grounds e (set (map fst (ss_recent s))) (ac_store a) c"
      "set (map fst (ss_stopped ?s)) =
        (if fst (rn_stop_client (se_runners e) c) then {c} else {}) \<union> set (map fst (ss_stopped s))"
    have "c \<notin> set cs" using cs(3) c(1) Cons.prems(1) by (force simp: image_iff)
    then have "distinct (c # cs)" using cs(2) by simp
    moreover have "ss_calls (fold (stop_one e) us ?s) = ss_calls s @ (c # cs)" using cs(1) c(2) by simp
    moreover have "\<forall>c \<in> set (c # cs). c \<notin> set (map fst (ss_stopped s)) \<and>
       (\<exists>a \<in> set (a # us). ac_client a = Some c \<and> stop_grounds e R (ac_store a) c)"
      using cs(3) c Cons.prems(2) unfolding c(5) by auto
    moreover have "set (map fst (ss_stopped (fold (stop_one e) us ?s))) =
      set (map fst (ss_stopped s)) \<union> {x \<in> set (c # cs). fst (rn_stop_client (se_runners e) x)}"
      unfolding cs(4) c(5) by auto
    ultimately show ?thesis unfolding step by blast
  qed
qed

lemma stop_one_grows:
  fixes s :: stop_state
  shows "set (map fst (ss_stopped s)) \<subseteq> set (map fst (ss_stopped (stop_one e a s))) \<and>
    set (map fst (ss_alarms s)) \<subseteq> set (map fst (ss_alarms (stop_one e a s)))"
proof (cases "ac_client a")
  case (Some d)
  note cases = stop_one_cases [OF Some, where s = s and e = e]
  show ?thesis
  proof (cases "spared e s (ac_store a) d \<or> idle_now e (set (map fst (ss_recent s))) (ac_store a) d")
    case True
    with cases show ?thesis by (auto simp: dom_update split: if_splits)
  next
    case False
    with cases obtain s1 where s1: "ss_stopped s1 = ss_stopped s" "ss_alarms s1 = ss_alarms s"
      "stop_one e a s = pull_lever e (ac_store a) d s1"
      by auto
    show ?thesis unfolding s1(3) pull_lever_frame s1(1,2) by (auto simp: dom_update)
  qed
qed simp

lemma fold_stop_one_seen:
  assumes "a \<in> set us" and "ac_client a = Some c"
    and "\<not> (is_managed e c \<and> answered_ok e c)" and "\<forall>b \<in> set us. ac_client b = Some c \<longrightarrow> b = a"
    and "\<not> within_target e (ac_store a) c"
  shows "c \<in> set (map fst (ss_stopped (fold (stop_one e) us s))) \<or>
    (\<exists>k \<in> {''would-stop:'', ''idle-over:'', ''stop-failed:''}.
       k @ c \<in> set (map fst (ss_alarms (fold (stop_one e) us s))))"
proof (rule fold_reaches [OF assms(1), where G = "\<lambda>u :: stop_state. c \<in> set (map fst (ss_stopped u)) \<or>
    (\<exists>k \<in> {''would-stop:'', ''idle-over:'', ''stop-failed:''}. k @ c \<in> set (map fst (ss_alarms u)))"])
  show "c \<in> set (map fst (ss_stopped (stop_one e a u))) \<or>
    (\<exists>k \<in> {''would-stop:'', ''idle-over:'', ''stop-failed:''}. k @ c \<in> set (map fst (ss_alarms (stop_one e a u))))" for u :: stop_state
  proof (cases "spared e u (ac_store a) c")
    case True
    with assms(3,5) have "c \<in> set (map fst (ss_stopped u))" by (auto simp: spared_def)
    with True stop_one_cases [OF assms(2), where s = u and e = e] show ?thesis by simp
  next
    case False
    show ?thesis
    proof (cases "idle_now e (set (map fst (ss_recent u))) (ac_store a) c")
      case True
      with False stop_one_cases [OF assms(2), where s = u and e = e] show ?thesis
        by (simp add: dom_update)
    next
      case busy: False
      with False stop_one_cases [OF assms(2), where s = u and e = e]
      obtain s1 where s1: "stop_one e a u = pull_lever e (ac_store a) c s1" by auto
      show ?thesis unfolding s1 by (simp add: pull_lever_frame dom_update)
    qed
  qed
next
  fix y and u :: stop_state
  assume "c \<in> set (map fst (ss_stopped u)) \<or>
    (\<exists>k \<in> {''would-stop:'', ''idle-over:'', ''stop-failed:''}. k @ c \<in> set (map fst (ss_alarms u)))"
  with stop_one_grows [of u e y] show "c \<in> set (map fst (ss_stopped (stop_one e y u))) \<or>
    (\<exists>k \<in> {''would-stop:'', ''idle-over:'', ''stop-failed:''}. k @ c \<in> set (map fst (ss_alarms (stop_one e y u))))"
    by blast
qed

section \<open>Properties\<close>


text \<open>C11. No stop is dropped in silence: for every client the decision asks to stop, either it is
  stopped afterwards, or an alarm names it (the lever is off, the stop failed, or it is idle),
  or it has answered its trim this pass, or its fresh measure fits the target.\<close>

theorem stop_never_silent:
  assumes "a \<in> set (dc_actions (se_decision e))" and "ac_kind a = ''stop''" and "ac_client a = Some c"
  shows "c \<in> set (map fst (ss_stopped (stop_pass e s))) \<or>
    (\<exists>k \<in> {''would-stop:'', ''idle-over:'', ''stop-failed:''}.
       k @ c \<in> set (map fst (ss_alarms (stop_pass e s)))) \<or>
    is_managed e c \<and> answered_ok e c \<or>
    (\<exists>b \<in> set (dc_actions (se_decision e)). ac_kind b = ''stop'' \<and> ac_client b = Some c \<and>
       within_target e (ac_store b) c)"
proof -
  let ?us = "unique_clients (dc_actions (se_decision e)) ''stop''"
  have d: "distinct (map ac_client ?us)" and sub: "set ?us \<subseteq> {a \<in> set (dc_actions (se_decision e)). ac_kind a = ''stop''}"
    using unique_clients_props by blast+
  have "Some c \<in> set (map ac_client ?us)" using unique_clients_all [OF assms(1,2)] assms(3) by simp
  then obtain b where b: "b \<in> set ?us" "ac_client b = Some c" by auto
  have unique: "\<forall>b' \<in> set ?us. ac_client b' = Some c \<longrightarrow> b' = b"
    using d b by (auto simp: distinct_map inj_on_def)
  show ?thesis
  proof (cases "is_managed e c \<and> answered_ok e c \<or> within_target e (ac_store b) c")
    case True
    with b sub show ?thesis by auto
  next
    case False
    then have "\<not> (is_managed e c \<and> answered_ok e c)" "\<not> within_target e (ac_store b) c" by blast+
    from fold_stop_one_seen [OF b this(1) unique this(2), where s = s] show ?thesis
      unfolding stop_pass_def by blast
  qed
qed

definition example_stop_env :: stop_env where
  "example_stop_env = \<lparr>se_runners = \<lparr>rn_path_bytes = (\<lambda>ps. 900), rn_path_bytes_late = (\<lambda>ps. 950),
     rn_recent_writes = None, rn_recent_writes_late = (\<lambda>ps. (0, 0)),
     rn_call_holdings = (\<lambda>b. fail_answer [] False), rn_call_trim = (\<lambda>b n. fail_answer [] False),
     rn_call_final = (\<lambda>b n p. fail_answer [] False), rn_stop_client = (\<lambda>c. (True, ''stopped'')),
     rn_binary_for = (\<lambda>c. None), rn_client_active = (\<lambda>c. True)\<rparr>,
     se_cfg = with_stop_lever default_config True, se_regs = [], se_holdings = [],
     se_decision = \<lparr>dc_stages = [(''data'', FINAL)], dc_actions = [\<lparr>ac_kind = ''stop'', ac_store = ''data'',
         ac_client = Some ''hog'', ac_fit_bytes = None, ac_policy = None\<rparr>], dc_alarms = [],
       dc_targets = [(''data'', [(''hog'', 100)])], dc_fill_stages = []\<rparr>,
     se_trims = [], se_du_before = [], se_now = 10000\<rparr>"

definition example_stop_state :: stop_state where
  "example_stop_state = \<lparr>ss_du = [], ss_recent = [], ss_stopped = [], ss_alarms = [], ss_calls = []\<rparr>"

lemma example_stop_calls:
  "ss_calls (stop_pass example_stop_env example_stop_state) = [''hog'']"
  by code_simp


theorem stop_never_silent_witness:
  "''hog'' \<in> set (map fst (ss_stopped (stop_pass example_stop_env example_stop_state)))"
proof -
  let ?a = "hd (dc_actions (se_decision example_stop_env))"
  have a: "?a \<in> set (dc_actions (se_decision example_stop_env))" "ac_kind ?a = ''stop''"
    "ac_client ?a = Some ''hog''" by (simp_all add: example_stop_env_def)
  have no: "ss_alarms (stop_pass example_stop_env example_stop_state) = []"
    "\<not> is_managed example_stop_env ''hog''"
    "list_all (\<lambda>b. \<not> within_target example_stop_env (ac_store b) ''hog'') (dc_actions (se_decision example_stop_env))"
    by code_simp+
  show ?thesis
    using stop_never_silent [OF a, of example_stop_state] no by (simp add: list_all_iff)
qed

section \<open>Trim records\<close>

definition next_record :: "client_answer \<Rightarrow> rat \<Rightarrow> trim_record option \<Rightarrow> trim_record" where
  "next_record ans now old = \<lparr>tr_requested_at = (case old of Some r \<Rightarrow> if tr_ok r then now else tr_requested_at r
       | None \<Rightarrow> now),
     tr_answered_at = Some now, tr_ok = ca_ok ans,
     tr_final_since = (case old of Some r \<Rightarrow> tr_final_since r | None \<Rightarrow> None)\<rparr>"

lemma record_answer_trims:
  "map_of (fst (record_answer c ans now st)) k =
     (if k = c then Some (next_record ans now (map_of (fst st) c)) else map_of (fst st) k)"
  by (cases st; cases "map_of (fst st) c")
    (auto simp: record_answer_def next_record_def update_conv Let_def)

definition trim_outcome ::
  "runners \<Rightarrow> config \<Rightarrow> rat \<Rightarrow> action list \<Rightarrow> int \<Rightarrow> string \<Rightarrow> trim_record option \<Rightarrow> trim_record" where
  "trim_outcome r cfg t actions fit c old =
     (let rec = next_record (trim_reply r c fit) t old
      in case final_policy_of actions c of None \<Rightarrow> rec
         | Some pol \<Rightarrow> if now_fits (trim_reply r c fit) fit then rec
             else next_record (final_reply r c fit (or_policy pol (map_of (cf_directives cfg) c))) t (Some rec))"

lemma trim_client_trims:
  "map_of (fst (fst (trim_client r cfg t actions targets holdings stopped c x))) k =
     (if k = c \<and> c \<notin> set stopped
      then Some (trim_outcome r cfg t actions (fit_bytes targets holdings (asked_stores actions c) c) c (map_of (fst (fst x)) c))
      else map_of (fst (fst x)) k)"
  by (cases x) (auto simp: trim_client_def trim_outcome_def record_answer_trims Let_def split: option.split)

lemma fold_trim_clients:
  "distinct cs \<Longrightarrow> map_of (fst (fst (fold (trim_client r cfg t actions targets holdings stopped) cs x))) k =
     (if k \<in> set cs \<and> k \<notin> set stopped
      then Some (trim_outcome r cfg t actions (fit_bytes targets holdings (asked_stores actions k) k) k (map_of (fst (fst x)) k))
      else map_of (fst (fst x)) k)"
  by (induction cs arbitrary: x) (auto simp: trim_client_trims)

text \<open>A trim streak keeps its first request: after the trim calls the record of every client asked
  (and not stopped) is answered now and carries the outcome of the last call; an unanswered
  streak keeps its \<open>requested_at\<close> as long as no call of the pass is answered ok, a new request
  starts at now, \<open>final_since\<close> is untouched, and no other client's record changes.\<close>

theorem act_trims_streaks:
  fixes k actions targets holdings r cfg t stopped st
  defines "fit \<equiv> fit_bytes targets holdings (asked_stores actions k) k"
    and "after \<equiv> map_of (fst (fst (act_trims r cfg t actions targets holdings stopped st))) k"
  shows "(k \<notin> set (asked_clients actions) \<or> k \<in> set stopped \<longrightarrow> after = map_of (fst st) k) \<and>
    (k \<in> set (asked_clients actions) \<and> k \<notin> set stopped \<longrightarrow>
      (\<exists>rec. after = Some rec \<and> tr_answered_at rec = Some t \<and>
        tr_final_since rec = (case map_of (fst st) k of None \<Rightarrow> None | Some o' \<Rightarrow> tr_final_since o') \<and>
        (tr_requested_at rec = t \<or>
          (\<exists>o'. map_of (fst st) k = Some o' \<and> \<not> tr_ok o' \<and> tr_requested_at rec = tr_requested_at o')) \<and>
        (\<forall>o'. map_of (fst st) k = Some o' \<and> \<not> tr_ok o' \<and> \<not> ca_ok (trim_reply r k fit) \<longrightarrow>
           tr_requested_at rec = tr_requested_at o') \<and>
        (final_policy_of actions k = None \<or> now_fits (trim_reply r k fit) fit \<longrightarrow>
           tr_ok rec = ca_ok (trim_reply r k fit))))"
proof -
  have "after = (if k \<in> set (asked_clients actions) \<and> k \<notin> set stopped
      then Some (trim_outcome r cfg t actions fit k (map_of (fst st) k)) else map_of (fst st) k)"
    unfolding after_def act_trims_def fit_def
    by (subst fold_trim_clients) (simp_all add: asked_clients_def)
  then show ?thesis
    by (auto simp: trim_outcome_def next_record_def Let_def split: option.splits if_splits)
qed

definition example_trim_actions :: "action list" where
  "example_trim_actions = [\<lparr>ac_kind = ''trim'', ac_store = ''root'', ac_client = Some ''psk'',
     ac_fit_bytes = Some 10, ac_policy = None\<rparr>]"

definition example_trim_table :: "(string, trim_record) dict" where
  "example_trim_table = [(''psk'', \<lparr>tr_requested_at = 100, tr_answered_at = None, tr_ok = False,
     tr_final_since = Some 200\<rparr>)]"

theorem act_trims_streaks_witness:
  "\<exists>rec. map_of (fst (fst (act_trims (se_runners example_stop_env) default_config 300 example_trim_actions
       [] [] [] (example_trim_table, [])))) ''psk'' = Some rec \<and> tr_requested_at rec = 100"
proof -
  have asked: "''psk'' \<in> set (asked_clients example_trim_actions)" by code_simp
  have old: "map_of (fst (example_trim_table, [] :: (string, rat) dict)) ''psk'' =
      Some \<lparr>tr_requested_at = 100, tr_answered_at = None, tr_ok = False, tr_final_since = Some 200\<rparr>"
    by (simp add: example_trim_table_def)
  have failed: "\<not> ca_ok (trim_reply (se_runners example_stop_env) ''psk'' n)" for n
    by (simp add: trim_reply_def example_stop_env_def fail_answer_def)
  show ?thesis
    using act_trims_streaks [where k = "''psk''" and actions = example_trim_actions
      and r = "se_runners example_stop_env" and cfg = default_config and t = 300 and targets = "[]"
      and holdings = "[]" and stopped = "[]" and st = "(example_trim_table, [])"] asked old failed by auto
qed

lemma fold_start_final:
  "map_of (fold (start_final t) cs trims) k =
     (if k \<in> set cs then Some (case map_of trims k of
          None \<Rightarrow> \<lparr>tr_requested_at = t, tr_answered_at = None, tr_ok = False, tr_final_since = Some t\<rparr>
        | Some rec \<Rightarrow> rec\<lparr>tr_final_since := Some (case tr_final_since rec of None \<Rightarrow> t | Some x \<Rightarrow> x)\<rparr>)
      else map_of trims k)"
proof (induction cs arbitrary: trims)
  case (Cons c cs)
  show ?case
    by (simp add: Cons.IH)
      (auto simp: start_final_def Let_def update_conv split: option.splits if_splits)
qed simp

lemma map_of_map_key: "map_of (map (\<lambda>(k, v). (k, f k v)) d) k = map_option (f k) (map_of d k)"
  by (induction d) auto

text \<open>Record upkeep follows the pressure: after it, a client has a trim record only while it sits
  over its target on a store under pressure; \<open>final_since\<close> is the first tick it did so at FINAL
  and is cleared on the first tick it does not; an existing record is otherwise unchanged, and
  every kept record is touched now, so it cannot go stale while the tick runs.\<close>

theorem upkeep_exact:
  "map_of (fst (upkeep t pressed over_final (trims, touched))) c =
     (if c \<notin> set pressed then None
      else case map_of trims c of
          None \<Rightarrow> if c \<in> set over_final
            then Some \<lparr>tr_requested_at = t, tr_answered_at = None, tr_ok = False, tr_final_since = Some t\<rparr>
            else None
        | Some rec \<Rightarrow> Some (rec\<lparr>tr_final_since := if c \<in> set over_final
            then Some (case tr_final_since rec of None \<Rightarrow> t | Some x \<Rightarrow> x) else None\<rparr>))
   \<and> (map_of (fst (upkeep t pressed over_final (trims, touched))) c \<noteq> None \<longrightarrow>
        map_of (snd (upkeep t pressed over_final (trims, touched))) c = Some t)"
proof -
  let ?k = "settle pressed over_final (fold (start_final t) over_final trims)"
  have kept: "map_of ?k c = (if c \<notin> set pressed then None
      else case map_of trims c of
          None \<Rightarrow> if c \<in> set over_final
            then Some \<lparr>tr_requested_at = t, tr_answered_at = None, tr_ok = False, tr_final_since = Some t\<rparr>
            else None
        | Some rec \<Rightarrow> Some (rec\<lparr>tr_final_since := if c \<in> set over_final
            then Some (case tr_final_since rec of None \<Rightarrow> t | Some x \<Rightarrow> x) else None\<rparr>))"
    unfolding settle_def map_of_map_key map_of_filter_key fold_start_final by (auto split: option.split)
  have "map_of (fold (\<lambda>c. AList.update c t) cs d) c = (if c \<in> set cs then Some t else map_of d c)" for cs d
    by (induction cs arbitrary: d) (auto simp: update_conv)
  moreover have "map_of ?k c \<noteq> None \<Longrightarrow> c \<in> set (map fst ?k)" by (simp only: keys_iff_map_of) blast
  ultimately show ?thesis using kept by (simp add: upkeep_def Let_def)
qed

theorem upkeep_exact_witness:
  "map_of (snd (upkeep 500 [''psk''] [] (example_trim_table, []))) ''psk'' = Some 500"
proof -
  have "map_of (fst (upkeep 500 [''psk''] [] (example_trim_table, []))) ''psk'' \<noteq> None" by code_simp
  then show ?thesis using upkeep_exact [of 500 "[''psk'']" "[]" example_trim_table "[]" "''psk''"] by simp
qed

section \<open>The whole pass and its persistence\<close>

lemma allot_stores_total:
  "\<exists>als. allot_stores (store_allotment cfg pool holdings regs rates) ss = Inr als \<and> map fst als = map st_name ss"
proof (induction ss)
  case (Cons s ss)
  obtain al where al: "allot_days (store_demands cfg regs rates (st_name s)) (limited_allottable cfg pool holdings s) = Inr al"
    using allot_days_total by blast
  obtain alone where "allot_days (store_demands cfg regs rates (st_name s)) (own_allottable cfg holdings s) = Inr alone"
    using allot_days_total by blast
  with al have "\<exists>al'. store_allotment cfg pool holdings regs rates s = Inr al'"
    by (simp add: store_allotment_def Let_def)
  with Cons show ?case by auto
qed simp

lemma churn_stores_total: "\<exists>g. churn_stores h = Inr g"
proof (induction h)
  case (Cons x h)
  obtain name pts where "x = (name, pts)" by (cases x)
  moreover obtain g where "churn_bytes_per_h pts = Inr g" using churn_returns by blast
  ultimately show ?case using Cons by auto
qed simp

lemma stop_actions_not_held:
  assumes "decide e = Inr d" and "a \<in> set (dc_actions d)" and "ac_kind a = ''stop''"
  shows "\<not> di_hands_off e"
proof -
  have "action_ok e a" using decide_inv [OF assms(1)] assms(2) by blast
  with assms(3) show ?thesis by (auto simp: action_ok_def client_action_ok_def)
qed

lemma fold_update_keys:
  "set (map fst (fold (\<lambda>c. AList.update (h c) (f c)) cs a)) = set (map fst a) \<union> h ` set cs"
  by (induction cs arbitrary: a) (simp_all add: dom_update)

lemma fold_update_distinct:
  "distinct (map fst a) \<Longrightarrow> distinct (map fst (fold (\<lambda>c. AList.update (h c) (f c)) cs a))"
  by (induction cs arbitrary: a) (simp_all add: distinct_update)

lemma tick_pass_cases:
  obtains g recent rates stores history trims touched d allots growth where
    "decide (decide_input i g stores allots (map (\<lambda>s. (st_name s, store_demands (ti_cfg i) (ga_regs g) rates (st_name s)))
       (ti_stores i)) growth trims) = Inr d"
    "tick_pass r i = Inr (finish_pass r i g recent stores history
       (filter (\<lambda>(c, n). c \<notin> set (restarted_clients r (ts_stopped (ti_state i)))) (ts_stopped (ti_state i)))
       (trims, touched) d)"
proof -
  define g where "g = gather r (ti_now i) (registrations_from_views (ti_views i) (ti_stores i)) (ts_du (ti_state i))"
  obtain recent rates where rr: "rates_of r (ti_now i) (ga_regs g) (ga_reported g) (ts_recent (ti_state i)) = (recent, rates)"
    by fastforce
  obtain allots where al: "allot_stores (store_allotment (ti_cfg i) (ti_pool i) (ga_holdings g) (ga_regs g) rates)
      (ti_stores i) = Inr allots" "map fst allots = map st_name (ti_stores i)"
    using allot_stores_total by blast
  define stores where "stores = store_dict (ti_stores i) (ti_pool i)"
  define history where "history = history_of (ts_history (ti_state i)) stores (ti_now i)"
  obtain growth where gr: "churn_stores history = Inr growth" using churn_stores_total by blast
  obtain trims0 touched0 where tt: "load_trims (ti_now i) (ts_trims (ti_state i)) = (trims0, touched0)" by fastforce
  define restarted where "restarted = restarted_clients r (ts_stopped (ti_state i))"
  define trims where "trims = filter (\<lambda>(c, x). c \<notin> set restarted) trims0"
  define touched where "touched = filter (\<lambda>(c, x). c \<notin> set restarted) touched0"
  let ?ds = "map (\<lambda>s. (st_name s, store_demands (ti_cfg i) (ga_regs g) rates (st_name s))) (ti_stores i)"
  let ?e = "decide_input i g stores allots ?ds growth trims"
  have "\<forall>n \<in> set (map fst (di_allotments ?e)). map_of ?ds n \<noteq> None"
  proof
    fix n assume "n \<in> set (map fst (di_allotments ?e))"
    then have "n \<in> set (map fst ?ds)" using al(2) by (simp add: decide_input_def comp_def)
    then show "map_of ?ds n \<noteq> None" by (simp only: keys_iff_map_of) blast
  qed
  moreover have "di_demands ?e = Some ?ds" by (simp add: decide_input_def)
  ultimately obtain d where d: "decide ?e = Inr d" using decide_returns by blast
  have "tick_pass r i = Inr (finish_pass r i g recent stores history
       (filter (\<lambda>(c, n). c \<notin> set restarted) (ts_stopped (ti_state i))) (trims, touched) d)"
    unfolding tick_pass_def Let_def g_def [symmetric] rr
    using al(1) gr tt d
    by (simp add: restarted_def [symmetric] trims_def touched_def stores_def history_def)
  with d that show ?thesis unfolding restarted_def by blast
qed


definition example_views_tick :: "(string, client_view) dict" where
  "example_views_tick = [(''hog'', \<lparr>cv_contract_version = ''0.1'', cv_instances =
     [\<lparr>iv_data_sinks = [], iv_disk_writes =
        [\<lparr>dw_path = ''/var/hog'', dw_mb_per_day = DInt 1, dw_retention_days = DInt 0\<rparr>]\<rparr>]\<rparr>)]"

definition example_runners :: runners where
  "example_runners = \<lparr>rn_path_bytes = (\<lambda>ps. 900), rn_path_bytes_late = (\<lambda>ps. 950),
     rn_recent_writes = None, rn_recent_writes_late = (\<lambda>ps. (0, 0)),
     rn_call_holdings = (\<lambda>b. fail_answer [] False), rn_call_trim = (\<lambda>b n. fail_answer [] False),
     rn_call_final = (\<lambda>b n p. fail_answer [] False), rn_stop_client = (\<lambda>c. (True, ''stopped'')),
     rn_binary_for = (\<lambda>c. None), rn_client_active = (\<lambda>c. True)\<rparr>"

definition example_tick :: tick_in where
  "example_tick = \<lparr>ti_now = 10000, ti_cfg = with_stop_lever default_config True,
     ti_views = example_views_tick, ti_stores = [\<lparr>st_name = ''data'', st_mount = ''/var'', st_kind = ''guest'',
       st_capacity = 1000, st_used = 990\<rparr>], ti_faults = [], ti_pool = None, ti_report_fault = None,
     ti_report_expected = False, ti_state = \<lparr>ts_trims = PDict [(''hog'', PDict
         [(''requested_at'', PFloat (Fin 8000)), (''final_since'', PFloat (Fin 8500)),
          (''touched'', PFloat (Fin 9900))])],
       ts_stopped = [], ts_du = [], ts_recent = [], ts_history = [], ts_stages = [],
       ts_last_cleanup = 0, ts_last_unclaimed = 0\<rparr>\<rparr>"

lemma example_tick_stops:
  "(case tick_pass example_runners example_tick of Inr out \<Rightarrow> to_stop_calls out | Inl _ \<Rightarrow> []) = [''hog'']"
  by code_simp


lemma map_of_sort_keys: "distinct (map fst d) \<Longrightarrow> map_of (sort_key fst d) k = map_of d k"
  by (rule fun_cong, rule iffD2 [OF map_of_inject_set]) (simp_all add: distinct_map)

lemma fold_load_trims:
  "distinct (map fst items) \<Longrightarrow>
     map_of (fst (fold (\<lambda>(client, v) (trims, touched). case load_trim now v of
         None \<Rightarrow> (trims, touched)
       | Some (rec, at_time) \<Rightarrow> (AList.update client rec trims, AList.update client at_time touched)) items x)) k =
     (case Option.bind (map_of items k) (load_trim now) of Some (rec, l) \<Rightarrow> Some rec | None \<Rightarrow> map_of (fst x) k)"
proof (induction items arbitrary: x)
  case (Cons cv items)
  obtain c v where cv: "cv = (c, v)" by (cases cv)
  obtain tr tc where x: "x = (tr, tc)" by (cases x)
  have notin: "map_of items c = None" using Cons.prems by (simp add: cv map_of_eq_None_iff)
  show ?case
    using Cons.IH Cons.prems notin
    by (cases "load_trim now v") (auto simp: cv x update_conv split: option.split)
qed simp

lemma load_dumped_trim:
  "load_trim now (PDict [(''requested_at'', PFloat (Fin (tr_requested_at x))), (''answered_at'', opt_val (tr_answered_at x)),
      (''ok'', PBool (tr_ok x)), (''final_since'', opt_val (tr_final_since x)), (''touched'', PFloat (Fin at_time))]) =
     (let l = latest (tr_requested_at x) (tr_answered_at x) (Some at_time) in
      if now - l > STALE_TRIM_S \<or> l > now + 300 then None else Some (x, l))"
proof -
  have "tick_num (opt_val y) = y" for y by (cases y) (simp_all add: opt_val_def)
  then show ?thesis by (simp add: load_trim_def py_get_def dget_def Let_def)
qed

text \<open>Trim records survive the state file: a record dumped by one pass is read back unchanged by a
  later one unless its last request, answer or touch is more than an hour old (a streak left by
  a ledger that stopped) or more than five minutes in the future; no other record appears.\<close>

theorem trims_round_trip:
  assumes "distinct (map fst trims)"
  shows "map_of (fst (load_trims now (dump_trims t trims touched))) c = (case map_of trims c of
      None \<Rightarrow> None
    | Some x \<Rightarrow> let l = latest (tr_requested_at x) (tr_answered_at x) (Some (dget touched c t)) in
        if now - l > STALE_TRIM_S \<or> l > now + 300 then None else Some x)"
proof -
  let ?row = "\<lambda>c x. PDict [(''requested_at'', PFloat (Fin (tr_requested_at x))),
      (''answered_at'', opt_val (tr_answered_at x)), (''ok'', PBool (tr_ok x)),
      (''final_since'', opt_val (tr_final_since x)), (''touched'', PFloat (Fin (dget touched c t)))]"
  have keys: "map fst (map (\<lambda>(c, x). (c, ?row c x)) (sort_key fst trims)) = map fst (sort_key fst trims)"
    by (simp add: case_prod_unfold)
  have d: "distinct (map fst (map (\<lambda>(c, x). (c, ?row c x)) (sort_key fst trims)))"
    unfolding keys using assms by (simp add: distinct_map)
  have row: "map_of (map (\<lambda>(c, x). (c, ?row c x)) (sort_key fst trims)) c = map_option (?row c) (map_of trims c)"
    using map_of_map_key [of ?row "sort_key fst trims" c] map_of_sort_keys [OF assms, of c] by simp
  show ?thesis
    unfolding load_trims_def dump_trims_def pyval.case fold_load_trims [OF d] row
    by (cases "map_of trims c") (simp_all add: load_dumped_trim Let_def)
qed

theorem trims_round_trip_witness:
  "map_of (fst (load_trims 500 (dump_trims 400 example_trim_table []))) ''psk'' =
     map_of example_trim_table ''psk''"
proof -
  have "distinct (map fst example_trim_table)" by (simp add: example_trim_table_def)
  from trims_round_trip [OF this, of 500 400 "[]" "''psk''"] show ?thesis
    by (simp add: example_trim_table_def latest_def STALE_TRIM_S_def Let_def map_filter_def)
qed

text \<open>A fault hides nothing: when a pass fails, the alarms raised are those of the book, the fault
  itself and one \<open>stopped:\<close> alarm for each stop in hand, and the journal then clears no alarm
  other than that of a stop the pass had already found undone.\<close>

theorem fault_keeps_alarms:
  fixes show_stop msg book stopped
  assumes "distinct (map fst book)"
  defines "active \<equiv> fault_alarms show_stop msg book (Some stopped)"
  shows "distinct (map fst active) \<and>
    map_of active k =
      (if \<exists>c \<in> set (map fst stopped). k = ''stopped:'' @ c
       then Some (CRITICAL, show_stop (drop 8 k) (the (map_of stopped (drop 8 k))))
       else if starts_with k ''stopped:'' then None
       else if k = ''ledger-fault'' then Some (CRITICAL, msg)
       else map_option (\<lambda>v. (en_severity v, en_message v)) (map_of book k)) \<and>
    (\<forall>em \<in> set (snd (book_update active now book)). em_kind em = Clear \<longrightarrow>
       (\<exists>c. em_key em = ''stopped:'' @ c \<and> c \<notin> set (map fst stopped)))"
proof -
  let ?held = "AList.update ''ledger-fault'' (CRITICAL, msg) (map (\<lambda>(k, v). (k, (en_severity v, en_message v))) book)"
  let ?P = "\<lambda>k. \<not> (starts_with k ''stopped:'' \<and> drop 8 k \<notin> set (map fst stopped))"
  let ?base = "filter (\<lambda>(k, v). ?P k) ?held"
  let ?cs = "sort (map fst stopped)"
  let ?val = "\<lambda>c. (CRITICAL, show_stop c (the (map_of stopped c)))"
  have active: "active = fold (\<lambda>c. AList.update (''stopped:'' @ c) (?val c)) ?cs ?base"
    by (simp add: active_def fault_alarms_def Let_def)
  have prefix: "drop 8 (''stopped:'' @ c) = c" for c by simp
  have fold_map: "map_of (fold (\<lambda>c. AList.update (''stopped:'' @ c) (?val c)) cs a) k =
      (if \<exists>c \<in> set cs. k = ''stopped:'' @ c then Some (?val (drop 8 k)) else map_of a k)"
    for cs and a :: "(string, severity \<times> string) dict" and k
    by (induction cs arbitrary: a) (auto simp: update_conv)
  have "distinct (map fst ?held)"
    using assms(1) by (simp add: distinct_update case_prod_unfold comp_def)
  then have "distinct (map fst ?base)" by (rule distinct_map_filter)
  then have dist: "distinct (map fst active)"
    unfolding active by (rule fold_update_distinct)
  have base: "map_of ?base k = (if ?P k then if k = ''ledger-fault'' then Some (CRITICAL, msg)
      else map_option (\<lambda>v. (en_severity v, en_message v)) (map_of book k) else None)" for k
    unfolding map_of_filter_key update_conv map_of_map_key by simp
  have key: "map_of active k =
      (if \<exists>c \<in> set (map fst stopped). k = ''stopped:'' @ c
       then Some (CRITICAL, show_stop (drop 8 k) (the (map_of stopped (drop 8 k))))
       else if starts_with k ''stopped:'' then None
       else if k = ''ledger-fault'' then Some (CRITICAL, msg)
       else map_option (\<lambda>v. (en_severity v, en_message v)) (map_of book k))" for k
  proof (cases "\<exists>c \<in> set (map fst stopped). k = ''stopped:'' @ c")
    case True
    then have "\<exists>c \<in> set ?cs. k = ''stopped:'' @ c" by simp
    with True show ?thesis unfolding active fold_map by (simp only: if_True)
  next
    case False
    then have no: "\<not> (\<exists>c \<in> set ?cs. k = ''stopped:'' @ c)" by simp
    have P: "?P k \<longleftrightarrow> \<not> starts_with k ''stopped:''"
    proof
      assume P: "?P k"
      show "\<not> starts_with k ''stopped:''"
      proof
        assume s: "starts_with k ''stopped:''"
        then obtain c where "k = ''stopped:'' @ c" unfolding starts_with_iff by blast
        with P s False prefix show False by metis
      qed
    qed simp
    show ?thesis unfolding active fold_map base if_not_P [OF no] if_not_P [OF False] P
      by (cases "starts_with k ''stopped:''") simp_all
  qed
  have clear: "\<exists>c. em_key em = ''stopped:'' @ c \<and> c \<notin> set (map fst stopped)"
    if em: "em \<in> set (snd (book_update active now book))" "em_kind em = Clear" for em
  proof -
    let ?k = "em_key em"
    have "em \<in> set (emitted ?k (snd (book_update active now book)))" using em(1) by (simp add: emitted_def)
    then obtain x where x: "key_emission (map_of active ?k) now (map_of book ?k) = Some x"
      "em = emission_of ?k x"
      unfolding book_update_key(2) [OF dist]
      by (cases "key_emission (map_of active ?k) now (map_of book ?k)") (simp_all add: opt_list_def)
    have "fst x = Clear" using arg_cong [OF x(2), of em_kind] em(2) by (simp add: emission_of_def)
    with x(1) have "map_of active ?k = None" "map_of book ?k \<noteq> None"
      by (auto simp: key_emission_def split: option.splits prod.splits if_splits)
    then have "starts_with ?k ''stopped:''" "\<not> (\<exists>c \<in> set (map fst stopped). ?k = ''stopped:'' @ c)"
      using key [of ?k] by (auto split: if_splits simp del: starts_with.simps)
    then show ?thesis unfolding starts_with_iff by blast
  qed
  from dist key clear show ?thesis by blast
qed

theorem fault_keeps_alarms_witness:
  "map_of (fault_alarms (\<lambda>c n. ''down'') ''boom'' example_book (Some [])) ''store:root'' = Some (CRITICAL, ''full'')"
proof -
  have "distinct (map fst example_book)" by code_simp
  from fault_keeps_alarms [OF this, of "\<lambda>c n. ''down''" "''boom''" "[]" "''store:root''" 0]
  show ?thesis by (simp add: example_book_def)
qed

end
