(* ===== verification/StorageMeasure.thy ===== *)
theory StorageMeasure
  imports StorageModel PyData
begin

text \<open>
  \<^verbatim>\<open>lib/sigmond/storage/measure.py\<close>, the stores of the station and the host's pool report
  (its byte counting is in \<^verbatim>\<open>StorageRates\<close>).  \<open>statvfs\<close> and the reads are inputs: a call that
  raises OSError gives its text, the report file is a value of \<open>report_file\<close>, JSON values are
  \<^typ>\<open>pyval\<close>.  \<open>as_dict\<close> is Python's \<open>dict(v)\<close> and \<open>isotime\<close> reads an ISO-8601 string.
\<close>

section \<open>Stores\<close>

record vfs =
  vf_blocks :: int
  vf_frsize :: int
  vf_bavail :: int

definition measure_store :: "string \<Rightarrow> string \<Rightarrow> string \<Rightarrow> vfs \<Rightarrow> store" where
  "measure_store name mount kind st =
     (let capacity = vf_blocks st * vf_frsize st
      in \<lparr>st_name = name, st_mount = mount, st_kind = kind, st_capacity = capacity,
          st_used = capacity - vf_bavail st * vf_frsize st\<rparr>)"

text \<open>\<open>_mountpoints\<close>: the second word of every line, \<open>\040\<close> read as a space; nothing when the file
  cannot be read.\<close>

fun unescape_space :: "string \<Rightarrow> string" where
  "unescape_space (a # b # c # d # s) =
     (if [a, b, c, d] = [CHR 0x5C, CHR ''0'', CHR ''4'', CHR ''0''] then CHR '' '' # unescape_space s
      else a # unescape_space (b # c # d # s))"
| "unescape_space s = s"

definition mountpoints :: "string list option \<Rightarrow> string list" where
  "mountpoints lines = (case lines of None \<Rightarrow> []
     | Some ls \<Rightarrow> concat (map (\<lambda>l. case split_ws l of
           w0 # w1 # ws \<Rightarrow> [unescape_space w1] | _ \<Rightarrow> []) ls))"

definition rstrip_slash :: "string \<Rightarrow> string" where
  "rstrip_slash s = rev (dropWhile (\<lambda>c. c = CHR ''/'') (rev s))"

definition under_mount :: "string \<Rightarrow> string \<Rightarrow> bool" where
  "under_mount path mount \<longleftrightarrow>
     mount = ''/'' \<or> path = mount \<or> starts_with path (rstrip_slash mount @ ''/'')"

text \<open>\<open>max(..., key=len, default="/")\<close>: the first of the longest.\<close>

definition longer :: "string \<Rightarrow> string option \<Rightarrow> string option" where
  "longer m best = (case best of None \<Rightarrow> Some m
     | Some b \<Rightarrow> if length b < length m then Some m else Some b)"

definition mount_of :: "string list \<Rightarrow> string \<Rightarrow> string" where
  "mount_of points p = (case fold longer (filter (under_mount p) points) None of
     None \<Rightarrow> ''/'' | Some m \<Rightarrow> m)"

definition add_wanted ::
  "string list \<Rightarrow> string \<Rightarrow> string \<Rightarrow> (string \<times> string \<times> string) list \<Rightarrow> (string \<times> string \<times> string) list" where
  "add_wanted points archive_mount p wanted =
     (let best = mount_of points p
      in if best = ''/'' \<or> best = archive_mount \<or> list_ex (\<lambda>w. fst (snd w) = best) wanted then wanted
         else wanted @ [(''mnt:'' @ best, best, ''guest'')])"

definition wanted_stores ::
  "string list \<Rightarrow> string \<Rightarrow> string list \<Rightarrow> (string \<times> string \<times> string) list" where
  "wanted_stores points archive_mount paths =
     fold (add_wanted points archive_mount) paths
       ((''root'', ''/'', ''guest'') #
        (if archive_mount \<in> set points then [(''archive'', archive_mount, ''guest'')] else []))"

definition measure_step ::
  "(string \<Rightarrow> string + vfs) \<Rightarrow> string \<times> string \<times> string \<Rightarrow> store list \<times> string list \<Rightarrow> store list \<times> string list" where
  "measure_step statvfs w = (\<lambda>(stores, faults). case statvfs (fst (snd w)) of
       Inr st \<Rightarrow> (stores @ [measure_store (fst w) (fst (snd w)) (snd (snd w)) st], faults)
     | Inl exc \<Rightarrow> (stores, faults @ [''store '' @ fst w @ '' ('' @ fst (snd w) @ '') unreadable: '' @ exc]))"

definition discover_stores ::
  "(string \<Rightarrow> string + vfs) \<Rightarrow> string list \<Rightarrow> string \<Rightarrow> string list \<Rightarrow> store list \<times> string list" where
  "discover_stores statvfs points archive_mount paths =
     fold (measure_step statvfs) (wanted_stores points archive_mount paths) ([], [])"

section \<open>The host report\<close>

definition HOST_REPORT_MAX_AGE_S :: rat where "HOST_REPORT_MAX_AGE_S = 900"

datatype report_file =
    ReportAbsent \<comment> \<open>no directory, or no file in it\<close>
  | ReportRefused \<comment> \<open>an OSError or ValueError of \<open>read_nofollow\<close>\<close>
  | ReportNotJson
  | ReportJson pyval

record host_report =
  hr_generated_at :: rat
  hr_name :: pyval
  hr_size :: int
  hr_used :: int
  hr_vms_on_pool :: "int list"
  hr_snapshots :: "pyval list"
  hr_host_alarm :: string

text \<open>The errors of the \<open>try\<close> block that its handler catches are \<open>ValueError []\<close> here; OverflowError
  is not among them.\<close>

definition caught :: "'a option \<Rightarrow> py_error + 'a" where
  "caught x = (case x of None \<Rightarrow> Inl (ValueError []) | Some y \<Rightarrow> Inr y)"

fun py_int :: "pyval \<Rightarrow> py_error + int" where
  "py_int (PFloat PosInf) = Inl OverflowError"
| "py_int (PFloat NegInf) = Inl OverflowError"
| "py_int v = caught (to_int v)"

fun py_iter :: "pyval \<Rightarrow> pyval list option" where
  "py_iter (PList xs) = Some xs"
| "py_iter (PStr s) = Some (map (\<lambda>c. PStr [c]) s)"
| "py_iter (PDict d) = Some (map (\<lambda>(k, v). PStr k) d)"
| "py_iter _ = None"

fun float_gt :: "pyfloat \<Rightarrow> pyfloat \<Rightarrow> bool" where
  "float_gt (Fin x) (Fin y) = (x > y)"
| "float_gt PosInf (Fin y) = True"
| "float_gt PosInf NegInf = True"
| "float_gt (Fin x) NegInf = True"
| "float_gt _ _ = False"

definition py_max :: "pyfloat \<Rightarrow> pyfloat \<Rightarrow> pyfloat" where
  "py_max a b = (if float_gt b a then b else a)"

text \<open>\<open>int(size * fill / 100)\<close>.\<close>

fun filled_bytes :: "int \<Rightarrow> pyfloat \<Rightarrow> py_error + int" where
  "filled_bytes sz (Fin x) = Inr (py_trunc (of_int sz * x / 100))"
| "filled_bytes sz NaN = Inl (ValueError [])"
| "filled_bytes sz _ = (if sz = 0 then Inl (ValueError []) else Inl OverflowError)"

definition is_one :: "pyval \<Rightarrow> bool" where
  "is_one v \<longleftrightarrow> v = PInt 1 \<or> v = PBool True \<or> v = PFloat (Fin 1)"

definition as_table :: "pyval \<Rightarrow> (string \<times> pyval) list option" where
  "as_table v = (case v of PDict d \<Rightarrow> Some d | _ \<Rightarrow> None)"

fun py_ints :: "pyval list \<Rightarrow> py_error + int list" where
  "py_ints [] = Inr []"
| "py_ints (v # vs) = ebind (py_int v) (\<lambda>n. ebind (py_ints vs) (\<lambda>ns. Inr (n # ns)))"

definition parse_time :: "(string \<Rightarrow> (rat \<times> bool) option) \<Rightarrow> pyval \<Rightarrow> rat option" where
  "parse_time isotime v = (case v of
     PStr s \<Rightarrow> (case isotime (concat (map (\<lambda>c. if c = CHR ''Z'' then ''+00:00'' else [c]) s)) of
         Some (t, aware) \<Rightarrow> if aware then Some t else None
       | None \<Rightarrow> None)
   | _ \<Rightarrow> None)"

definition build_report ::
  "(string \<Rightarrow> (rat \<times> bool) option) \<Rightarrow> (pyval \<Rightarrow> pyval option) \<Rightarrow> (pyval \<Rightarrow> string) \<Rightarrow>
   (string \<times> pyval) list \<Rightarrow> py_error + host_report" where
  "build_report isotime as_dict repr raw =
     ebind (caught (Option.bind (map_of raw ''generated_at'') (parse_time isotime))) (\<lambda>generated.
     ebind (caught (Option.bind (map_of raw ''pool'') as_table)) (\<lambda>pool.
     ebind (caught (map_of pool ''size_bytes'')) (\<lambda>sz. ebind (py_int sz) (\<lambda>size_bytes.
     ebind (caught (Option.bind (map_of pool ''data_pct'') to_float)) (\<lambda>data.
     ebind (caught (Option.bind (map_of pool ''metadata_pct'') to_float)) (\<lambda>metadata.
     ebind (caught (map_of pool ''name'')) (\<lambda>name.
     ebind (filled_bytes size_bytes (py_max data metadata)) (\<lambda>used.
     ebind (caught (py_iter (dget raw ''vms_on_pool'' (PList [])))) (\<lambda>vs. ebind (py_ints vs) (\<lambda>vms.
     ebind (caught (Option.bind (py_iter (dget raw ''snapshots'' (PList []))) (\<lambda>ss.
       if list_all (\<lambda>s. as_dict s \<noteq> None) ss then Some (map (\<lambda>s. the (as_dict s)) ss) else None))) (\<lambda>snaps.
     Inr \<lparr>hr_generated_at = generated, hr_name = name, hr_size = size_bytes, hr_used = used,
       hr_vms_on_pool = vms, hr_snapshots = snaps,
       hr_host_alarm = py_str repr (dget raw ''host_alarm'' (PStr []))\<rparr>)))))))))))"

definition read_host_report ::
  "(string \<Rightarrow> (rat \<times> bool) option) \<Rightarrow> (pyval \<Rightarrow> pyval option) \<Rightarrow> (pyval \<Rightarrow> string) \<Rightarrow> rat \<Rightarrow> report_file \<Rightarrow>
   py_error + host_report option \<times> string option" where
  "read_host_report isotime as_dict repr now f = (case f of
       ReportAbsent \<Rightarrow> Inr (None, Some ''missing'')
     | ReportRefused \<Rightarrow> Inr (None, Some ''unreadable'')
     | ReportNotJson \<Rightarrow> Inr (None, Some ''unreadable'')
     | ReportJson v \<Rightarrow> (case v of
         PDict raw \<Rightarrow>
           if \<not> is_one (py_get raw ''schema'') then Inr (None, Some ''unreadable'')
           else (case build_report isotime as_dict repr raw of
               Inl OverflowError \<Rightarrow> Inl OverflowError
             | Inl _ \<Rightarrow> Inr (None, Some ''unreadable'')
             | Inr r \<Rightarrow> if \<bar>now - hr_generated_at r\<bar> > HOST_REPORT_MAX_AGE_S
                 then Inr (None, Some ''stale'') else Inr (Some r, None))
       | _ \<Rightarrow> Inr (None, Some ''unreadable'')))"

definition host_report_expected :: "bool option \<Rightarrow> string \<Rightarrow> bool" where
  "host_report_expected cfg_expect virt = (case cfg_expect of
     Some b \<Rightarrow> b | None \<Rightarrow> virt \<noteq> [] \<and> virt \<noteq> ''none'')"

section \<open>Lemmas\<close>

definition wanted_mount :: "string \<times> string \<times> string \<Rightarrow> string" where
  "wanted_mount w = fst (snd w)"

lemma wanted_mount_simps [simp]: "wanted_mount (n, m, k) = m"
  by (simp add: wanted_mount_def)

lemma add_wanted_mounts:
  "add_wanted points archive_mount p wanted =
     (let best = mount_of points p in
      if best = ''/'' \<or> best = archive_mount \<or> best \<in> set (map wanted_mount wanted) then wanted
      else wanted @ [(''mnt:'' @ best, best, ''guest'')])"
proof -
  have "list_ex (\<lambda>w. fst (snd w) = m) wanted \<longleftrightarrow> m \<in> set (map wanted_mount wanted)" for m
    by (auto simp: list_ex_iff wanted_mount_def intro: image_eqI)
  then show ?thesis unfolding add_wanted_def by simp
qed

lemma fold_longer:
  "case fold longer ms best of
     None \<Rightarrow> best = None \<and> ms = []
   | Some m \<Rightarrow> (best = Some m \<or> m \<in> set ms) \<and> (\<forall>b. best = Some b \<longrightarrow> length b \<le> length m) \<and>
       (\<forall>x \<in> set ms. length x \<le> length m)"
proof (induction ms arbitrary: best)
  case Nil
  then show ?case by (cases best) simp_all
next
  case (Cons x ms)
  show ?case
    using Cons.IH [where best = "longer x best"]
    by (cases best) (auto simp: longer_def split: option.splits if_splits)
qed

lemma mount_of_longest:
  "\<forall>m \<in> set points. under_mount p m \<longrightarrow> length m \<le> length (mount_of points p)"
  "mount_of points p = ''/'' \<or> mount_of points p \<in> set points \<and> under_mount p (mount_of points p)"
  using fold_longer [where ms = "filter (under_mount p) points" and best = None]
  by (auto simp: mount_of_def filter_empty_conv split: option.splits)

lemma wanted_fold:
  assumes "distinct (map wanted_mount wanted)" and "''/'' \<in> set (map wanted_mount wanted)"
    and "archive_mount \<in> set points \<longrightarrow> archive_mount \<in> set (map wanted_mount wanted)"
  shows "distinct (map wanted_mount (fold (add_wanted points archive_mount) paths wanted)) \<and>
    set wanted \<subseteq> set (fold (add_wanted points archive_mount) paths wanted) \<and>
    (\<forall>p \<in> set paths. mount_of points p \<in> set (map wanted_mount (fold (add_wanted points archive_mount) paths wanted)))"
  using assms
proof (induction paths arbitrary: wanted)
  case (Cons p paths)
  let ?w = "add_wanted points archive_mount p wanted"
  have grow: "set wanted \<subseteq> set ?w" by (auto simp: add_wanted_def Let_def)
  have dist: "distinct (map wanted_mount ?w)"
    using Cons.prems(1) by (simp add: add_wanted_mounts Let_def)
  have has: "mount_of points p \<in> set (map wanted_mount ?w)"
    using Cons.prems(2,3) mount_of_longest(2) [of points p]
    unfolding add_wanted_mounts Let_def by (cases "mount_of points p = ''/''") (simp_all del: set_map, auto)
  have root: "''/'' \<in> set (map wanted_mount ?w)" using grow Cons.prems(2) by auto
  have arch: "archive_mount \<in> set points \<longrightarrow> archive_mount \<in> set (map wanted_mount ?w)"
    using grow Cons.prems(3) by auto
  have up: "set (map wanted_mount ?w) \<subseteq> set (map wanted_mount (fold (add_wanted points archive_mount) paths ?w))"
    using Cons.IH [OF dist root arch] by auto
  show ?case using Cons.IH [OF dist root arch] grow has up by auto
qed simp

lemma fold_measure:
  "fold (measure_step statvfs) ws (stores, faults) =
     (stores @ concat (map (\<lambda>w. case statvfs (fst (snd w)) of
          Inr st \<Rightarrow> [measure_store (fst w) (fst (snd w)) (snd (snd w)) st] | Inl exc \<Rightarrow> []) ws),
      faults @ concat (map (\<lambda>w. case statvfs (fst (snd w)) of
          Inr st \<Rightarrow> [] | Inl exc \<Rightarrow> [''store '' @ fst w @ '' ('' @ fst (snd w) @ '') unreadable: '' @ exc]) ws))"
  by (induction ws arbitrary: stores faults) (auto simp: measure_step_def split: sum.split)

lemma measured_mounts:
  "map st_mount (concat (map (\<lambda>w. case statvfs (fst (snd w)) of
       Inr st \<Rightarrow> [measure_store (fst w) (fst (snd w)) (snd (snd w)) st] | Inl exc \<Rightarrow> []) ws)) =
     map wanted_mount (filter (\<lambda>w. \<exists>st. statvfs (wanted_mount w) = Inr st) ws)"
  by (induction ws) (simp_all add: measure_store_def wanted_mount_def Let_def split: sum.split)

text \<open>Every path's store is measured or reported: no mount is measured twice, the root always is
  wanted, the archive when it is mounted, and for each registered path the deepest mount that
  holds it either yields a store at that mount or a fault line naming it.\<close>

theorem discover_covers_paths:
  assumes "archive_mount \<noteq> ''/''"
  shows "distinct (map st_mount (fst (discover_stores statvfs points archive_mount paths)))
    \<and> (\<forall>p \<in> set paths. \<forall>m \<in> set points. under_mount p m \<longrightarrow> length m \<le> length (mount_of points p))
    \<and> (\<forall>m. m = ''/'' \<or> m = archive_mount \<and> m \<in> set points \<or> m \<in> mount_of points ` set paths \<longrightarrow>
        (case statvfs m of
           Inr st \<Rightarrow> m \<in> set (map st_mount (fst (discover_stores statvfs points archive_mount paths)))
         | Inl exc \<Rightarrow> \<exists>name. ''store '' @ name @ '' ('' @ m @ '') unreadable: '' @ exc
             \<in> set (snd (discover_stores statvfs points archive_mount paths))))"
proof -
  let ?init = "(''root'', ''/'', ''guest'') #
      (if archive_mount \<in> set points then [(''archive'', archive_mount, ''guest'')] else [])"
  let ?ws = "wanted_stores points archive_mount paths"
  have w: "distinct (map wanted_mount ?ws)" "set ?init \<subseteq> set ?ws"
      "\<forall>p \<in> set paths. mount_of points p \<in> set (map wanted_mount ?ws)"
    using wanted_fold [of ?init archive_mount points paths] assms
    by (auto simp: wanted_stores_def)
  have mounts: "m \<in> set (map wanted_mount ?ws)"
    if "m = ''/'' \<or> m = archive_mount \<and> m \<in> set points \<or> m \<in> mount_of points ` set paths" for m
  proof -
    have "''/'' \<in> wanted_mount ` set ?ws" "archive_mount \<in> set points \<longrightarrow> archive_mount \<in> wanted_mount ` set ?ws"
      using w(2) by (force intro: image_eqI [of _ _ "(''root'', ''/'', ''guest'')"],
        force intro: image_eqI [of _ _ "(''archive'', archive_mount, ''guest'')"])
    with that w(3) show ?thesis by auto
  qed
  have all: "map st_mount (fst (discover_stores statvfs points archive_mount paths)) =
      map wanted_mount (filter (\<lambda>w. \<exists>st. statvfs (wanted_mount w) = Inr st) ?ws)"
    unfolding discover_stores_def fold_measure fst_conv append_Nil by (rule measured_mounts)
  with w(1) have one: "distinct (map st_mount (fst (discover_stores statvfs points archive_mount paths)))"
    by (simp add: distinct_map_filter)
  have two: "case statvfs m of
           Inr st \<Rightarrow> m \<in> set (map st_mount (fst (discover_stores statvfs points archive_mount paths)))
         | Inl exc \<Rightarrow> \<exists>name. ''store '' @ name @ '' ('' @ m @ '') unreadable: '' @ exc
             \<in> set (snd (discover_stores statvfs points archive_mount paths))"
    if m: "m = ''/'' \<or> m = archive_mount \<and> m \<in> set points \<or> m \<in> mount_of points ` set paths" for m
  proof -
    obtain w0 where w0: "w0 \<in> set ?ws" "wanted_mount w0 = m" using mounts [OF m] by auto
    show ?thesis
    proof (cases "statvfs m")
      case (Inl exc)
      have "''store '' @ fst w0 @ '' ('' @ m @ '') unreadable: '' @ exc
          \<in> set (snd (discover_stores statvfs points archive_mount paths))"
        unfolding discover_stores_def fold_measure snd_conv append_Nil set_concat set_map
        using w0 Inl by (intro UN_I [of "[''store '' @ fst w0 @ '' ('' @ m @ '') unreadable: '' @ exc]"])
          (auto simp: wanted_mount_def intro!: image_eqI [of _ _ w0])
      with Inl show ?thesis by auto
    next
      case (Inr st)
      with w0 show ?thesis by (auto simp: all)
    qed
  qed
  show ?thesis using one two mount_of_longest(1) by blast
qed

definition example_statvfs :: "string \<Rightarrow> string + vfs" where
  "example_statvfs m = (if m = ''/data'' then Inl ''I/O error''
     else Inr \<lparr>vf_blocks = 100, vf_frsize = 4096, vf_bavail = 40\<rparr>)"

theorem discover_covers_paths_witness:
  "\<exists>name. ''store '' @ name @ '' (/data) unreadable: I/O error''
     \<in> set (snd (discover_stores example_statvfs [''/'', ''/data''] ''/mnt/a'' [''/data/psk'']))"
proof -
  have m: "''/data'' \<in> mount_of [''/'', ''/data''] ` set [''/data/psk'']" by code_simp
  have "(''/mnt/a'' :: string) \<noteq> ''/''" by simp
  from discover_covers_paths [OF this, of example_statvfs "[''/'', ''/data'']" "[''/data/psk'']"] m
  show ?thesis by (auto simp: example_statvfs_def)
qed

text \<open>The pool report is believed only when it is fresh and well formed: a report is returned
  without a fault exactly when the file holds a JSON object of schema 1 whose fields parse and
  whose time lies within 15 minutes of now; its use is the pool's size times the larger of the
  data and the metadata percentage.  Otherwise the fault is missing, unreadable or stale, and
  the one exception that escapes is OverflowError, which an infinite number in the file causes.\<close>

theorem host_report_fresh:
  "(case read_host_report isotime as_dict repr now f of
      Inr (Some r, flt) \<Rightarrow> flt = None \<and> \<bar>now - hr_generated_at r\<bar> \<le> 900 \<and>
        (\<exists>raw pool d m. f = ReportJson (PDict raw) \<and> is_one (py_get raw ''schema'') \<and>
           map_of raw ''pool'' = Some (PDict pool) \<and>
           Option.bind (map_of pool ''data_pct'') to_float = Some d \<and>
           Option.bind (map_of pool ''metadata_pct'') to_float = Some m \<and>
           filled_bytes (hr_size r) (py_max d m) = Inr (hr_used r))
    | Inr (None, flt) \<Rightarrow> flt \<in> {Some ''missing'', Some ''unreadable'', Some ''stale''}
    | Inl e \<Rightarrow> e = OverflowError)"
proof -
  have parts: "\<exists>pool d m. map_of raw ''pool'' = Some (PDict pool) \<and>
           Option.bind (map_of pool ''data_pct'') to_float = Some d \<and>
           Option.bind (map_of pool ''metadata_pct'') to_float = Some m \<and>
           filled_bytes (hr_size r) (py_max d m) = Inr (hr_used r)"
    if "build_report isotime as_dict repr raw = Inr r" for raw r
    using that unfolding build_report_def ebind_eq_Inr
    by (auto simp: caught_def as_table_def bind_eq_Some_conv split: option.splits pyval.splits)
  show ?thesis
    using parts
    by (auto simp: read_host_report_def HOST_REPORT_MAX_AGE_S_def not_less
        split: report_file.split pyval.split sum.split py_error.split)
qed

definition example_report :: "pyfloat \<Rightarrow> pyval" where
  "example_report data = PDict [(''schema'', PInt 1), (''generated_at'', PStr ''now''),
     (''pool'', PDict [(''name'', PStr ''pool''), (''size_bytes'', PInt 1000),
        (''data_pct'', PFloat data), (''metadata_pct'', PFloat (Fin 12))])]"

text \<open>An infinite fill escapes the handler.\<close>

lemma host_report_overflow:
  "read_host_report (\<lambda>s. Some (0, True)) Some (\<lambda>v. []) 10 (ReportJson (example_report PosInf)) = Inl OverflowError"
  "\<exists>r. read_host_report (\<lambda>s. Some (0, True)) Some (\<lambda>v. []) 10 (ReportJson (example_report (Fin 30)))
     = Inr (Some r, None) \<and> hr_used r = 300"
  by (code_simp, simp add: read_host_report_def build_report_def example_report_def caught_def as_table_def
      dget_def py_get_def is_one_def parse_time_def py_max_def py_trunc_def HOST_REPORT_MAX_AGE_S_def)

end
