(* ===== verification/PyText.thy ===== *)
theory PyText
  imports PyData
begin

text \<open>
  Text handling shared by the CPU, network and unit-file components: \<open>str.split(sep, 1)\<close>,
  \<open>str.splitlines()\<close>, \<open>str.isdigit()\<close>, and the lemmas that reading back a rendered list of
  numbers or lines gives the numbers or the lines.
\<close>

section \<open>Splitting once\<close>

text \<open>\<open>s.split(c, 1)\<close> and \<open>s.partition(c)\<close> of a string that holds \<open>c\<close>: what comes before and
  after the first one.\<close>

definition split_once :: "char \<Rightarrow> string \<Rightarrow> string \<times> string" where
  "split_once c s = (takeWhile (\<lambda>x. x \<noteq> c) s, drop 1 (dropWhile (\<lambda>x. x \<noteq> c) s))"

lemma split_once_append [simp]: "c \<notin> set a \<Longrightarrow> split_once c (a @ c # b) = (a, b)"
proof -
  assume "c \<notin> set a"
  then have "\<forall>x \<in> set a. x \<noteq> c" by blast
  then show ?thesis by (simp add: split_once_def takeWhile_append2 dropWhile_append2)
qed

text \<open>\<open>s.rsplit(c, 1)[-1]\<close>: what comes after the last one.\<close>

definition after_last :: "char \<Rightarrow> string \<Rightarrow> string" where
  "after_last c s = rev (takeWhile (\<lambda>x. x \<noteq> c) (rev s))"

section \<open>Lines\<close>

text \<open>The line boundaries of \<open>splitlines\<close> below 256.\<close>

definition is_break :: "char \<Rightarrow> bool" where
  "is_break c = (let n = of_char c :: nat in 10 \<le> n \<and> n \<le> 13 \<or> 28 \<le> n \<and> n \<le> 30 \<or> n = 133)"

fun splitlines_acc :: "string \<Rightarrow> string \<Rightarrow> string list" where
  "splitlines_acc acc [] = (if acc = [] then [] else [rev acc])"
| "splitlines_acc acc (x # xs) =
     (if is_break x then rev acc # splitlines_acc [] xs else splitlines_acc (x # acc) xs)"

text \<open>A carriage return and line feed are one boundary.\<close>

fun join_crlf :: "string \<Rightarrow> string" where
  "join_crlf (x # y # xs) =
     (if x = CHR 0x0D \<and> y = CHR 0x0A then y # join_crlf xs else x # join_crlf (y # xs))"
| "join_crlf xs = xs"

definition splitlines :: "string \<Rightarrow> string list" where
  "splitlines s = splitlines_acc [] (join_crlf s)"

abbreviation newline :: char where "newline \<equiv> CHR 0x0A"

text \<open>Lines written with a line feed after each.\<close>

definition unlines :: "string list \<Rightarrow> string" where
  "unlines ls = concat (map (\<lambda>l. l @ [newline]) ls)"

definition one_line :: "string \<Rightarrow> bool" where
  "one_line l = (\<not> list_ex is_break l)"

lemma is_break_newline [simp]: "is_break newline" "is_break CHR 0x0D"
  by (simp_all add: is_break_def)

lemma splitlines_acc_line:
  "one_line l \<Longrightarrow>
     splitlines_acc acc (l @ newline # s) = (rev acc @ l) # splitlines_acc [] s"
  by (induction l arbitrary: acc) (simp_all add: one_line_def)

lemma join_crlf_id: "CHR 0x0D \<notin> set s \<Longrightarrow> join_crlf s = s"
  by (induction s rule: join_crlf.induct) auto

lemma unlines_no_return: "list_all one_line ls \<Longrightarrow> CHR 0x0D \<notin> set (unlines ls)"
  by (induction ls) (auto simp: unlines_def one_line_def list_ex_iff)

lemma splitlines_unlines: "list_all one_line ls \<Longrightarrow> splitlines (unlines ls) = ls"
proof -
  assume ok: "list_all one_line ls"
  then have "splitlines_acc [] (unlines ls) = ls"
    by (induction ls) (simp_all add: unlines_def splitlines_acc_line)
  with ok show ?thesis by (simp add: splitlines_def join_crlf_id unlines_no_return)
qed

lemma one_line_append [simp]: "one_line (a @ b) \<longleftrightarrow> one_line a \<and> one_line b"
  by (simp add: one_line_def)

lemma one_line_Cons [simp]: "one_line (c # b) \<longleftrightarrow> \<not> is_break c \<and> one_line b"
  by (simp add: one_line_def)

lemma one_line_Nil [simp]: "one_line []"
  by (simp add: one_line_def)

section \<open>Words\<close>

lemma split_ws_acc_plain:
  assumes "\<not> list_ex is_space w" and "acc @ w \<noteq> []"
  shows "split_ws_acc acc w = [rev acc @ w]"
  using assms by (induction w arbitrary: acc) auto

lemma split_ws_word: "is_word w \<Longrightarrow> split_ws w = [w]"
  by (simp add: split_ws_def is_word_def split_ws_acc_plain)

lemma split_ws_word_space:
  assumes "is_word w" and "is_space c"
  shows "split_ws (w @ c # s) = w # split_ws s"
proof -
  have "\<forall>x \<in> set w. \<not> is_space x" using assms(1) by (simp add: is_word_def list_ex_iff)
  then have "split_ws (w @ c # s) = split_ws_acc (rev w) (c # s)"
    by (simp add: split_ws_def split_ws_acc_word)
  then show ?thesis using assms by (simp add: split_ws_def is_word_def)
qed

lemma split_ws_Nil [simp]: "split_ws [] = []"
  by (simp add: split_ws_def)

lemma join_on_Cons: "join_on sep (x # xs) = (if xs = [] then x else x @ sep @ join_on sep xs)"
  by (cases xs) (simp_all add: join_on_def)

lemma join_on_Nil [simp]: "join_on sep [] = []"
  by (simp add: join_on_def)

lemma is_space_blank [simp]: "is_space CHR '' ''"
  by (simp add: is_space_def)

lemma split_ws_join: "list_all is_word ws \<Longrightarrow> split_ws (join_on '' '' ws) = ws"
  by (induction ws) (auto simp: join_on_Cons split_ws_word split_ws_word_space)

lemma split_on_plain: "c \<notin> set w \<Longrightarrow> split_on c w = [w]"
  by (induction w) auto

lemma split_on_sep: "c \<notin> set w \<Longrightarrow> split_on c (w @ c # s) = w # split_on c s"
  by (induction w) auto

lemma split_on_join:
  "ws \<noteq> [] \<Longrightarrow> list_all (\<lambda>w. c \<notin> set w) ws \<Longrightarrow> split_on c (join_on [c] ws) = ws"
  by (induction ws) (auto simp: join_on_Cons split_on_plain split_on_sep)

lemma set_join_on: "set (join_on sep ws) \<subseteq> set sep \<union> \<Union> (set (map set ws))"
  by (induction ws) (auto simp: join_on_Cons)

lemma dropWhile_plain: "\<not> list_ex P w \<Longrightarrow> dropWhile P w = w"
  by (cases w) simp_all

lemma strip_word [simp]: "\<not> list_ex is_space w \<Longrightarrow> strip w = w"
  by (simp add: strip_def lstrip_def rstrip_def dropWhile_plain list_ex_iff)

lemma strip_ends:
  assumes "s \<noteq> []" "\<not> is_space (hd s)" "\<not> is_space (last s)"
  shows "strip s = s"
proof -
  have "lstrip s = s" using assms by (cases s) (simp_all add: lstrip_def)
  moreover have "rstrip s = s"
    using assms by (cases s rule: rev_cases) (simp_all add: rstrip_def)
  ultimately show ?thesis by (simp add: strip_def)
qed

lemma strip_head:
  assumes "\<not> is_space c" shows "\<exists>t. strip (c # s) = c # t"
proof -
  have "strip (c # s) = rstrip (c # s)" using assms by (simp add: strip_def lstrip_def)
  also have "\<dots> = c # rstrip s"
    using assms by (simp add: rstrip_def dropWhile_append list_all_iff)
  finally show ?thesis by blast
qed

section \<open>Numbers\<close>

lemma digit_char:
  assumes "n < 10"
  shows "is_digit (char_of (48 + n :: nat))" "digit_val (char_of (48 + n)) = int n"
proof -
  have m: "(48 + n) mod 256 = 48 + n" using assms by simp
  show "is_digit (char_of (48 + n :: nat))" using assms m by (simp add: is_digit_def Let_def)
  have "(of_char (char_of (48 + n) :: char) :: int) = of_nat (of_char (char_of (48 + n) :: char))"
    by (simp only: of_nat_of_char)
  also have "\<dots> = 48 + int n" using m by simp
  finally show "digit_val (char_of (48 + n)) = int n"
    by (simp add: digit_val_def)
qed

lemma digits_val_append:
  "list_all is_digit s \<Longrightarrow> digits_val k (s @ t)
     = digits_val (foldl (\<lambda>a c. 10 * a + digit_val c) k s) t"
  by (induction s arbitrary: k) auto

lemma digits_of_digits: "list_all is_digit (digits_of n)"
  by (induction n rule: digits_of.induct)
    (subst digits_of.simps, auto simp: digit_char)

lemma digits_of_value: "foldl (\<lambda>a c. 10 * a + digit_val c) 0 (digits_of n) = int n"
proof (induction n rule: digits_of.induct)
  case (1 n)
  then show ?case
    by (subst digits_of.simps) (auto simp: digit_char zdiv_int zmod_int)
qed

lemma digits_of_not_Nil [simp]: "digits_of n \<noteq> []"
  by (subst digits_of.simps) simp

lemma nat_of_string_digits [simp]: "nat_of_string (digits_of n) = Some (int n)"
proof -
  obtain c cs where d: "digits_of n = c # cs" by (cases "digits_of n") auto
  have "is_digit c" using digits_of_digits [of n] d by simp
  moreover have "digits_val 0 (digits_of n) = Some (int n)"
    using digits_val_append [OF digits_of_digits [of n], of 0 "[]"]
    by (simp add: digits_of_value)
  ultimately show ?thesis by (simp add: nat_of_string_def d)
qed

lemma is_digit_plain:
  "is_digit c \<Longrightarrow> \<not> is_space c \<and> c \<noteq> CHR ''-'' \<and> c \<noteq> CHR ''+'' \<and> c \<noteq> CHR '',''
     \<and> \<not> is_break c \<and> c \<noteq> CHR ''='' \<and> c \<noteq> CHR ''_''"
  by (auto simp: is_digit_def is_space_def is_break_def Let_def)

lemma digits_of_plain:
  "\<not> list_ex is_space (digits_of n)" "CHR ''-'' \<notin> set (digits_of n)"
  "CHR ''+'' \<notin> set (digits_of n)" "CHR '','' \<notin> set (digits_of n)"
  "one_line (digits_of n)" "CHR ''='' \<notin> set (digits_of n)"
  using digits_of_digits [of n] is_digit_plain
  by (auto simp: list_ex_iff list_all_iff one_line_def)

lemma nat_of_string_sign [simp]:
  "nat_of_string (CHR ''-'' # t) = None" "nat_of_string (CHR ''+'' # t) = None"
  by (simp_all add: nat_of_string_def is_digit_def)

lemma int_of_string_digit:
  assumes "is_digit c"
  shows "(case c # cs of CHR ''-'' # t \<Rightarrow> map_option uminus (nat_of_string t)
     | CHR ''+'' # t \<Rightarrow> nat_of_string t | t \<Rightarrow> nat_of_string t) = nat_of_string (c # cs)"
  using is_digit_plain [OF assms] by (auto split: char.split bool.split)

lemma int_of_string_of_int [simp]: "int_of_string (string_of_int n) = Some n"
proof (cases "n < 0")
  case True
  have "\<not> list_ex is_space (CHR ''-'' # digits_of (nat (- n)))"
    using digits_of_plain [of "nat (- n)"] by (simp add: is_space_def)
  with True show ?thesis by (simp add: int_of_string_def string_of_int_def)
next
  case False
  obtain c cs where d: "digits_of (nat n) = c # cs" by (cases "digits_of (nat n)") auto
  then have "is_digit c" using digits_of_digits [of "nat n"] by simp
  then have "int_of_string (digits_of (nat n)) = nat_of_string (digits_of (nat n))"
    unfolding int_of_string_def strip_word [OF digits_of_plain(1)] unfolding d
    by (rule int_of_string_digit)
  with False show ?thesis by (simp add: string_of_int_def)
qed

lemma string_of_int_not_Nil [simp]: "string_of_int n \<noteq> []" "[] \<noteq> string_of_int n"
proof -
  show "string_of_int n \<noteq> []" by (simp add: string_of_int_def)
  then show "[] \<noteq> string_of_int n" by (rule not_sym)
qed

lemma string_of_nonneg:
  assumes "0 \<le> n"
  shows "is_word (string_of_int n)" "CHR ''-'' \<notin> set (string_of_int n)"
    "CHR '','' \<notin> set (string_of_int n)" "one_line (string_of_int n)"
    "CHR ''='' \<notin> set (string_of_int n)"
  using assms digits_of_plain [of "nat n"] by (simp_all add: string_of_int_def is_word_def)

section \<open>Reading dynamic values\<close>

text \<open>\<open>v or d\<close> with a string default, and \<open>str(d.get(k, '') or '')\<close>.\<close>

definition or_empty :: "pyval \<Rightarrow> string \<Rightarrow> pyval" where
  "or_empty v d = (if py_truthy v then v else PStr d)"

definition text_field :: "(pyval \<Rightarrow> string) \<Rightarrow> (string, pyval) dict \<Rightarrow> string \<Rightarrow> string" where
  "text_field repr d k = py_str repr (or_empty (dget d k (PStr [])) [])"

text \<open>\<open>v or {}\<close> on which \<open>get\<close> or \<open>items\<close> is called next.\<close>

definition or_dict :: "pyval \<Rightarrow> py_error + (string, pyval) dict" where
  "or_dict v = (if \<not> py_truthy v then Inr [] else case v of PDict d \<Rightarrow> Inr d | _ \<Rightarrow> Inl AttributeError)"

definition sub_table :: "(string, pyval) dict \<Rightarrow> string \<Rightarrow> py_error + (string, pyval) dict" where
  "sub_table raw k = or_dict (dget raw k (PDict []))"

text \<open>\<open>int(v)\<close> and \<open>float(v)\<close> with the exception each raises.\<close>

fun int_call :: "pyval \<Rightarrow> py_error + int" where
  "int_call (PFloat PosInf) = Inl OverflowError"
| "int_call (PFloat NegInf) = Inl OverflowError"
| "int_call (PFloat NaN) = Inl (ValueError ''int'')"
| "int_call (PFloat (Fin x)) = Inr (py_trunc x)"
| "int_call (PBool b) = Inr (if b then 1 else 0)"
| "int_call (PInt n) = Inr n"
| "int_call (PStr s) = (case int_of_string s of None \<Rightarrow> Inl (ValueError ''int'') | Some n \<Rightarrow> Inr n)"
| "int_call v = Inl TypeError"

fun float_call :: "pyval \<Rightarrow> py_error + pyfloat" where
  "float_call (PFloat f) = Inr f"
| "float_call (PBool b) = Inr (Fin (if b then 1 else 0))"
| "float_call (PInt n) = Inr (Fin (of_int n))"
| "float_call (PStr s) = (case float_of_string s of None \<Rightarrow> Inl (ValueError ''float'') | Some f \<Rightarrow> Inr f)"
| "float_call v = Inl TypeError"

text \<open>A list or a dict cannot be hashed.\<close>

fun hashable :: "pyval \<Rightarrow> bool" where
  "hashable (PList xs) = False"
| "hashable (PDict d) = False"
| "hashable v = True"

lemma join_unlines: "ls \<noteq> [] \<Longrightarrow> unlines ls = join_on [newline] ls @ [newline]"
proof (induction ls)
  case (Cons l ls)
  then show ?case by (cases "ls = []") (simp_all add: unlines_def join_on_Cons)
qed simp

section \<open>Trimming the end of a text of lines\<close>

lemma split_on_spaces: "list_all is_space w \<Longrightarrow> list_all (list_all is_space) (split_on c w)"
  by (induction w) (auto split: list.splits)

text \<open>Cutting white space off the end leaves every line what it was, up to white space at its end;
  a line that is not all white space is still there.\<close>

lemma split_on_append:
  "split_on c (p @ w) = butlast (split_on c p) @ (last (split_on c p) @ hd (split_on c w)) # tl (split_on c w)"
proof (induction p)
  case Nil
  then show ?case by (cases "split_on c w") simp_all
next
  case (Cons a p)
  then show ?case by (cases "split_on c p") auto
qed

lemma split_on_snoc: "split_on c (p @ [c]) = split_on c p @ [[]]"
proof (induction p)
  case (Cons a p)
  then show ?case by (cases "split_on c p") auto
qed simp

lemma split_on_end:
  assumes "list_all is_space w"
  obtains t rest where
    "split_on c (p @ w) = butlast (split_on c p) @ (last (split_on c p) @ t) # rest"
    "list_all is_space t" "list_all (list_all is_space) rest"
  using that [OF split_on_append] split_on_spaces [OF assms, of c]
  by (cases "split_on c w") auto

lemma split_on_cut:
  assumes "list_all is_space w" and "x \<in> set (split_on c p)"
  shows "\<exists>t. x @ t \<in> set (split_on c (p @ w)) \<and> list_all is_space t"
proof -
  obtain t rest where
    s: "split_on c (p @ w) = butlast (split_on c p) @ (last (split_on c p) @ t) # rest"
    and t: "list_all is_space t"
    using split_on_end [OF assms(1), where c = c and p = p] by blast
  have "x \<in> set (butlast (split_on c p)) \<or> x = last (split_on c p)"
    using assms(2) append_butlast_last_id [OF split_on_not_Nil, of c p]
    by (metis Un_iff empty_iff insert_iff list.set set_append)
  then show ?thesis
  proof
    assume "x \<in> set (butlast (split_on c p))"
    then show ?thesis using s by (intro exI [of _ "[]"]) simp
  next
    assume "x = last (split_on c p)"
    then show ?thesis using s t by (intro exI [of _ t]) simp
  qed
qed

lemma split_on_kept:
  assumes "list_all is_space w" and "v \<in> set (split_on c (p @ w))"
  shows "list_all is_space v \<or> (\<exists>x \<in> set (split_on c p). \<exists>t. v = x @ t \<and> list_all is_space t)"
proof -
  obtain t rest where
    s: "split_on c (p @ w) = butlast (split_on c p) @ (last (split_on c p) @ t) # rest"
    and t: "list_all is_space t" and rest: "list_all (list_all is_space) rest"
    using split_on_end [OF assms(1), where c = c and p = p] by blast
  consider "v \<in> set (butlast (split_on c p))" | "v = last (split_on c p) @ t" | "v \<in> set rest"
    using assms(2) s by auto
  then show ?thesis
  proof cases
    case 1
    then show ?thesis by (auto intro!: bexI [of _ v] exI [of _ "[]"] dest: in_set_butlastD)
  next
    case 2
    then show ?thesis using t last_in_set [OF split_on_not_Nil] by blast
  next
    case 3
    then show ?thesis using rest by (auto simp: list_all_iff)
  qed
qed

lemma rstrip_split: "\<exists>w. s = rstrip s @ w \<and> list_all is_space w"
proof -
  have "s = rev (dropWhile is_space (rev s)) @ rev (takeWhile is_space (rev s))"
    by (metis rev_append rev_rev_ident takeWhile_dropWhile_id)
  moreover have "list_all is_space (rev (takeWhile is_space (rev s)))"
    by (auto simp: list_all_iff dest: set_takeWhileD)
  ultimately show ?thesis unfolding rstrip_def by blast
qed

section \<open>Letters\<close>

text \<open>\<open>str.isalnum\<close> and \<open>str.upper\<close> of a character below 256; of the two letters whose capital lies
  above 255 the capital is the letter itself.\<close>

definition is_alnum :: "char \<Rightarrow> bool" where
  "is_alnum c = (is_digit c \<or> is_upper c \<or> is_lower c \<or> (let n = of_char c :: nat in
     n \<in> {170, 178, 179, 181, 185, 186, 188, 189, 190} \<or> 192 \<le> n \<and> n \<noteq> 215 \<and> n \<noteq> 247))"

definition upper_char :: "char \<Rightarrow> string" where
  "upper_char c = (let n = of_char c :: nat in
     if n = 223 then ''SS''
     else if is_lower c \<or> 224 \<le> n \<and> n \<le> 254 \<and> n \<noteq> 247 then [char_of (n - 32)] else [c])"

definition upper :: "string \<Rightarrow> string" where
  "upper s = concat (map upper_char s)"

text \<open>\<open>str.lower\<close>, the letters above 127 included.\<close>

definition lower_latin :: "string \<Rightarrow> string" where
  "lower_latin s = map (\<lambda>c. let n = of_char c :: nat in
     if is_upper c \<or> 192 \<le> n \<and> n \<le> 222 \<and> n \<noteq> 215 then char_of (n + 32) else c) s"

text \<open>\<open>s.replace(old, new)\<close> for a non-empty \<open>old\<close>.\<close>

function replace_all :: "string \<Rightarrow> string \<Rightarrow> string \<Rightarrow> string" where
  "replace_all old new s =
     (case s of [] \<Rightarrow> []
      | c # cs \<Rightarrow> if old \<noteq> [] \<and> starts_with s old then new @ replace_all old new (drop (length old) s)
          else c # replace_all old new cs)"
  by pat_completeness auto
termination by (relation "measure (\<lambda>(old, new, s). length s)") (auto split: list.splits)

declare replace_all.simps [simp del]

text \<open>\<open>s.partition(sep)\<close> without the separator.\<close>

fun cut_at :: "string \<Rightarrow> string \<Rightarrow> string \<times> string" where
  "cut_at sep [] = ([], [])"
| "cut_at sep (c # cs) =
     (if starts_with (c # cs) sep then ([], drop (length sep) (c # cs))
      else case cut_at sep cs of (a, b) \<Rightarrow> (c # a, b))"

lemma strip_idem [simp]: "strip (strip s) = strip s"
proof (cases "strip s = []")
  case False
  obtain w where w: "lstrip s = strip s @ w" using rstrip_split [of "lstrip s"] by (auto simp: strip_def)
  with False have "hd (strip s) = hd (lstrip s)" "lstrip s \<noteq> []" by auto
  then have "\<not> is_space (hd (strip s))" by (simp add: lstrip_def hd_dropWhile)
  moreover have "\<not> is_space (last (strip s))"
    using False by (simp add: strip_def rstrip_def last_rev hd_dropWhile)
  ultimately show ?thesis using False by (intro strip_ends)
next
  case True
  moreover have "strip [] = []" by (simp add: strip_def lstrip_def rstrip_def)
  ultimately show ?thesis by simp
qed

end
