(* ===== verification/CpuMask.thy ===== *)
theory CpuMask
  imports PyText
begin

text \<open>
  CPU lists as text (\<open>src/lib/sigmond/cpu.py\<close>): the affinity masks of systemd and
  \<open>/proc\<close>, the kernel's range strings, the pairs of \<open>host-discover.sh\<close>, the kernel command
  line, and the two files smd writes (the affinity drop-in of a unit and the isolation file of
  the boot loader).  A Python set of CPU numbers is an \<open>int set\<close>.  File texts are the bytes
  written, so the long dash of a comment is its three UTF-8 bytes.
\<close>

type_synonym cpus = "int set"

section \<open>Reading\<close>

definition mask_token :: "string \<Rightarrow> cpus" where
  "mask_token tok =
     (if CHR ''-'' \<in> set tok then
        (case split_once (CHR ''-'') tok of (a, b) \<Rightarrow>
          (case (int_of_string a, int_of_string b) of
             (Some x, Some y) \<Rightarrow> set [x..y]
           | _ \<Rightarrow> {}))
      else (case int_of_string tok of Some n \<Rightarrow> {n} | None \<Rightarrow> {}))"

definition parse_cpu_mask :: "string \<Rightarrow> cpus" where
  "parse_cpu_mask s =
     fold (\<lambda>tok parts. parts \<union> mask_token tok)
       (split_ws (replace_char (CHR '','') (CHR '' '') s)) {}"

text \<open>\<open>int()\<close> of a part of a pair; an unreadable one is the caller's ValueError.\<close>

definition pair_int :: "string \<Rightarrow> py_error + int" where
  "pair_int s = (case int_of_string s of
       Some n \<Rightarrow> Inr n | None \<Rightarrow> Inl (ValueError ''invalid literal for int() with base 10''))"

definition ht_part :: "string \<Rightarrow> cpus \<Rightarrow> py_error + cpus" where
  "ht_part part cpus =
     (if part = [] then Inr cpus
      else if CHR ''-'' \<in> set part then
        (case split_on (CHR ''-'') part of
           [lo, hi] \<Rightarrow> ebind (pair_int lo) (\<lambda>x. ebind (pair_int hi) (\<lambda>y.
             Inr (cpus \<union> set [x..y])))
         | _ \<Rightarrow> Inl (ValueError ''too many values to unpack''))
      else ebind (pair_int part) (\<lambda>n. Inr (insert n cpus)))"

definition parse_ht_pairs :: "string \<Rightarrow> py_error + int list list" where
  "parse_ht_pairs s =
     efold (\<lambda>tok pairs. ebind (efold ht_part (split_on (CHR '','') tok) {}) (\<lambda>cpus.
       Inr (if cpus = {} then pairs else pairs @ [sorted_list_of_set cpus])))
     (split_ws s) []"

definition parse_cmdline_cpu_param :: "string \<Rightarrow> string \<Rightarrow> cpus" where
  "parse_cmdline_cpu_param cmdline key =
     fold (\<lambda>tok result.
       if starts_with tok (key @ ''='') then
         fold (\<lambda>chunk r. r \<union> parse_cpu_mask (strip chunk))
           (split_on (CHR '','') (snd (split_once (CHR ''='') tok))) result
       else result)
     (split_ws cmdline) {}"

definition isolation_keys :: "string list" where
  "isolation_keys = [''isolcpus'', ''nohz_full'', ''rcu_nocbs'']"

text \<open>The three keys \<open>get_cmdline_params\<close> returns; an unreadable \<open>/proc/cmdline\<close> is \<open>None\<close>,
  read as the empty text.\<close>

definition get_cmdline_params :: "string option \<Rightarrow> (string \<times> cpus) list" where
  "get_cmdline_params text =
     (let cmdline = (case text of None \<Rightarrow> [] | Some t \<Rightarrow> strip t) in
      map (\<lambda>k. (k, parse_cmdline_cpu_param cmdline k)) isolation_keys)"

definition get_isolated_cpus :: "string option \<Rightarrow> cpus" where
  "get_isolated_cpus text =
     (case text of None \<Rightarrow> {} | Some t \<Rightarrow>
        if strip t = [] then {} else parse_cpu_mask (strip t))"

definition get_performance_cpus :: "bool \<Rightarrow> string option \<Rightarrow> cpus" where
  "get_performance_cpus atom_exists core_text =
     (if \<not> atom_exists then {}
      else case core_text of None \<Rightarrow> {} | Some t \<Rightarrow> parse_cpu_mask (strip t))"

section \<open>Writing\<close>

definition cpu_list_str :: "cpus \<Rightarrow> string" where
  "cpu_list_str cpus = join_on '' '' (map string_of_int (sorted_list_of_set cpus))"

text \<open>The inner loop of \<open>_cpus_to_range_str\<close>: the last CPU of the run that starts at \<open>c\<close>, and
  what follows it.\<close>

fun run_end :: "int \<Rightarrow> int list \<Rightarrow> int \<times> int list" where
  "run_end c [] = (c, [])"
| "run_end c (d # ds) = (if d = c + 1 then run_end d ds else (c, d # ds))"

lemma run_end_shorter: "length (snd (run_end c ds)) \<le> length ds"
proof (induction ds arbitrary: c)
  case (Cons d ds)
  have "length (snd (run_end (c + 1) ds)) \<le> Suc (length ds)"
    by (rule le_SucI) (rule Cons.IH)
  then show ?case by simp
qed simp

lemma run_end_le: "(x, y) = run_end c cs \<Longrightarrow> length y \<le> length cs"
  using run_end_shorter [of c cs] by (metis snd_conv)

function cpu_runs :: "int list \<Rightarrow> (int \<times> int) list" where
  "cpu_runs [] = []"
| "cpu_runs (c # cs) = (case run_end c cs of (e, rest) \<Rightarrow> (c, e) # cpu_runs rest)"
  by pat_completeness auto
termination
  by (relation "measure length")
    (auto simp: less_Suc_eq_le intro: run_end_le)

definition run_str :: "int \<times> int \<Rightarrow> string" where
  "run_str r = (case r of (a, b) \<Rightarrow>
     if a = b then string_of_int a else string_of_int a @ ''-'' @ string_of_int b)"

definition cpus_to_range_str :: "int list \<Rightarrow> string" where
  "cpus_to_range_str cpus = join_on '','' (map run_str (cpu_runs (sort cpus)))"

abbreviation long_dash :: string where
  "long_dash \<equiv> [CHR 0xE2, CHR 0x80, CHR 0x94]"

definition render_drop_in :: "cpus \<Rightarrow> string \<Rightarrow> string list \<Rightarrow> string" where
  "render_drop_in cpus label hooks =
     unlines
       ([''# CPU affinity managed by smd '' @ long_dash @ '' do not edit manually.'',
         ''# Role: '' @ label,
         ''# Regenerate: smd admin diag cpu-affinity --apply'',
         ''[Service]'',
         ''CPUAffinity='',
         ''CPUAffinity='' @ cpu_list_str cpus,
         ''AllowedCPUs='',
         ''AllowedCPUs='' @ cpu_list_str cpus]
        @ map (\<lambda>h. ''ExecStartPost=+'' @ h) hooks)"

fun last_affinity :: "string list \<Rightarrow> cpus" where
  "last_affinity [] = {}"
| "last_affinity (l # ls) =
     (let line = strip l in
      if starts_with line ''CPUAffinity='' \<and> line \<noteq> ''CPUAffinity='' then
        parse_cpu_mask (snd (split_once (CHR ''='') line))
      else last_affinity ls)"

definition read_drop_in_cpus :: "string option \<Rightarrow> cpus" where
  "read_drop_in_cpus text =
     (case text of None \<Rightarrow> {} | Some t \<Rightarrow> last_affinity (rev (splitlines t)))"

definition isolation_comment :: "string list" where
  "isolation_comment =
    [''# /etc/default/grub.d/sigmond-cpu-isolation.cfg '' @ long_dash @ '' managed by smd.'',
     ''# Do not edit: regenerate with `smd admin diag cpu-affinity --apply`.'',
     ''#'',
     ''# Fences the guest kernel off radiod's cores (tuning doc Part 4b).'',
     ''# Derived from this host's computed radiod placement '' @ long_dash @ '' NOT from the'',
     ''# doc's 0-(2N-1) table, which assumes radiod on the low CPUs and would'',
     ''# isolate the wrong cores wherever smd placed radiod elsewhere.'',
     ''#'',
     ''# nohz_full also gives the guest the same VIRT_CPU_ACCOUNTING_GEN the'',
     ''# Proxmox host uses.  Without it the guest under-reports its own CPU by'',
     ''# several points against both the host and MPERF/TSC, so the operator's'',
     ''# in-guest numbers disagree with the host's for no visible reason.'']"

text \<open>The words smd adds to the kernel command line, and the file that adds them.\<close>

definition isolation_words :: "cpus \<Rightarrow> string" where
  "isolation_words cpus =
     (let r = cpus_to_range_str (sorted_list_of_set cpus) in
      '' isolcpus='' @ r @ '' nohz_full='' @ r @ '' rcu_nocbs='' @ r)"

definition render_guest_isolation :: "cpus \<Rightarrow> string" where
  "render_guest_isolation cpus =
     unlines (isolation_comment @
       [''GRUB_CMDLINE_LINUX_DEFAULT=\"${GRUB_CMDLINE_LINUX_DEFAULT}'' @ isolation_words cpus @ ''\"''])"

text \<open>\<open>cmdline\<close> is the argument, \<open>proc\<close> the text of \<open>/proc/cmdline\<close>.\<close>

definition guest_isolation_reboot_pending ::
  "cpus \<Rightarrow> string option \<Rightarrow> string option \<Rightarrow> bool" where
  "guest_isolation_reboot_pending want cmdline proc =
     (if want = {} then False
      else
        let line = (case cmdline of Some c \<Rightarrow> c
          | None \<Rightarrow> (case proc of None \<Rightarrow> [] | Some t \<Rightarrow> strip t)) in
        \<not> want \<subseteq> parse_cmdline_cpu_param line ''isolcpus'')"

section \<open>What is read is a finite set of CPU numbers\<close>

lemma fold_union: "fold (\<lambda>x r. r \<union> f x) xs A = A \<union> (\<Union>x \<in> set xs. f x)"
  by (induction xs arbitrary: A) auto

lemma parse_cpu_mask_Union:
  "parse_cpu_mask s =
     (\<Union>tok \<in> set (split_ws (replace_char (CHR '','') (CHR '' '') s)). mask_token tok)"
  by (simp add: parse_cpu_mask_def fold_union)

lemma finite_mask_token [simp]: "finite (mask_token tok)"
  by (auto simp: mask_token_def split: prod.split option.split)

lemma finite_parse_cpu_mask [simp]: "finite (parse_cpu_mask s)"
  by (simp add: parse_cpu_mask_Union)

lemma int_of_string_no_minus:
  assumes "int_of_string s = Some n" and "CHR ''-'' \<notin> set s"
  shows "0 \<le> n"
proof -
  have "set (strip s) \<subseteq> set s"
    unfolding strip_def lstrip_def rstrip_def by (auto dest!: set_dropWhileD)
  with assms(2) have "CHR ''-'' \<notin> set (strip s)" by blast
  with assms(1) show ?thesis unfolding int_of_string_def
    by (auto split: list.splits char.splits bool.splits dest: nat_of_string_nonneg)
qed

lemma mask_token_nonneg: "n \<in> mask_token tok \<Longrightarrow> 0 \<le> n"
proof -
  have "CHR ''-'' \<notin> set (takeWhile (\<lambda>x. x \<noteq> CHR ''-'') tok)"
    using set_takeWhileD by fastforce
  then show "n \<in> mask_token tok \<Longrightarrow> 0 \<le> n"
    by (auto simp: mask_token_def split_once_def split: if_splits option.splits
      dest: int_of_string_no_minus)
qed

lemma parse_cpu_mask_nonneg: "n \<in> parse_cpu_mask s \<Longrightarrow> 0 \<le> n"
  by (auto simp: parse_cpu_mask_Union dest: mask_token_nonneg)

lemma parse_cmdline_Union:
  "parse_cmdline_cpu_param cmdline key =
     (\<Union>tok \<in> {t \<in> set (split_ws cmdline). starts_with t (key @ ''='')}.
        \<Union>chunk \<in> set (split_on (CHR '','') (snd (split_once (CHR ''='') tok))).
          parse_cpu_mask (strip chunk))"
proof -
  have "fold (\<lambda>tok result. if P tok then fold (\<lambda>c r. r \<union> f c) (g tok) result else result) ts A
      = A \<union> (\<Union>tok \<in> {t \<in> set ts. P t}. \<Union>c \<in> set (g tok). f c)"
    for P :: "string \<Rightarrow> bool" and f :: "string \<Rightarrow> cpus" and g ts A
    by (induction ts arbitrary: A) (auto simp: fold_union)
  then show ?thesis by (simp add: parse_cmdline_cpu_param_def)
qed

section \<open>Reading back what was written\<close>

lemma split_ws_acc_space:
  "is_space c \<Longrightarrow> split_ws_acc acc (a @ c # b) = split_ws_acc acc a @ split_ws b"
  by (induction acc a rule: split_ws_acc.induct) (auto simp: split_ws_def)

lemma split_ws_space: "is_space c \<Longrightarrow> split_ws (a @ c # b) = split_ws a @ split_ws b"
  unfolding split_ws_def by (simp add: split_ws_acc_space split_ws_def)

lemma replace_char_join:
  "\<forall>w \<in> set ws. c \<notin> set w \<Longrightarrow> replace_char c d (join_on [c] ws) = join_on [d] ws"
proof (induction ws)
  case (Cons w ws)
  then have "map (\<lambda>x. if x = c then d else x) w = w" by (intro map_idI) auto
  with Cons show ?case by (simp add: join_on_Cons replace_char_def)
qed (simp add: replace_char_def)

lemma replace_char_id: "c \<notin> set s \<Longrightarrow> replace_char c d s = s"
  by (induction s) (auto simp: replace_char_def)

lemma mask_token_int: "0 \<le> n \<Longrightarrow> mask_token (string_of_int n) = {n}"
  by (simp add: mask_token_def string_of_nonneg)

lemma mask_token_run:
  assumes "0 \<le> a" "0 \<le> b"
  shows "mask_token (string_of_int a @ ''-'' @ string_of_int b) = {a..b}"
  using assms by (simp add: mask_token_def string_of_nonneg)

lemma parse_cpu_list_str:
  assumes "finite S" and "\<forall>c \<in> S. 0 \<le> c"
  shows "parse_cpu_mask (cpu_list_str S) = S"
proof -
  let ?ws = "map string_of_int (sorted_list_of_set S)"
  have ws: "list_all is_word ?ws"
    using assms by (auto simp: list_all_iff string_of_nonneg)
  have "CHR '','' \<notin> set (cpu_list_str S)"
    using assms set_join_on [of "'' ''" ?ws]
    by (auto simp: cpu_list_str_def dest!: subsetD string_of_nonneg(3))
  then have "parse_cpu_mask (cpu_list_str S) = (\<Union>n \<in> S. mask_token (string_of_int n))"
    using assms ws
    by (simp add: parse_cpu_mask_Union replace_char_id cpu_list_str_def split_ws_join)
  also have "\<dots> = (\<Union>n \<in> S. {n})" using assms(2) by (auto simp: mask_token_int)
  finally show ?thesis by simp
qed

lemma run_end_covers:
  "run_end c ds = (e, rest) \<Longrightarrow> c \<le> e \<and> {c..e} \<union> set rest = insert c (set ds)"
proof (induction ds arbitrary: c)
  case (Cons d ds)
  show ?case
  proof (cases "d = c + 1")
    case True
    with Cons.prems have "run_end (c + 1) ds = (e, rest)" by simp
    from Cons.IH [OF this] have "c + 1 \<le> e"
      and "{c + 1..e} \<union> set rest = insert (c + 1) (set ds)" by auto
    moreover have "{c..e} = insert c {c + 1..e}" using \<open>c + 1 \<le> e\<close> by auto
    ultimately show ?thesis using True by auto
  next
    case False
    with Cons.prems show ?thesis by auto
  qed
qed auto

lemma cpu_runs_cover:
  "(\<Union>(a, b) \<in> set (cpu_runs cs). {a..b}) = set cs
     \<and> (\<forall>(a, b) \<in> set (cpu_runs cs). a \<in> set cs \<and> b \<in> set cs \<and> a \<le> b)"
proof (induction cs rule: cpu_runs.induct)
  case (2 c cs)
  obtain e rest where r: "run_end c cs = (e, rest)" by fastforce
  note cover = run_end_covers [OF r]
  have "c \<le> e" using cover by blast
  then have "e \<in> {c..e} \<union> set rest" by simp
  moreover have eq: "{c..e} \<union> set rest = insert c (set cs)" using cover by blast
  ultimately have "e \<in> set (c # cs)" by (simp only: list.set)
  moreover have "set rest \<subseteq> set (c # cs)" using cover by auto
  ultimately show ?case using 2 [OF r [symmetric]] cover by (auto simp: r)
qed simp

lemma run_str_plain:
  assumes "0 \<le> a" "0 \<le> b"
  shows "is_word (run_str (a, b))" "CHR '','' \<notin> set (run_str (a, b))"
    "CHR ''='' \<notin> set (run_str (a, b))" "one_line (run_str (a, b))"
    "mask_token (run_str (a, b)) = {a..b}"
  using assms
  by (auto simp: run_str_def string_of_nonneg mask_token_int mask_token_run is_word_def
      string_of_nonneg [unfolded is_word_def] is_space_def is_break_def
      simp del: append.simps intro: mask_token_run [simplified])

lemma split_range_str:
  assumes "\<forall>c \<in> set cs. 0 \<le> c" and "cs \<noteq> []"
  shows "split_on (CHR '','') (cpus_to_range_str cs) = map run_str (cpu_runs (sort cs))"
proof -
  have ne: "cpu_runs (sort cs) \<noteq> []" using cpu_runs_cover [of "sort cs"] assms(2) by auto
  have "list_all (\<lambda>w. CHR '','' \<notin> set w) (map run_str (cpu_runs (sort cs)))"
    using cpu_runs_cover [of "sort cs"] assms(1) by (auto simp: list_all_iff run_str_plain)
  with ne show ?thesis unfolding cpus_to_range_str_def by (intro split_on_join) simp_all
qed

lemma parse_range_str:
  assumes "\<forall>c \<in> set cs. 0 \<le> c"
  shows "parse_cpu_mask (cpus_to_range_str cs) = set cs"
    "(\<Union>chunk \<in> set (split_on (CHR '','') (cpus_to_range_str cs)).
        parse_cpu_mask (strip chunk)) = set cs"
proof -
  have runs: "0 \<le> a \<and> 0 \<le> b" if "(a, b) \<in> set (cpu_runs (sort cs))" for a b
    using cpu_runs_cover [of "sort cs"] assms that by auto
  have one: "parse_cpu_mask (strip (run_str r)) = {fst r..snd r}"
    if "r \<in> set (cpu_runs (sort cs))" for r
  proof -
    obtain a b where r: "r = (a, b)" by fastforce
    note ab = runs [OF that [unfolded r]]
    then show ?thesis
      using run_str_plain [of a b]
      by (simp add: r parse_cpu_mask_Union replace_char_id split_ws_word is_word_def)
  qed
  show two: "(\<Union>chunk \<in> set (split_on (CHR '','') (cpus_to_range_str cs)).
        parse_cpu_mask (strip chunk)) = set cs"
  proof (cases "cs = []")
    case True
    then show ?thesis
      by (simp add: cpus_to_range_str_def parse_cpu_mask_def replace_char_def)
  next
    case False
    have "(\<Union>chunk \<in> set (split_on (CHR '','') (cpus_to_range_str cs)).
        parse_cpu_mask (strip chunk)) = (\<Union>r \<in> set (cpu_runs (sort cs)). {fst r..snd r})"
      by (simp add: split_range_str [OF assms False] one)
    also have "\<dots> = set cs"
      using cpu_runs_cover [of "sort cs"] by (simp add: case_prod_unfold)
    finally show ?thesis .
  qed
  let ?ws = "map run_str (cpu_runs (sort cs))"
  have words: "list_all is_word ?ws" "\<forall>w \<in> set ?ws. CHR '','' \<notin> set w"
    using runs by (auto simp: list_all_iff run_str_plain)
  have "split_ws (replace_char (CHR '','') (CHR '' '') (cpus_to_range_str cs)) = ?ws"
    unfolding cpus_to_range_str_def replace_char_join [OF words(2)]
    by (rule split_ws_join [OF words(1)])
  then have "parse_cpu_mask (cpus_to_range_str cs) =
      (\<Union>r \<in> set (cpu_runs (sort cs)). mask_token (run_str r))"
    by (simp add: parse_cpu_mask_Union)
  also have "\<dots> = (\<Union>r \<in> set (cpu_runs (sort cs)). {fst r..snd r})"
    using runs by (intro SUP_cong) (auto simp: run_str_plain)
  also have "\<dots> = set cs"
    using cpu_runs_cover [of "sort cs"] by (simp add: case_prod_unfold)
  finally show "parse_cpu_mask (cpus_to_range_str cs) = set cs" .
qed

lemma range_str_chars:
  assumes "\<forall>c \<in> set cs. 0 \<le> c"
  shows "\<not> list_ex is_space (cpus_to_range_str cs)" "one_line (cpus_to_range_str cs)"
proof -
  have w: "is_word (run_str r) \<and> one_line (run_str r)" if "r \<in> set (cpu_runs (sort cs))" for r
    using cpu_runs_cover [of "sort cs"] assms that by (cases r) (auto simp: run_str_plain)
  then have "\<forall>x \<in> \<Union> (set (map set (map run_str (cpu_runs (sort cs))))).
      \<not> is_space x \<and> \<not> is_break x"
    by (auto simp: is_word_def one_line_def list_ex_iff)
  moreover have "\<not> is_space (CHR '','') \<and> \<not> is_break (CHR '','')"
    by (simp add: is_space_def is_break_def)
  ultimately have "\<forall>x \<in> set (cpus_to_range_str cs). \<not> is_space x \<and> \<not> is_break x"
    using set_join_on [of "'',''" "map run_str (cpu_runs (sort cs))"]
    unfolding cpus_to_range_str_def by auto
  then show "\<not> list_ex is_space (cpus_to_range_str cs)" "one_line (cpus_to_range_str cs)"
    by (auto simp: list_ex_iff one_line_def)
qed

lemma list_str_one_line:
  assumes "finite S" and "\<forall>c \<in> S. 0 \<le> c"
  shows "one_line (cpu_list_str S)"
proof -
  have "\<forall>x \<in> \<Union> (set (map set (map string_of_int (sorted_list_of_set S)))). \<not> is_break x"
    using assms string_of_nonneg(4) by (auto simp: one_line_def list_ex_iff)
  moreover have "\<not> is_break (CHR '' '')" by (simp add: is_break_def)
  ultimately show ?thesis
    using set_join_on [of "'' ''" "map string_of_int (sorted_list_of_set S)"]
    unfolding cpu_list_str_def one_line_def list_ex_iff by auto
qed

text \<open>A line that sets no affinity.\<close>

definition inert :: "string \<Rightarrow> bool" where
  "inert l = (\<not> starts_with (strip l) ''CPUAffinity='' \<or> strip l = ''CPUAffinity='')"

lemma last_affinity_skip: "list_all inert ls \<Longrightarrow> last_affinity (ls @ rest) = last_affinity rest"
  by (induction ls) (auto simp: Let_def inert_def)

lemma inert_head: "\<not> is_space c \<Longrightarrow> c \<noteq> CHR ''C'' \<Longrightarrow> inert (c # s)"
  using strip_head [of c s] by (auto simp: inert_def)

lemma inert_lines [simp]:
  "inert (CHR ''#'' # s)" "inert (CHR ''E'' # s)" "inert (CHR ''A'' # s)" "inert (CHR ''['' # s)"
  by (rule inert_head; simp add: is_space_def)+

lemma inert_reset [simp]: "inert ''CPUAffinity=''"
  by (simp add: inert_def is_space_def)

lemma last_join_on: "ws \<noteq> [] \<Longrightarrow> [] \<notin> set ws \<Longrightarrow> last (join_on sep ws) = last (last ws)"
proof (induction ws)
  case (Cons w ws)
  show ?case
  proof (cases "ws = []")
    case False
    with Cons have "last (join_on sep ws) = last (last ws)" by simp
    moreover have "join_on sep ws \<noteq> []"
      using Cons.prems False by (cases ws) (auto simp: join_on_Cons)
    ultimately show ?thesis using False by (simp add: join_on_Cons)
  qed (simp add: join_on_Cons)
qed simp

lemma last_cpu_list_str:
  assumes "finite S" and "\<forall>c \<in> S. 0 \<le> c" and "S \<noteq> {}"
  shows "cpu_list_str S \<noteq> []" "\<not> is_space (last (cpu_list_str S))"
proof -
  let ?xs = "sorted_list_of_set S"
  have ne: "?xs \<noteq> []" using assms by simp
  with assms have "0 \<le> last ?xs" by (metis last_in_set set_sorted_list_of_set)
  then have w: "is_word (string_of_int (last ?xs))" by (rule string_of_nonneg)
  then have "last (cpu_list_str S) = last (string_of_int (last ?xs))"
    using ne unfolding cpu_list_str_def
    using assms by (subst last_join_on) (auto simp: last_map)
  then show "\<not> is_space (last (cpu_list_str S))"
    using w by (auto simp: is_word_def list_ex_iff)
  show "cpu_list_str S \<noteq> []"
  proof
    assume "cpu_list_str S = []"
    then have "parse_cpu_mask (cpu_list_str S) = {}" by (simp add: parse_cpu_mask_def replace_char_def)
    with parse_cpu_list_str [OF assms(1,2)] assms(3) show False by simp
  qed
qed

lemma drop_in_round_trip:
  assumes "finite S" and "\<forall>c \<in> S. 0 \<le> c"
    and "one_line label" and "list_all one_line hooks"
  shows "read_drop_in_cpus (Some (render_drop_in S label hooks)) = S"
proof -
  note list_line = list_str_one_line [OF assms(1,2)]
  let ?m = "''CPUAffinity='' @ cpu_list_str S"
  let ?tail = "[''AllowedCPUs='', ''AllowedCPUs='' @ cpu_list_str S]
    @ map (\<lambda>h. ''ExecStartPost=+'' @ h) hooks"
  let ?head = "[''# CPU affinity managed by smd '' @ long_dash @ '' do not edit manually.'',
     ''# Role: '' @ label, ''# Regenerate: smd admin diag cpu-affinity --apply'',
     ''[Service]'', ''CPUAffinity='']"
  have "list_all one_line (?head @ [?m] @ ?tail)"
    using assms(3,4) list_line by (auto simp: is_break_def list_all_iff)
  moreover have "render_drop_in S label hooks = unlines (?head @ [?m] @ ?tail)"
    by (simp add: render_drop_in_def)
  ultimately have lines: "splitlines (render_drop_in S label hooks) = ?head @ [?m] @ ?tail"
    by (simp only: splitlines_unlines)
  have tail: "last_affinity (rev ?tail @ ls) = last_affinity ls" for ls
    by (rule last_affinity_skip) (simp add: list_all_iff)
  have "list_all inert (rev ?head)" by simp
  from last_affinity_skip [OF this, of "[]"] have head: "last_affinity (rev ?head) = {}"
    by (simp only: append_Nil2 last_affinity.simps)
  have strip_m: "strip ?m = ?m"
  proof (cases "S = {}")
    case True
    then show ?thesis by (simp add: cpu_list_str_def is_space_def)
  next
    case False
    from last_cpu_list_str [OF assms(1,2) False] show ?thesis
      by (intro strip_ends) (auto simp: is_space_def)
  qed
  have after_eq: "snd (split_once (CHR ''='') ?m) = cpu_list_str S"
    using split_once_append [of "CHR ''=''" "''CPUAffinity''" "cpu_list_str S"] by simp
  have "last_affinity (?m # rev ?head) = S"
  proof (cases "cpu_list_str S = []")
    case True
    then have "S = {}" using last_cpu_list_str(1) [OF assms(1,2)] by blast
    then show ?thesis using True head strip_m by (simp only: last_affinity.simps Let_def) simp
  next
    case False
    have "starts_with ?m ''CPUAffinity=''" "?m \<noteq> ''CPUAffinity=''" using False by simp_all
    then show ?thesis unfolding last_affinity.simps Let_def strip_m
      by (simp only: after_eq parse_cpu_list_str [OF assms(1,2)] simp_thms if_True)
  qed
  then show ?thesis
    using tail [of "?m # rev ?head"]
    by (simp only: read_drop_in_cpus_def lines option.case rev_append append_assoc rev.simps
        append_Cons append_Nil)
qed

lemma isolation_round_trip:
  assumes "finite S" and "\<forall>c \<in> S. 0 \<le> c" and "k \<in> set isolation_keys"
  shows "parse_cmdline_cpu_param (cmdline @ isolation_words S) k
           = parse_cmdline_cpu_param cmdline k \<union> S"
proof -
  let ?r = "cpus_to_range_str (sorted_list_of_set S)"
  have nn: "\<forall>c \<in> set (sorted_list_of_set S). 0 \<le> c" using assms by simp
  note chars = range_str_chars(1) [OF nn]
  let ?ws = "map (\<lambda>k. k @ ''='' @ ?r) isolation_keys"
  have words: "list_all is_word ?ws"
    using chars by (simp add: isolation_keys_def is_word_def is_space_def)
  have "isolation_words S = '' '' @ join_on '' '' ?ws"
    by (simp add: isolation_words_def isolation_keys_def Let_def join_on_def)
  then have split: "split_ws (cmdline @ isolation_words S) = split_ws cmdline @ ?ws"
    using split_ws_space [of "CHR '' ''" cmdline] split_ws_join [OF words] by simp
  have hit: "{t \<in> set ?ws. starts_with t (k @ ''='')} = {k @ ''='' @ ?r}"
    using assms(3) by (auto simp: isolation_keys_def)
  have "CHR ''='' \<notin> set k" using assms(3) by (auto simp: isolation_keys_def)
  then have "snd (split_once (CHR ''='') (k @ ''='' @ ?r)) = ?r" by simp
  then have "(\<Union>chunk \<in> set (split_on (CHR '','') (snd (split_once (CHR ''='') (k @ ''='' @ ?r)))).
      parse_cpu_mask (strip chunk)) = S"
    using parse_range_str(2) [OF nn] assms(1) by simp
  then show ?thesis
    unfolding parse_cmdline_Union split set_append Collect_disj_eq conj_disj_distribR Un_iff
    using hit by (simp add: UN_Un Un_commute)
qed

text \<open>C13. Every CPU list sigmond writes reads back as the CPUs that were written: the mask text,
  the kernel range text, the affinity drop-in of a unit (whatever its role text and hooks, one
  line each) and the words added to the kernel command line, which leave what the command line
  already isolated as it was; so after a boot with those words no reboot is pending.\<close>

theorem cpu_text_round_trip:
  assumes "finite S" and "\<forall>c \<in> S. 0 \<le> c"
    and "one_line label" and "list_all one_line hooks"
  shows "parse_cpu_mask (cpu_list_str S) = S
    \<and> parse_cpu_mask (cpus_to_range_str (sorted_list_of_set S)) = S
    \<and> read_drop_in_cpus (Some (render_drop_in S label hooks)) = S
    \<and> (\<forall>k. k \<in> set isolation_keys \<longrightarrow>
         parse_cmdline_cpu_param (cmdline @ isolation_words S) k
           = parse_cmdline_cpu_param cmdline k \<union> S)
    \<and> \<not> guest_isolation_reboot_pending S (Some (cmdline @ isolation_words S)) proc"
proof -
  have "\<forall>c \<in> set (sorted_list_of_set S). 0 \<le> c" using assms(1,2) by simp
  note range = parse_range_str(1) [OF this]
  have "''isolcpus'' \<in> set isolation_keys" by (simp add: isolation_keys_def)
  note isolated = isolation_round_trip [OF assms(1,2) this]
  show ?thesis
    using parse_cpu_list_str [OF assms(1,2)] range drop_in_round_trip [OF assms]
      isolation_round_trip [OF assms(1,2)] isolated assms(1)
    by (simp add: guest_isolation_reboot_pending_def)
qed

theorem cpu_text_round_trip_witness:
  "read_drop_in_cpus (Some (render_drop_in {0, 1, 8} ''radiod'' [''/bin/true''])) = {0, 1, 8}"
  using cpu_text_round_trip [of "{0, 1, 8}" "''radiod''" "[''/bin/true'']" "''quiet''" None]
  by (simp add: is_break_def)

end
