(* ===== verification/CpuPlacement.thy ===== *)
theory CpuPlacement
  imports CpuMask "HOL-Library.Multiset"
begin

text \<open>
  Where radiod runs (\<open>src/lib/sigmond/cpu.py\<close>): the physical cores of the host, the cores
  radiod may have, the core of each instance, the clock of each CPU, the layout of a Proxmox
  host, and the affinity plan of the whole suite.  What the code reads from \<open>/sys\<close>, \<open>/proc\<close>
  and systemd is an argument.  A core is a non-empty set of CPUs.
\<close>

section \<open>Physical cores\<close>

text \<open>The text of a CPU's \<open>thread_siblings_list\<close>, \<open>None\<close> when it cannot be read.\<close>

definition siblings_of :: "(int \<Rightarrow> string option) \<Rightarrow> int \<Rightarrow> cpus" where
  "siblings_of read cpu = (case read cpu of Some t \<Rightarrow> parse_cpu_mask (strip t) | None \<Rightarrow> {cpu})"

definition core_step ::
  "(int \<Rightarrow> string option) \<Rightarrow> int \<Rightarrow> cpus list \<times> (int, cpus) dict \<Rightarrow>
   py_error + cpus list \<times> (int, cpus) dict" where
  "core_step read cpu st =
     (let sibs = siblings_of read cpu; (seen, core_map) = st in
      if sibs \<in> set seen then Inr st
      else if sibs = {} then Inl (ValueError ''min() arg is an empty sequence'')
      else Inr (sibs # seen, AList.update (Min sibs) sibs core_map))"

fun pair_up :: "int list \<Rightarrow> cpus list" where
  "pair_up [] = []"
| "pair_up [a] = [{a}]"
| "pair_up (a # b # cs) = {a, b} # pair_up cs"

definition cpu_count :: "nat option \<Rightarrow> nat" where
  "cpu_count n = (case n of None \<Rightarrow> 1 | Some k \<Rightarrow> if k = 0 then 1 else k)"

definition get_physical_cores ::
  "nat option \<Rightarrow> (int \<Rightarrow> string option) \<Rightarrow> py_error + cpus list" where
  "get_physical_cores n read =
     ebind (efold (core_step read) (map int [0..<cpu_count n]) ([], [])) (\<lambda>(seen, core_map).
       let cores = map (\<lambda>k. dget core_map k {}) (sort (map fst core_map)) in
       Inr (if list_all (\<lambda>c. card c = 1) cores \<and> length cores > 1
            then pair_up (sort (concat (map sorted_list_of_set cores)))
            else cores))"

section \<open>The cores radiod may have\<close>

definition eligible_radiod_cores ::
  "cpus list \<Rightarrow> cpus \<Rightarrow> nat \<Rightarrow> cpus \<Rightarrow> cpus list" where
  "eligible_radiod_cores cores isolated need performance =
     (if cores = [] then []
      else
        let fast = filter (\<lambda>c. c \<subseteq> performance) cores in
        if performance \<noteq> {} \<and> fast = [] then []
        else
          let cores = (if performance = {} then cores else fast);
              off_boot = filter (\<lambda>c. 0 \<notin> c) cores in
          if off_boot = [] then cores
          else
            let confined = filter (\<lambda>c. c \<subseteq> isolated) off_boot;
                short = need - length confined;
                spare = sort_key (\<lambda>c. - Min c) (filter (\<lambda>c. c \<notin> set confined) off_boot) in
            if isolated \<noteq> {} \<and> confined \<noteq> [] then
              (if short = 0 then confined else confined @ take short spare)
            else off_boot)"

text \<open>The \<open>radiod_cpus\<close> override of \<open>[cpu_affinity]\<close>; \<open>repr\<close> is Python's text of a value
  that is neither a string, a number nor a boolean.\<close>

definition radiod_override :: "(pyval \<Rightarrow> string) \<Rightarrow> (string, pyval) dict \<Rightarrow> cpus" where
  "radiod_override repr ca =
     (let v = dget ca ''radiod_cpus'' (PStr []);
          w = (if py_truthy v then v else PStr []) in
      parse_cpu_mask (strip (py_str repr w)))"

definition keep_core ::
  "(string, cpus) dict \<Rightarrow> string \<Rightarrow> (string, cpus) dict \<times> cpus list \<Rightarrow>
   (string, cpus) dict \<times> cpus list" where
  "keep_core current unit st =
     (let (out, free) = st; have_now = dget current unit {} in
      if have_now \<in> set free then (AList.update unit have_now out, remove1 have_now free)
      else (out, free))"

definition place_core ::
  "cpus list \<Rightarrow> string \<Rightarrow> (string, cpus) dict \<times> cpus list \<Rightarrow>
   (string, cpus) dict \<times> cpus list" where
  "place_core chosen unit st =
     (let (out, free) = st in
      if unit \<in> set (map fst out) then (out, free)
      else case free of
          c # free' \<Rightarrow> (AList.update unit c out, free')
        | [] \<Rightarrow> (AList.update unit (if chosen = [] then {} else last chosen) out, []))"

definition chosen_cores ::
  "nat \<Rightarrow> cpus list \<Rightarrow> cpus \<Rightarrow> cpus \<Rightarrow> cpus list" where
  "chosen_cores n cores isolated performance =
     (let eligible = eligible_radiod_cores cores isolated n performance in
      drop (length eligible - n) eligible)"

definition assign_radiod_cores ::
  "(pyval \<Rightarrow> string) \<Rightarrow> string list \<Rightarrow> (string, pyval) dict \<Rightarrow> cpus list \<Rightarrow> cpus \<Rightarrow>
   (string, cpus) dict \<Rightarrow> cpus \<Rightarrow> (string, cpus) dict" where
  "assign_radiod_cores repr units ca cores isolated current performance =
     (if units = [] then []
      else if radiod_override repr ca \<noteq> {} then
        fold (\<lambda>u. AList.update u (radiod_override repr ca)) units []
      else
        let chosen = chosen_cores (length units) cores isolated performance;
            kept = fold (keep_core current) units ([], chosen) in
        fst (fold (place_core chosen) units kept))"

definition radiod_core_shortfall ::
  "(pyval \<Rightarrow> string) \<Rightarrow> string list \<Rightarrow> cpus list \<Rightarrow> cpus \<Rightarrow> (string, pyval) dict \<Rightarrow> cpus \<Rightarrow> nat"
where
  "radiod_core_shortfall repr units cores isolated ca performance =
     (if units = [] then 0
      else if radiod_override repr ca \<noteq> {} then 0
      else length units
        - length (eligible_radiod_cores cores isolated (length units) performance))"

section \<open>The layout of a Proxmox host\<close>

record host_layout =
  vm_pairs :: "int list list"
  radiod_pairs :: "int list list"
  worker_pairs :: "int list list"
  radiod_cpus :: "int list"
  worker_cpus :: "int list"
  vcpu_to_pcpu :: "int list"
  isolcpus :: "int list"
  vm_cores :: nat
  vm_threads :: nat
  vm_vcpu_count :: nat

definition compute_host_cpu_layout ::
  "int list list \<Rightarrow> int \<Rightarrow> nat \<Rightarrow> py_error + host_layout" where
  "compute_host_cpu_layout pairs local_radiod_count reserve =
     (let pairs = map sort pairs in
      if local_radiod_count < 1 then Inl (ValueError ''local_radiod_count must be >= 1'')
      else if set (map length pairs) \<noteq> {2} then
        Inl (ValueError ''host CPU layout requires uniform 2-way SMT pairs'')
      else if int (length pairs) < int reserve + local_radiod_count + 1 then
        Inl (ValueError ''too few HT pairs'')
      else
        let r = nat local_radiod_count;
            vm = take (length pairs - reserve) pairs;
            rad = drop (length vm - r) vm;
            work = take (length vm - r) vm in
        Inr \<lparr> vm_pairs = vm, radiod_pairs = rad, worker_pairs = work,
              radiod_cpus = concat rad, worker_cpus = concat work,
              vcpu_to_pcpu = concat vm, isolcpus = sort (concat vm),
              vm_cores = length vm, vm_threads = 2, vm_vcpu_count = length (concat vm) \<rparr>)"

definition shell_line :: "string \<Rightarrow> string \<Rightarrow> string" where
  "shell_line name val = name @ ''=\"'' @ val @ ''\"''"

definition spaced :: "int list \<Rightarrow> string" where
  "spaced xs = join_on '' '' (map string_of_int xs)"

definition layout_shell_vars :: "host_layout \<Rightarrow> string" where
  "layout_shell_vars l =
     join_on [newline]
       [shell_line ''RADIOD_CPUS'' (spaced (radiod_cpus l)),
        shell_line ''WORKER_CPUS'' (spaced (worker_cpus l)),
        shell_line ''VCPU_TO_PCPU'' (spaced (vcpu_to_pcpu l)),
        shell_line ''ISOLCPUS_RANGE'' (cpus_to_range_str (isolcpus l)),
        shell_line ''VM_CORES'' (string_of_int (int (vm_cores l))),
        shell_line ''VM_THREADS'' (string_of_int (int (vm_threads l))),
        shell_line ''VM_VCPU_COUNT'' (string_of_int (int (vm_vcpu_count l)))]"

section \<open>Clocks\<close>

record clock_plan =
  clock_mode :: string
  fast_cpus :: cpus
  capped_radiod_cpus :: cpus
  fft_cpus :: "(string, int) dict"

definition clock_label :: "clock_plan \<Rightarrow> string" where
  "clock_label p = (if clock_mode p = ''fft-pair'' then ''fft pair(s)'' else ''radiod cpus'')"

fun sibling_set :: "int \<Rightarrow> cpus list \<Rightarrow> cpus" where
  "sibling_set cpu [] = {cpu}"
| "sibling_set cpu (core # cores) = (if cpu \<in> core then core else sibling_set cpu cores)"

definition union_of :: "(string, cpus) dict \<Rightarrow> cpus" where
  "union_of d = \<Union> (set (map snd d))"

definition fft_step ::
  "cpus list \<Rightarrow> string \<times> cpus \<Rightarrow> cpus \<times> (string, int) dict \<Rightarrow> cpus \<times> (string, int) dict" where
  "fft_step physical uc st =
     (case (uc, st) of ((unit, cpus), (fast, fft)) \<Rightarrow>
        if cpus = {} then (fast, fft)
        else (fast \<union> sibling_set (Min cpus) physical, AList.update unit (Min cpus) fft))"

definition plan_clock_policy :: "(string, cpus) dict \<Rightarrow> cpus list \<Rightarrow> string \<Rightarrow> clock_plan" where
  "plan_clock_policy by_unit physical fast_mode =
     (if fast_mode \<noteq> ''fft-pair'' \<or> by_unit = [] then
        \<lparr> clock_mode = ''radiod'', fast_cpus = union_of by_unit, capped_radiod_cpus = {},
          fft_cpus = [] \<rparr>
      else
        let (fast, fft) = fold (fft_step physical) by_unit ({}, []) in
        \<lparr> clock_mode = ''fft-pair'', fast_cpus = fast,
          capped_radiod_cpus = union_of by_unit - fast, fft_cpus = fft \<rparr>)"

section \<open>The affinity plan\<close>

record cache_island =
  island_level :: int
  island_type :: string
  island_cpus :: cpus

definition l3_island_cpus_for :: "cache_island list \<Rightarrow> cpus \<Rightarrow> cpus" where
  "l3_island_cpus_for islands cpus =
     (let owned = fold (\<lambda>i acc. if island_cpus i \<inter> cpus \<noteq> {} then acc \<union> island_cpus i else acc)
                    islands {} in
      if owned = {} then cpus else owned)"

definition is_split_l3 :: "cache_island list \<Rightarrow> nat \<Rightarrow> bool" where
  "is_split_l3 islands logical =
     (let real = filter (\<lambda>c. c \<noteq> {}) (map island_cpus islands) in
      if length real \<le> 1 then False else list_ex (\<lambda>c. card c < logical) real)"

record affinity_plan =
  plan_radiod :: "(string, cpus) dict"
  other_cpus :: cpus
  physical_cores :: "cpus list"
  cache_split :: bool
  radiod_l3_cpus :: cpus
  reserved_idle_cpus :: cpus

definition recommended_isolcpus :: "affinity_plan \<Rightarrow> cpus" where
  "recommended_isolcpus p =
     (if cache_split p \<and> radiod_l3_cpus p \<noteq> {} \<and> radiod_l3_cpus p \<inter> other_cpus p = {}
      then radiod_l3_cpus p else union_of (plan_radiod p))"

definition cache_aware_of :: "(string, pyval) dict \<Rightarrow> bool" where
  "cache_aware_of ca =
     (case dget ca ''cache_aware'' (PBool True) of
        PStr s \<Rightarrow> lower (strip s) \<notin> set [''false'', ''0'', ''no'', ''off'']
      | v \<Rightarrow> py_truthy v)"

text \<open>\<open>ca.get('other_cpus', '').strip()\<close>\<close>

definition other_spec :: "(string, pyval) dict \<Rightarrow> py_error + string" where
  "other_spec ca = (case dget ca ''other_cpus'' (PStr []) of
       PStr s \<Rightarrow> Inr (strip s) | _ \<Rightarrow> Inl AttributeError)"

record host_facts =
  hf_cores :: "cpus list"
  hf_instances :: "string list"
  hf_islands :: "cache_island list"
  hf_logical :: nat
  hf_isolated :: cpus
  hf_current :: "(string, cpus) dict"
  hf_performance :: cpus

definition compute_affinity_plan ::
  "(pyval \<Rightarrow> string) \<Rightarrow> (string, pyval) dict \<Rightarrow> host_facts \<Rightarrow> py_error + affinity_plan" where
  "compute_affinity_plan repr ca h =
     (let radiod = assign_radiod_cores repr (hf_instances h) ca (hf_cores h) (hf_isolated h)
                     (hf_current h) (hf_performance h);
          radiod_all = union_of radiod;
          all_cpus = set (map int [0..<hf_logical h]);
          split = is_split_l3 (hf_islands h) (hf_logical h);
          l3 = (if radiod_all = {} then {} else l3_island_cpus_for (hf_islands h) radiod_all);
          segregate = (split \<and> cache_aware_of ca \<and> l3 \<noteq> {} \<and> l3 \<noteq> all_cpus) in
      ebind (other_spec ca) (\<lambda>spec.
        let other = (if spec \<noteq> [] then parse_cpu_mask spec
                     else if segregate then all_cpus - l3 else all_cpus - radiod_all) in
        Inr \<lparr> plan_radiod = radiod, other_cpus = other, physical_cores = hf_cores h,
              cache_split = split, radiod_l3_cpus = l3,
              reserved_idle_cpus = (if segregate then l3 - radiod_all - other else {}) \<rparr>))"

section \<open>The physical cores are a partition of the CPUs\<close>

text \<open>What the kernel's sibling lists look like: every CPU is in its own list, lists only CPUs of
  the host, and the CPUs of a list have the same list.\<close>

definition siblings_ok :: "nat \<Rightarrow> (int \<Rightarrow> string option) \<Rightarrow> bool" where
  "siblings_ok n read =
     list_all (\<lambda>i. i \<in> siblings_of read i
       \<and> (\<forall>j \<in> siblings_of read i. 0 \<le> j \<and> j < int n \<and> siblings_of read j = siblings_of read i))
     (map int [0..<n])"

lemma siblings_okD:
  assumes "siblings_ok n read" and "0 \<le> i" and "i < int n"
  shows "i \<in> siblings_of read i" "siblings_of read i \<subseteq> {0..<int n}"
    "j \<in> siblings_of read i \<Longrightarrow> siblings_of read j = siblings_of read i"
proof -
  have "i \<in> set (map int [0..<n])" using assms(2,3) by (auto intro: image_eqI [of _ _ "nat i"])
  then show "i \<in> siblings_of read i" "siblings_of read i \<subseteq> {0..<int n}"
    "j \<in> siblings_of read i \<Longrightarrow> siblings_of read j = siblings_of read i"
    using assms(1) unfolding siblings_ok_def list_all_iff by fastforce+
qed

lemma siblings_disjoint:
  assumes "siblings_ok n read" and "0 \<le> i" "i < int n" and "0 \<le> j" "j < int n"
    and "x \<in> siblings_of read i" "x \<in> siblings_of read j"
  shows "siblings_of read i = siblings_of read j"
  using siblings_okD(3) [OF assms(1-3,6)] siblings_okD(3) [OF assms(1,4,5,7)] by simp

lemma finite_siblings [simp]: "finite (siblings_of read i)"
  by (simp add: siblings_of_def split: option.split)

text \<open>The state of the loop after the CPUs below \<open>k\<close>.\<close>

definition core_inv ::
  "(int \<Rightarrow> string option) \<Rightarrow> nat \<Rightarrow> cpus list \<times> (int, cpus) dict \<Rightarrow> bool" where
  "core_inv read k st \<longleftrightarrow>
     set (fst st) = siblings_of read ` int ` {0..<k} \<and>
     (\<forall>m S. map_of (snd st) m = Some S \<longleftrightarrow> S \<in> set (fst st) \<and> m = Min S) \<and>
     distinct (map fst (snd st))"

lemma core_step_inv:
  assumes ok: "siblings_ok n read" and k: "k < n" and inv: "core_inv read k st"
  shows "\<exists>st'. core_step read (int k) st = Inr st' \<and> core_inv read (Suc k) st'"
proof -
  obtain seen m where st: "st = (seen, m)" by fastforce
  let ?S = "siblings_of read (int k)"
  have mem: "int k \<in> ?S" using siblings_okD(1) [OF ok] k by simp
  have seen: "set seen = siblings_of read ` int ` {0..<k}"
    and m: "\<And>j S. map_of m j = Some S \<longleftrightarrow> S \<in> set seen \<and> j = Min S"
    and dist: "distinct (map fst m)"
    using inv by (auto simp: core_inv_def st)
  have range: "{0..<Suc k} = insert k {0..<k}" by auto
  show ?thesis
  proof (cases "?S \<in> set seen")
    case True
    then have "siblings_of read ` int ` {0..<Suc k} = set seen"
      unfolding range image_insert seen by (rule insert_absorb)
    then show ?thesis using True inv by (simp add: core_step_def st core_inv_def)
  next
    case False
    have apart: "Min S \<noteq> Min ?S" if "S \<in> set seen" for S
    proof
      assume eq: "Min S = Min ?S"
      obtain i where i: "i < k" "S = siblings_of read (int i)"
        using \<open>S \<in> set seen\<close> unfolding seen by auto
      have "S \<noteq> {}" using i siblings_okD(1) [OF ok, of "int i"] k by auto
      then have "Min S \<in> S" using i by (intro Min_in) simp_all
      moreover have "Min ?S \<in> ?S" using mem by (intro Min_in) auto
      ultimately have "S = ?S"
        using siblings_disjoint [OF ok, of "int i" "int k" "Min S"] i k eq by simp
      with False that show False by simp
    qed
    have "?S \<noteq> {}" using mem by auto
    then have "core_step read (int k) st = Inr (?S # seen, AList.update (Min ?S) ?S m)"
      using False by (simp add: core_step_def st Let_def)
    moreover have "core_inv read (Suc k) (?S # seen, AList.update (Min ?S) ?S m)"
      unfolding core_inv_def
    proof (intro conjI allI)
      show "set (fst (?S # seen, AList.update (Min ?S) ?S m)) = siblings_of read ` int ` {0..<Suc k}"
        using seen range by simp
      show "distinct (map fst (snd (?S # seen, AList.update (Min ?S) ?S m)))"
        using dist by (simp add: distinct_update)
      show "map_of (snd (?S # seen, AList.update (Min ?S) ?S m)) j = Some T \<longleftrightarrow>
          T \<in> set (fst (?S # seen, AList.update (Min ?S) ?S m)) \<and> j = Min T" for j T
        using m [of j T] apart [of T] by (cases "T \<in> set seen") (auto simp: update_conv')
    qed
    ultimately show ?thesis by blast
  qed
qed

lemma core_loop:
  assumes "siblings_ok n read" and "k \<le> n"
  shows "\<exists>st. efold (core_step read) (map int [0..<k]) ([], []) = Inr st \<and> core_inv read k st"
  using assms(2)
proof (induction k)
  case 0
  then show ?case by (simp add: core_inv_def)
next
  case (Suc k)
  then obtain st where "efold (core_step read) (map int [0..<k]) ([], []) = Inr st"
    and "core_inv read k st" by auto
  with core_step_inv [OF assms(1), of k st] Suc.prems show ?case
    by (fastforce simp: efold_append)
qed

text \<open>Cores that are disjoint and in the order of their lowest CPU.\<close>

definition ordered_cores :: "cpus list \<Rightarrow> bool" where
  "ordered_cores cs \<longleftrightarrow>
     (\<forall>c \<in> set cs. c \<noteq> {} \<and> finite c) \<and> sorted_wrt (\<lambda>a b. a \<inter> b = {} \<and> Min a < Min b) cs"

lemma ordered_pair_up:
  assumes "sorted xs" and "distinct xs"
  shows "ordered_cores (pair_up xs) \<and> \<Union> (set (pair_up xs)) = set xs"
  using assms
proof (induction xs rule: pair_up.induct)
  case (3 a b cs)
  then have IH: "ordered_cores (pair_up cs)" and un: "\<Union> (set (pair_up cs)) = set cs" by auto
  have "a < b" using 3 by auto
  have above: "\<forall>x \<in> set cs. b < x" using 3 by (auto simp: order_le_less)
  have "{a, b} \<inter> c = {} \<and> Min {a, b} < Min c" if "c \<in> set (pair_up cs)" for c
  proof -
    have sub: "c \<subseteq> set cs" using un that by auto
    have ne: "c \<noteq> {}" "finite c" using IH that by (auto simp: ordered_cores_def)
    then have "Min c \<in> set cs" using sub Min_in by blast
    with above sub \<open>a < b\<close> show ?thesis by fastforce
  qed
  then show ?case using IH un by (auto simp: ordered_cores_def)
qed (simp_all add: ordered_cores_def)

lemma ordered_by_min:
  assumes "sorted ks" and "distinct ks" and "\<And>k. k \<in> set ks \<Longrightarrow> f k \<noteq> {} \<and> finite (f k) \<and> Min (f k) = k"
    and "\<And>j k. j \<in> set ks \<Longrightarrow> k \<in> set ks \<Longrightarrow> j \<noteq> k \<Longrightarrow> f j \<inter> f k = {}"
  shows "ordered_cores (map f ks)"
  using assms by (induction ks) (auto simp: ordered_cores_def order_le_less)

lemma single_cores:
  assumes "\<forall>c \<in> set cores. card c = 1" and "ordered_cores cores"
  shows "distinct (concat (map sorted_list_of_set cores))"
    "set (concat (map sorted_list_of_set cores)) = \<Union> (set cores)"
proof -
  show "set (concat (map sorted_list_of_set cores)) = \<Union> (set cores)"
    using assms(2) by (auto simp: ordered_cores_def)
  show "distinct (concat (map sorted_list_of_set cores))"
    using assms
  proof (induction cores)
    case (Cons c cs)
    then have "distinct (concat (map sorted_list_of_set cs))" by (auto simp: ordered_cores_def)
    moreover have "c \<inter> \<Union> (set cs) = {}" using Cons.prems by (auto simp: ordered_cores_def)
    moreover have "set (concat (map sorted_list_of_set cs)) = \<Union> (set cs)" "finite c"
      using Cons.prems by (auto simp: ordered_cores_def)
    ultimately show ?case by simp
  qed simp
qed

text \<open>When the kernel's sibling lists are consistent, the physical cores are a partition of
  the host's CPUs, in the order of their lowest CPU, and reading them raises nothing; this also
  holds of the pairs assumed when no CPU reports a sibling.\<close>

theorem physical_cores_partition:
  assumes "siblings_ok (cpu_count n) read"
  shows "\<exists>cores. get_physical_cores n read = Inr cores \<and> ordered_cores cores
    \<and> \<Union> (set cores) = set (map int [0..<cpu_count n])"
proof -
  let ?n = "cpu_count n"
  obtain seen m where loop: "efold (core_step read) (map int [0..<?n]) ([], []) = Inr (seen, m)"
    and inv: "core_inv read ?n (seen, m)"
    using core_loop [OF assms order_refl] by fastforce
  let ?ks = "sort (map fst m)"
  let ?cores = "map (\<lambda>k. dget m k {}) ?ks"
  have at: "dget m k {} \<in> set seen \<and> Min (dget m k {}) = k" if k: "k \<in> set ?ks" for k
  proof -
    obtain S where "map_of m k = Some S" using k by (metis keys_iff_map_of set_sort)
    moreover from this have "S \<in> set seen \<and> k = Min S"
      using inv unfolding core_inv_def by (metis fst_conv snd_conv)
    ultimately show ?thesis by simp
  qed
  have seen: "set seen = siblings_of read ` int ` {0..<?n}" using inv by (simp add: core_inv_def)
  have own: "T \<noteq> {} \<and> finite T \<and> T \<subseteq> {0..<int ?n}" if T: "T \<in> set seen" for T
  proof -
    obtain i where "i < ?n" "T = siblings_of read (int i)" using T unfolding seen by auto
    with siblings_okD(1,2) [OF assms, of "int i"] show ?thesis by auto
  qed
  have "ordered_cores ?cores"
  proof (rule ordered_by_min)
    show "distinct ?ks" using inv by (simp add: core_inv_def)
    show "dget m k {} \<noteq> {} \<and> finite (dget m k {}) \<and> Min (dget m k {}) = k"
      if "k \<in> set ?ks" for k
      using at [OF that] own by blast
    show "dget m j {} \<inter> dget m k {} = {}" if j: "j \<in> set ?ks" and k: "k \<in> set ?ks" and ne: "j \<noteq> k" for j k
    proof -
      obtain a b where a: "a < ?n" "dget m j {} = siblings_of read (int a)"
        and b: "b < ?n" "dget m k {} = siblings_of read (int b)"
        using at [OF j] at [OF k] unfolding seen by auto
      have "dget m j {} \<noteq> dget m k {}" using at [OF j] at [OF k] ne by metis
      then show ?thesis
        using siblings_disjoint [OF assms, of "int a" "int b"] a b by auto
    qed
  qed simp
  moreover have all: "\<Union> (set ?cores) = set (map int [0..<?n])"
  proof
    show "\<Union> (set ?cores) \<subseteq> set (map int [0..<?n])"
    proof
      fix x assume "x \<in> \<Union> (set ?cores)"
      then obtain k where "k \<in> set ?ks" "x \<in> dget m k {}" by auto
      with at [of k] own have "x \<in> {0..<int ?n}" by blast
      then show "x \<in> set (map int [0..<?n])" by (auto intro: image_eqI [of _ _ "nat x"])
    qed
    show "set (map int [0..<?n]) \<subseteq> \<Union> (set ?cores)"
    proof
      fix x assume "x \<in> set (map int [0..<?n])"
      then obtain i where i: "i < ?n" "x = int i" by auto
      let ?S = "siblings_of read x"
      have "?S \<in> set seen" using i by (auto simp: seen)
      then have key: "map_of m (Min ?S) = Some ?S"
        using inv unfolding core_inv_def by (metis fst_conv snd_conv)
      then have "Min ?S \<in> set ?ks" by (metis keys_iff_map_of set_sort)
      then have "?S \<in> set ?cores" using key by (auto intro: image_eqI [of _ _ "Min ?S"])
      moreover have "x \<in> ?S" using siblings_okD(1) [OF assms, of x] i by simp
      ultimately show "x \<in> \<Union> (set ?cores)" by blast
    qed
  qed
  moreover have "ordered_cores ps \<and> \<Union> (set ps) = \<Union> (set ?cores)"
    if "\<forall>c \<in> set ?cores. card c = 1"
      and "ps = pair_up (sort (concat (map sorted_list_of_set ?cores)))" for ps
    using ordered_pair_up [of "sort (concat (map sorted_list_of_set ?cores))"]
      single_cores [OF that(1) calculation(1)] that(2) by simp
  ultimately show ?thesis
    by (auto simp: get_physical_cores_def loop Let_def list_all_iff)
qed

definition example_siblings :: "int \<Rightarrow> string option" where
  "example_siblings cpu = (if even cpu then Some (string_of_int cpu @ ''-'' @ string_of_int (cpu + 1))
     else Some (string_of_int (cpu - 1) @ ''-'' @ string_of_int cpu))"

theorem physical_cores_partition_witness:
  "\<exists>cores. get_physical_cores (Some 4) example_siblings = Inr cores
     \<and> \<Union> (set cores) = {0, 1, 2, 3}"
proof -
  have "siblings_ok (cpu_count (Some 4)) example_siblings" by code_simp
  from physical_cores_partition [OF this] show ?thesis
    by (fastforce simp: cpu_count_def upt_rec)
qed

section \<open>Eligible cores\<close>

text \<open>The three narrowings of \<open>eligible_radiod_cores\<close>, each on its own.\<close>

definition performance_cores :: "cpus list \<Rightarrow> cpus \<Rightarrow> cpus list" where
  "performance_cores cores performance =
     (if performance = {} then cores else filter (\<lambda>c. c \<subseteq> performance) cores)"

definition off_boot_cores :: "cpus list \<Rightarrow> cpus \<Rightarrow> cpus list" where
  "off_boot_cores cores performance = filter (\<lambda>c. 0 \<notin> c) (performance_cores cores performance)"

definition isolated_cores :: "cpus list \<Rightarrow> cpus \<Rightarrow> cpus \<Rightarrow> cpus list" where
  "isolated_cores cores isolated performance =
     (if isolated = {} then [] else filter (\<lambda>c. c \<subseteq> isolated) (off_boot_cores cores performance))"

definition spare_cores :: "cpus list \<Rightarrow> cpus \<Rightarrow> cpus \<Rightarrow> cpus list" where
  "spare_cores cores isolated performance =
     sort_key (\<lambda>c. - Min c) (filter (\<lambda>c. c \<notin> set (isolated_cores cores isolated performance))
       (off_boot_cores cores performance))"

lemmas narrowings = performance_cores_def off_boot_cores_def isolated_cores_def spare_cores_def

lemma eligible_cases:
  "eligible_radiod_cores cores isolated need performance =
     (if off_boot_cores cores performance = [] then performance_cores cores performance
      else if isolated_cores cores isolated performance = [] then off_boot_cores cores performance
      else isolated_cores cores isolated performance
        @ take (need - length (isolated_cores cores isolated performance))
            (spare_cores cores isolated performance))"
  by (cases "cores = []"; cases "performance = {}"; cases "isolated = {}";
      cases "filter (\<lambda>c. c \<subseteq> performance) cores = []")
    (simp_all add: eligible_radiod_cores_def narrowings Let_def)

lemma spare_cores_facts:
  assumes "distinct cores"
  shows "distinct (isolated_cores cores isolated performance @ spare_cores cores isolated performance)"
    "set (isolated_cores cores isolated performance) \<union> set (spare_cores cores isolated performance)
       = set (off_boot_cores cores performance)"
    "length (isolated_cores cores isolated performance)
       + length (spare_cores cores isolated performance) = length (off_boot_cores cores performance)"
proof -
  have off: "distinct (off_boot_cores cores performance)"
    using assms by (simp add: off_boot_cores_def performance_cores_def)
  show d: "distinct (isolated_cores cores isolated performance @ spare_cores cores isolated performance)"
    using off by (auto simp: spare_cores_def isolated_cores_def)
  show u: "set (isolated_cores cores isolated performance) \<union> set (spare_cores cores isolated performance)
       = set (off_boot_cores cores performance)"
    by (auto simp: spare_cores_def isolated_cores_def)
  show "length (isolated_cores cores isolated performance)
       + length (spare_cores cores isolated performance) = length (off_boot_cores cores performance)"
    using distinct_card [OF d] distinct_card [OF off] u by simp
qed

lemma distinct_eligible:
  assumes "distinct cores"
  shows "distinct (eligible_radiod_cores cores isolated need performance)"
proof -
  have "distinct (performance_cores cores performance)" "distinct (off_boot_cores cores performance)"
    using assms by (simp_all add: off_boot_cores_def performance_cores_def)
  moreover have "set (take k xs) \<subseteq> set xs" for k and xs :: "cpus list"
    by (rule set_take_subset)
  ultimately show ?thesis
    using spare_cores_facts(1) [OF assms, of isolated performance]
    by (auto simp: eligible_cases dest: in_set_takeD)
qed

lemma take_of_sorted:
  assumes "sorted (map f xs)" and "x \<in> set (take k xs)" and "y \<in> set (drop k xs)"
  shows "f x \<le> f y"
proof -
  have "sorted (map f (take k xs) @ map f (drop k xs))"
    using assms(1) by (simp flip: map_append)
  with assms(2,3) show ?thesis by (auto simp: sorted_append)
qed

text \<open>Which cores radiod may have.  They are distinct cores of the host; an efficiency core
  is never among them when the part is hybrid; CPU 0's core is never among them when any other
  performance core exists; there is none only when no performance core exists.  When some such
  core is isolated, every isolated one is offered, others only as far as the instances need
  them, and then the highest-numbered first; otherwise every core off the boot CPU is.\<close>

theorem eligible_cores_exact:
  fixes cores isolated performance need
  defines "r \<equiv> eligible_radiod_cores cores isolated need performance"
    and "fenced \<equiv> isolated_cores cores isolated performance"
    and "off \<equiv> off_boot_cores cores performance"
  assumes "distinct cores"
  shows "distinct r \<and> set r \<subseteq> set cores
    \<and> (performance \<noteq> {} \<longrightarrow> (\<forall>c \<in> set r. c \<subseteq> performance))
    \<and> (r = [] \<longleftrightarrow> performance_cores cores performance = [])
    \<and> (off \<noteq> [] \<longrightarrow> (\<forall>c \<in> set r. 0 \<notin> c))
    \<and> (off \<noteq> [] \<and> fenced = [] \<longrightarrow> r = off)
    \<and> (fenced \<noteq> [] \<longrightarrow> set fenced \<subseteq> set r \<and> length r = max (length fenced) (min need (length off))
         \<and> (\<forall>c \<in> set r - set fenced. \<forall>d \<in> set off - set r. Min d \<le> Min c))"
proof -
  let ?perf = "performance_cores cores performance"
  let ?spare = "spare_cores cores isolated performance"
  let ?k = "need - length fenced"
  have r: "r = (if off = [] then ?perf else if fenced = [] then off else fenced @ take ?k ?spare)"
    by (simp add: r_def fenced_def off_def eligible_cases)
  note facts = spare_cores_facts [OF assms(4), of isolated performance, folded fenced_def off_def]
  have off_sub: "set off \<subseteq> set ?perf" "\<forall>c \<in> set off. 0 \<notin> c" "?perf = [] \<Longrightarrow> off = []"
    by (auto simp: off_def off_boot_cores_def)
  have perf: "set ?perf \<subseteq> set cores" "performance \<noteq> {} \<Longrightarrow> \<forall>c \<in> set ?perf. c \<subseteq> performance"
    by (auto simp: performance_cores_def)
  have in_off: "set r \<subseteq> set off" if "off \<noteq> []"
    using that facts(2) by (auto simp: r dest: in_set_takeD)
  have sub: "set r \<subseteq> set ?perf" using in_off off_sub(1) by (cases "off = []") (auto simp: r)
  have fenced_off: "off \<noteq> []" if "fenced \<noteq> []" using that facts(2) by auto
  have empty: "r = [] \<longleftrightarrow> ?perf = []" using off_sub(3) by (auto simp: r)
  have len: "length r = max (length fenced) (min need (length off))" if "fenced \<noteq> []"
    using that fenced_off facts(3) by (simp add: r)
  have top: "Min d \<le> Min c" if fenced: "fenced \<noteq> []" and c: "c \<in> set r - set fenced"
    and d: "d \<in> set off - set r" for c d
  proof -
    have "c \<in> set (take ?k ?spare)" using c fenced fenced_off by (auto simp: r)
    moreover have "d \<in> set ?spare" "d \<notin> set (take ?k ?spare)"
      using d fenced fenced_off facts(2) by (auto simp: r)
    then have "d \<in> set (drop ?k ?spare)" by (metis Un_iff append_take_drop_id set_append)
    moreover have "sorted (map (\<lambda>c. - Min c) ?spare)" by (simp add: spare_cores_def)
    ultimately show ?thesis using take_of_sorted by fastforce
  qed
  have "distinct r" unfolding r_def by (rule distinct_eligible [OF assms(4)])
  moreover have "set r \<subseteq> set cores" using sub perf(1) by blast
  moreover have "performance \<noteq> {} \<longrightarrow> (\<forall>c \<in> set r. c \<subseteq> performance)" using sub perf(2) by blast
  moreover have "off \<noteq> [] \<longrightarrow> (\<forall>c \<in> set r. 0 \<notin> c)" using in_off off_sub(2) by blast
  moreover have "off \<noteq> [] \<and> fenced = [] \<longrightarrow> r = off" by (simp add: r)
  moreover have "set fenced \<subseteq> set r" if "fenced \<noteq> []" using that fenced_off by (simp add: r)
  ultimately show ?thesis using empty len top by blast
qed

theorem eligible_cores_exact_witness:
  "eligible_radiod_cores [{0, 1}, {2, 3}, {4, 5}] {} 1 {} = [{2, 3}, {4, 5}]"
proof -
  have "distinct [{0, 1}, {2, 3}, {4, 5 :: int}]" by code_simp
  moreover have "off_boot_cores [{0, 1}, {2, 3}, {4, 5}] {} = [{2, 3}, {4, 5}]"
    "isolated_cores [{0, 1}, {2, 3}, {4, 5}] {} {} = []"
    by code_simp+
  ultimately show ?thesis
    using eligible_cores_exact [where cores = "[{0, 1}, {2, 3}, {4, 5}]" and isolated = "{}"
        and performance = "{}" and need = 1] by simp
qed

section \<open>The core of each instance\<close>

lemma update_fresh: "k \<notin> set (map fst d) \<Longrightarrow> AList.update k v d = d @ [(k, v)]"
  by (induction d) auto

lemma distinct_chosen_cores: "distinct cores \<Longrightarrow> distinct (chosen_cores n cores isolated performance)"
  by (simp add: chosen_cores_def Let_def distinct_eligible)

lemma length_chosen_cores:
  "length (chosen_cores n cores isolated performance)
     = min n (length (eligible_radiod_cores cores isolated n performance))"
  by (simp add: chosen_cores_def Let_def)

text \<open>What both loops keep: every chosen core is free or handed out, and none twice while some
  are free.\<close>

definition cores_inv :: "'c list \<Rightarrow> ('u, 'c) dict \<times> 'c list \<Rightarrow> bool" where
  "cores_inv chosen st \<longleftrightarrow>
     distinct (map fst (fst st)) \<and> set (map snd (fst st)) \<union> set (snd st) = set chosen \<and>
     distinct (snd st) \<and>
     (snd st \<noteq> [] \<longrightarrow> distinct (map snd (fst st)) \<and> set (map snd (fst st)) \<inter> set (snd st) = {})"

definition all_apart :: "('u, 'c) dict \<times> 'c list \<Rightarrow> bool" where
  "all_apart st \<longleftrightarrow> distinct (map snd (fst st)) \<and> set (map snd (fst st)) \<inter> set (snd st) = {}"

lemma cores_inv_take:
  assumes "cores_inv chosen (out, free)" and "all_apart (out, free)" and "u \<notin> set (map fst out)"
    and "c \<in> set free"
  shows "cores_inv chosen (out @ [(u, c)], remove1 c free)
    \<and> all_apart (out @ [(u, c)], remove1 c free)"
  using assms by (auto simp: cores_inv_def all_apart_def)

lemma cores_inv_pop:
  "cores_inv chosen (out, c # free) \<Longrightarrow> u \<notin> set (map fst out) \<Longrightarrow>
     cores_inv chosen (out @ [(u, c)], free)"
  by (auto simp: cores_inv_def)

lemma cores_inv_share:
  "cores_inv chosen (out, []) \<Longrightarrow> u \<notin> set (map fst out) \<Longrightarrow> c \<in> set chosen \<Longrightarrow>
     cores_inv chosen (out @ [(u, c)], [])"
  by (auto simp: cores_inv_def)

lemma keep_core_step:
  assumes "cores_inv chosen (out, free)" and "all_apart (out, free)"
    and "unit \<notin> set (map fst out)"
    and "keep_core current unit (out, free) = (out', free')"
  shows "cores_inv chosen (out', free')" "all_apart (out', free')"
    "set (map fst out') \<subseteq> insert unit (set (map fst out))"
    "set free' = set free - {dget current unit {}}"
proof -
  have "cores_inv chosen (out', free') \<and> all_apart (out', free')
    \<and> set (map fst out') \<subseteq> insert unit (set (map fst out))
    \<and> set free' = set free - {dget current unit {}}"
proof (cases "dget current unit {} \<in> set free")
  case True
  then have "out' = out @ [(unit, dget current unit {})]" "free' = remove1 (dget current unit {}) free"
    using assms(3,4) by (simp_all add: keep_core_def Let_def update_fresh)
  moreover have "distinct free" using assms(1) by (simp add: cores_inv_def)
  ultimately show ?thesis using cores_inv_take [OF assms(1-3) True] True by simp
next
  case False
  then have "out' = out" "free' = free" using assms(4) by (simp_all add: keep_core_def Let_def)
  with False assms(1,2) show ?thesis by (simp add: subset_insertI)
qed
  then show "cores_inv chosen (out', free')" "all_apart (out', free')"
    "set (map fst out') \<subseteq> insert unit (set (map fst out))"
    "set free' = set free - {dget current unit {}}" by simp_all
qed

lemma keep_loop:
  assumes "distinct chosen" and "distinct us"
    and "fold (keep_core current) us ([], chosen) = (out, free)"
  shows "cores_inv chosen (out, free)" "all_apart (out, free)" "set (map fst out) \<subseteq> set us"
    "set free = set chosen - (\<lambda>u. dget current u {}) ` set us"
proof -
  have "cores_inv chosen (out, free) \<and> all_apart (out, free) \<and> set (map fst out) \<subseteq> set us
    \<and> set free = set chosen - (\<lambda>u. dget current u {}) ` set us"
    using assms(2,3)
  proof (induction us arbitrary: out free rule: rev_induct)
    case Nil
    with assms(1) show ?case by (simp add: cores_inv_def all_apart_def)
  next
    case (snoc x us)
    obtain out0 free0 where mid: "fold (keep_core current) us ([], chosen) = (out0, free0)"
      by fastforce
    with snoc.prems have step: "keep_core current x (out0, free0) = (out, free)" by simp
    from snoc.prems have d: "distinct us" "x \<notin> set us" by simp_all
    note IH = snoc.IH [OF d(1) mid]
    then have "x \<notin> set (map fst out0)" using d(2) by blast
    note S = keep_core_step [OF conjunct1 [OF IH] conjunct1 [OF conjunct2 [OF IH]] this step]
    have "set (map fst out0) \<subseteq> set us" using IH by (rule conjunct1 [OF conjunct2 [OF conjunct2]])
    then have "insert x (set (map fst out0)) \<subseteq> set (us @ [x])"
      by (simp only: set_append list.set insert_subset) blast
    with S(3) have keys: "set (map fst out) \<subseteq> set (us @ [x])" by (rule order_trans)
    have "set free0 = set chosen - (\<lambda>u. dget current u {}) ` set us"
      using IH by (rule conjunct2 [OF conjunct2 [OF conjunct2]])
    with S(4) have "set free = set chosen - (\<lambda>u. dget current u {}) ` set us - {dget current x {}}"
      by (simp only:)
    also have "\<dots> = set chosen - (\<lambda>u. dget current u {}) ` set (us @ [x])"
      by (simp only: set_append image_Un list.set image_insert image_empty) blast
    finally show ?case using S(1,2) keys by (intro conjI)
  qed
  then show "cores_inv chosen (out, free)" "all_apart (out, free)" "set (map fst out) \<subseteq> set us"
    "set free = set chosen - (\<lambda>u. dget current u {}) ` set us" by simp_all
qed

lemma keep_core_mono:
  assumes "keep_core current x (out, free) = (out', free')" and "x \<notin> set (map fst out)"
    and "map_of out u = Some c"
  shows "map_of out' u = Some c"
proof -
  have "u \<noteq> x" using assms(2,3) by (metis keys_iff_map_of)
  then show ?thesis using assms(1,3) by (auto simp: keep_core_def Let_def update_conv' split: if_splits)
qed

text \<open>An instance that sits on a chosen core no earlier instance sits on keeps it.\<close>

lemma keep_loop_pin:
  assumes "distinct chosen" and "distinct (pre @ u # post)"
    and "dget current u {} \<in> set chosen"
    and "dget current u {} \<notin> (\<lambda>u. dget current u {}) ` set pre"
    and "fold (keep_core current) (pre @ u # post) ([], chosen) = (out, free)"
  shows "map_of out u = Some (dget current u {})"
  using assms(2,5)
proof (induction post arbitrary: out free rule: rev_induct)
  case Nil
  obtain out0 free0 where mid: "fold (keep_core current) pre ([], chosen) = (out0, free0)"
    by fastforce
  from Nil have "distinct pre" by simp
  from keep_loop(4) [OF assms(1) this mid] assms(3,4) have "dget current u {} \<in> set free0" by simp
  moreover have "keep_core current u (out0, free0) = (out, free)" using Nil mid by simp
  ultimately show ?case by (auto simp: keep_core_def Let_def update_conv' split: if_splits)
next
  case (snoc x post)
  obtain out0 free0 where mid: "fold (keep_core current) (pre @ u # post) ([], chosen) = (out0, free0)"
    by fastforce
  from snoc.prems have d: "distinct (pre @ u # post)" and x: "x \<notin> set (pre @ u # post)" by auto
  have step: "keep_core current x (out0, free0) = (out, free)" using snoc.prems mid by simp
  have "x \<notin> set (map fst out0)" using keep_loop(3) [OF assms(1) d mid] x by blast
  from keep_core_mono [OF step this snoc.IH [OF d mid]] show ?case .
qed

lemma place_core_step:
  assumes "cores_inv chosen (out, free)" and "place_core chosen unit (out, free) = (out', free')"
    and "chosen \<noteq> []"
  shows "cores_inv chosen (out', free') \<and> set (map fst out') = insert unit (set (map fst out))
    \<and> (\<forall>u v. map_of out u = Some v \<longrightarrow> map_of out' u = Some v)"
proof (cases "unit \<in> set (map fst out)")
  case True
  with assms show ?thesis by (auto simp: place_core_def)
next
  case False
  then have unset: "map_of out unit = None" by (simp add: map_of_eq_None_iff)
  show ?thesis
  proof (cases free)
    case Nil
    then have eq: "out' = out @ [(unit, last chosen)]" "free' = []"
      using assms(2,3) False by (simp_all add: place_core_def update_fresh)
    have "cores_inv chosen (out', free')"
      unfolding eq using cores_inv_share [OF _ False] assms(1,3) Nil by simp
    then show ?thesis using unset by (auto simp: eq map_add_Some_iff)
  next
    case (Cons c rest)
    then have eq: "out' = out @ [(unit, c)]" "free' = rest"
      using assms(2) False by (simp_all add: place_core_def update_fresh)
    have "cores_inv chosen (out', free')"
      unfolding eq using cores_inv_pop [OF _ False] assms(1) Cons by simp
    then show ?thesis using unset by (auto simp: eq map_add_Some_iff)
  qed
qed

lemma place_loop:
  assumes "cores_inv chosen st" and "chosen \<noteq> []" and "fold (place_core chosen) us st = st'"
  shows "cores_inv chosen st' \<and> set (map fst (fst st')) = set us \<union> set (map fst (fst st))
    \<and> (\<forall>u v. map_of (fst st) u = Some v \<longrightarrow> map_of (fst st') u = Some v)"
  using assms(1,3)
proof (induction us arbitrary: st)
  case (Cons u us)
  obtain out free where st: "st = (out, free)" by fastforce
  obtain out' free' where step: "place_core chosen u (out, free) = (out', free')" by fastforce
  note S = place_core_step [OF Cons.prems(1) [unfolded st] step assms(2)]
  then have "cores_inv chosen (out', free')" by blast
  from Cons.IH [OF this] Cons.prems(2) S show ?case by (auto simp: st step)
qed auto

lemma place_loop_empty:
  assumes "set (map snd out) \<subseteq> {{}}" and "distinct (map fst out)"
    and "fold (place_core []) us (out, []) = (out', free')"
  shows "set (map fst out') = set us \<union> set (map fst out) \<and> set (map snd out') \<subseteq> {{}}
    \<and> distinct (map fst out')"
  using assms
proof (induction us arbitrary: out)
  case (Cons u us)
  show ?case
  proof (cases "u \<in> set (map fst out)")
    case True
    then have "place_core [] u (out, []) = (out, [])" by (simp add: place_core_def)
    with Cons True show ?thesis by auto
  next
    case False
    then have step: "place_core [] u (out, []) = (out @ [(u, {})], [])"
      by (simp add: place_core_def update_fresh)
    have "set (map snd (out @ [(u, {})])) \<subseteq> {{}}" "distinct (map fst (out @ [(u, {})]))"
      using Cons.prems(1,2) False by auto
    from Cons.IH [OF this] Cons.prems(3) step show ?thesis by auto
  qed
qed auto

lemma split_first:
  assumes "u \<in> set us"
  shows "\<exists>post. us = takeWhile (\<lambda>v. v \<noteq> u) us @ u # post"
proof -
  have "dropWhile (\<lambda>v. v \<noteq> u) us \<noteq> []" using assms by (simp add: dropWhile_eq_Nil_conv)
  then obtain h t where "dropWhile (\<lambda>v. v \<noteq> u) us = h # t" "h = u"
    using hd_dropWhile [of "\<lambda>v. v \<noteq> u" us] by (metis list.collapse)
  then show ?thesis by (metis takeWhile_dropWhile_id)
qed

text \<open>C14. Placing the instances, without an override.  Every instance gets one entry.  When any
  core is eligible the entries use every chosen core and no other, and the shortfall reported is
  the number of instances that share: with no shortfall no two share a core.  When none is
  eligible every instance gets the empty set and all are reported short.  A running instance
  already on a chosen core, which no instance before it is on, stays on it.\<close>

theorem assign_cores_correct:
  fixes repr ca cores isolated current performance units
  defines "out \<equiv> assign_radiod_cores repr units ca cores isolated current performance"
    and "chosen \<equiv> chosen_cores (length units) cores isolated performance"
    and "short \<equiv> radiod_core_shortfall repr units cores isolated ca performance"
    and "pin \<equiv> \<lambda>u. dget current u {}"
  assumes "distinct units" and "units \<noteq> []" and "distinct cores"
    and "radiod_override repr ca = {}"
  shows "distinct (map fst out) \<and> set (map fst out) = set units
    \<and> (chosen = [] \<longrightarrow> set (map snd out) \<subseteq> {{}} \<and> short = length units)
    \<and> (chosen \<noteq> [] \<longrightarrow> set (map snd out) = set chosen
         \<and> short + card (set (map snd out)) = length units)
    \<and> (short = 0 \<longrightarrow> distinct (map snd out))
    \<and> (\<forall>u \<in> set units. pin u \<in> set chosen
         \<and> (\<forall>v \<in> set (takeWhile (\<lambda>v. v \<noteq> u) units). pin v \<noteq> pin u)
         \<longrightarrow> map_of out u = Some (pin u))"
proof -
  obtain k_out k_free where keep: "fold (keep_core current) units ([], chosen) = (k_out, k_free)"
    by fastforce
  obtain f_out f_free where place: "fold (place_core chosen) units (k_out, k_free) = (f_out, f_free)"
    by fastforce
  have out: "out = f_out"
    using assms(6,8) keep place by (simp add: out_def assign_radiod_cores_def chosen_def Let_def)
  have dist: "distinct chosen" unfolding chosen_def by (rule distinct_chosen_cores [OF assms(7)])
  let ?e = "eligible_radiod_cores cores isolated (length units) performance"
  have short: "short = length units - length ?e"
    using assms(6,8) by (simp add: short_def radiod_core_shortfall_def)
  have len: "length chosen = min (length units) (length ?e)"
    by (simp add: chosen_def length_chosen_cores)
  note K = keep_loop [OF dist assms(5) keep]
  show ?thesis
  proof (cases "chosen = []")
    case True
    then have "k_free = []" "k_out = []"
      using K(1) by (auto simp: cores_inv_def)
    with place True have "fold (place_core []) units ([], []) = (f_out, f_free)" by simp
    from place_loop_empty [OF _ _ this]
    have "set (map fst out) = set units" "set (map snd out) \<subseteq> {{}}" "distinct (map fst out)"
      by (simp_all add: out)
    moreover have "short = length units" "short \<noteq> 0" using len True assms(6) by (auto simp: short)
    ultimately show ?thesis using True by simp
  next
    case False
    note P = place_loop [OF K(1) False place]
    then have inv: "cores_inv chosen (f_out, f_free)" by blast
    have keys: "set (map fst f_out) = set units" using P K(3) by auto
    have d: "distinct (map fst f_out)" using inv by (simp add: cores_inv_def)
    have count: "length f_out = length units"
      using distinct_card [OF d] distinct_card [OF assms(5)] keys by simp
    have free: "f_free = []"
    proof (rule ccontr)
      assume ne: "f_free \<noteq> []"
      then have apart: "distinct (map snd f_out @ f_free)"
        and un: "set (map snd f_out @ f_free) = set chosen"
        using inv by (auto simp: cores_inv_def)
      have "length f_out + length f_free = length chosen"
        using distinct_card [OF apart] distinct_card [OF dist] un by simp
      moreover have "length chosen \<le> length units" "0 < length f_free" using len ne by simp_all
      ultimately show False using count by linarith
    qed
    have vals: "set (map snd out) = set chosen" using inv free by (simp add: cores_inv_def out)
    then have card: "card (set (map snd out)) = length chosen" using distinct_card [OF dist] by simp
    have "distinct (map snd out)" if "short = 0"
      using card len that count by (intro card_distinct) (simp add: short out)
    moreover have "map_of out u = Some (pin u)" if u: "u \<in> set units"
      and c: "pin u \<in> set chosen" and first: "\<forall>v \<in> set (takeWhile (\<lambda>v. v \<noteq> u) units). pin v \<noteq> pin u"
      for u
    proof -
      let ?pre = "takeWhile (\<lambda>v. v \<noteq> u) units"
      obtain post where us: "units = ?pre @ u # post" using split_first [OF u] by blast
      have "distinct (?pre @ u # post)" by (subst us [symmetric]) (rule assms(5))
      moreover have "dget current u {} \<notin> (\<lambda>u. dget current u {}) ` set ?pre"
        using first unfolding pin_def by fastforce
      moreover have "fold (keep_core current) (?pre @ u # post) ([], chosen) = (k_out, k_free)"
        by (subst us [symmetric]) (rule keep)
      ultimately have "map_of k_out u = Some (pin u)"
        using keep_loop_pin [OF dist] c unfolding pin_def by blast
      then show ?thesis using P by (simp add: out)
    qed
    ultimately show ?thesis using d keys vals card len False by (simp add: out short)
  qed
qed

theorem assign_cores_correct_witness:
  "set (map snd (assign_radiod_cores (\<lambda>v. []) [''a'', ''b''] [] [{0, 1}, {2, 3}, {4, 5}] {}
      [(''b'', {2, 3})] {})) = {{2, 3}, {4, 5}}"
proof -
  let ?cores = "[{0, 1}, {2, 3}, {4, 5 :: int}]"
  have "distinct [''a'', ''b'']" "distinct ?cores" "radiod_override (\<lambda>v. []) [] = {}"
    by code_simp+
  moreover have "chosen_cores (Suc (Suc 0)) ?cores {} {} = [{2, 3}, {4, 5}]" by code_simp
  ultimately show ?thesis
    using assign_cores_correct [where repr = "\<lambda>v. []" and units = "[''a'', ''b'']" and ca = "[]"
        and cores = ?cores and isolated = "{}" and performance = "{}"
        and current = "[(''b'', {2, 3})]"] by simp
qed

section \<open>The host layout\<close>

lemma concat_pairs_nth:
  assumes "\<forall>p \<in> set ps. length p = 2" and "k < length ps"
  shows "concat ps ! (2 * k) = ps ! k ! 0 \<and> concat ps ! (2 * k + 1) = ps ! k ! 1"
  using assms
proof (induction ps arbitrary: k)
  case (Cons p ps)
  then obtain a b where p: "p = [a, b]" by (auto simp: numeral_2_eq_2 length_Suc_conv)
  show ?case
  proof (cases k)
    case (Suc j)
    with Cons have "concat ps ! (2 * j) = ps ! j ! 0 \<and> concat ps ! (2 * j + 1) = ps ! j ! 1" by simp
    with p Suc show ?thesis by simp
  qed (simp add: p)
qed simp

lemma length_concat_pairs: "\<forall>p \<in> set ps. length p = 2 \<Longrightarrow> length (concat ps) = 2 * length ps"
  by (induction ps) auto

lemma host_layout_ok_iff:
  "(\<exists>l. compute_host_cpu_layout pairs r reserve = Inr l) \<longleftrightarrow>
     1 \<le> r \<and> (\<forall>p \<in> set pairs. length p = 2) \<and> int reserve + r + 1 \<le> int (length pairs)"
proof -
  have w: "set (map length (map sort pairs)) = {2} \<longleftrightarrow> pairs \<noteq> [] \<and> (\<forall>p \<in> set pairs. length p = 2)"
    by (cases pairs) auto
  then show ?thesis by (auto simp: compute_host_cpu_layout_def Let_def simp del: set_map)
qed

text \<open>The layout of a Proxmox host is given exactly when there are enough two-thread cores:
  the reserved ones, one per radiod and one for the workers.  Then the reserved cores are the
  last, radiod's the highest of the rest, at least one worker core is below them, the guest's
  consecutive CPUs are the two threads of one host core, and when the pairs name each CPU once
  no CPU belongs to two of radiod, the workers and the host.\<close>

theorem host_layout_correct:
  assumes "1 \<le> r" and "\<forall>p \<in> set pairs. length p = 2"
    and "int reserve + r + 1 \<le> int (length pairs)"
  shows "\<exists>l. compute_host_cpu_layout pairs r reserve = Inr l
    \<and> vm_pairs l @ drop (length pairs - reserve) (map sort pairs) = map sort pairs
    \<and> vm_pairs l = worker_pairs l @ radiod_pairs l
    \<and> int (length (radiod_pairs l)) = r \<and> worker_pairs l \<noteq> []
    \<and> vm_vcpu_count l = 2 * vm_cores l \<and> length (vcpu_to_pcpu l) = vm_vcpu_count l
    \<and> (\<forall>k < vm_cores l. vcpu_to_pcpu l ! (2 * k) = vm_pairs l ! k ! 0
         \<and> vcpu_to_pcpu l ! (2 * k + 1) = vm_pairs l ! k ! 1)
    \<and> sorted (isolcpus l) \<and> mset (isolcpus l) = mset (worker_cpus l @ radiod_cpus l)
    \<and> (distinct (concat pairs) \<longrightarrow> distinct (worker_cpus l @ radiod_cpus l
         @ concat (drop (length pairs - reserve) (map sort pairs))))"
proof -
  obtain l where l: "compute_host_cpu_layout pairs r reserve = Inr l"
    using host_layout_ok_iff [of pairs r reserve] assms by blast
  let ?ps = "map sort pairs"
  let ?vm = "take (length pairs - reserve) ?ps"
  let ?n = "length ?vm - nat r"
  have fields: "vm_pairs l = ?vm" "radiod_pairs l = drop ?n ?vm" "worker_pairs l = take ?n ?vm"
    "radiod_cpus l = concat (drop ?n ?vm)" "worker_cpus l = concat (take ?n ?vm)"
    "vcpu_to_pcpu l = concat ?vm" "isolcpus l = sort (concat ?vm)"
    "vm_cores l = length ?vm" "vm_vcpu_count l = length (concat ?vm)"
    using l by (auto simp: compute_host_cpu_layout_def Let_def split: if_splits)
  have "\<forall>p \<in> set ?ps. length p = 2" using assms(2) by simp
  then have two: "\<forall>p \<in> set ?vm. length p = 2" by (meson in_set_takeD)
  have "nat r + 1 \<le> length pairs - reserve" using assms(1,3) by linarith
  then have room: "nat r + 1 \<le> length ?vm" by simp
  have split: "concat ?vm = concat (take ?n ?vm) @ concat (drop ?n ?vm)"
    by (metis append_take_drop_id concat_append)
  have "distinct (concat (take ?n ?vm) @ concat (drop ?n ?vm) @ concat (drop (length pairs - reserve) ?ps))"
    if "distinct (concat pairs)"
  proof -
    have "mset (concat ?ps) = mset (concat pairs)" by (induction pairs) auto
    then have "distinct (concat ?ps)" using that by (metis distinct_count_atmost_1 set_mset_mset)
    moreover have "concat ?ps = concat ?vm @ concat (drop (length pairs - reserve) ?ps)"
      by (metis append_take_drop_id concat_append)
    ultimately show ?thesis using split by (metis append_assoc)
  qed
  moreover have "?vm = take ?n ?vm @ drop ?n ?vm" by (rule append_take_drop_id [symmetric])
  moreover have "int (length (drop ?n ?vm)) = r" "take ?n ?vm \<noteq> []" using room assms(1) by auto
  moreover have "mset (sort (concat ?vm)) = mset (concat (take ?n ?vm) @ concat (drop ?n ?vm))"
    using split by simp
  ultimately show ?thesis
    using l concat_pairs_nth [OF two] length_concat_pairs [OF two]
    by (intro exI [of _ l]) (simp only: fields append_take_drop_id, simp)
qed

theorem host_layout_correct_witness:
  "\<exists>l. compute_host_cpu_layout [[0, 8], [1, 9], [2, 10], [3, 11]] 1 1 = Inr l
    \<and> int (length (radiod_pairs l)) = 1"
proof -
  have "(1 :: int) \<le> 1" "\<forall>p \<in> set [[0, 8], [1, 9], [2, 10], [3, 11 :: int]]. length p = 2"
    "int 1 + 1 + 1 \<le> int (length [[0, 8], [1, 9], [2, 10], [3, 11 :: int]])" by simp_all
  from host_layout_correct [OF this] show ?thesis by blast
qed

section \<open>Clocks\<close>

lemma fft_fold:
  "fold (fft_step physical) by_unit (fast, fft) = (fast', fft') \<Longrightarrow>
     fast \<subseteq> fast' \<and> (\<forall>(u, c) \<in> set by_unit. c \<noteq> {} \<longrightarrow> sibling_set (Min c) physical \<subseteq> fast')"
proof (induction by_unit arbitrary: fast fft)
  case (Cons uc rest)
  obtain u c where uc: "uc = (u, c)" by fastforce
  obtain f1 t1 where step: "fft_step physical uc (fast, fft) = (f1, t1)" by fastforce
  with Cons.prems have "fold (fft_step physical) rest (f1, t1) = (fast', fft')" by simp
  from Cons.IH [OF this] step show ?case
    by (auto simp: fft_step_def uc split: if_splits)
qed auto

lemma in_sibling_set: "cpu \<in> sibling_set cpu physical"
  by (induction physical) auto

text \<open>Every radiod CPU is either fast or capped, never both, and the CPU of an instance's fft
  thread is fast in either mode.\<close>

lemma clock_policy_splits:
  fixes by_unit physical mode
  defines "p \<equiv> plan_clock_policy by_unit physical mode"
  shows "union_of by_unit \<subseteq> fast_cpus p \<union> capped_radiod_cpus p
    \<and> fast_cpus p \<inter> capped_radiod_cpus p = {} \<and> capped_radiod_cpus p \<subseteq> union_of by_unit
    \<and> (\<forall>(u, c) \<in> set by_unit. c \<noteq> {} \<and> finite c \<longrightarrow> Min c \<in> fast_cpus p)"
proof (cases "mode \<noteq> ''fft-pair'' \<or> by_unit = []")
  case True
  then have "p = \<lparr> clock_mode = ''radiod'', fast_cpus = union_of by_unit, capped_radiod_cpus = {},
      fft_cpus = [] \<rparr>" by (simp add: p_def plan_clock_policy_def)
  moreover have "Min c \<in> union_of by_unit" if "(u, c) \<in> set by_unit" "c \<noteq> {}" "finite c" for u c
  proof -
    have "Min c \<in> c" by (rule Min_in [OF that(3,2)])
    then show ?thesis using that(1) by (force simp: union_of_def)
  qed
  ultimately show ?thesis by auto
next
  case False
  obtain fast fft where f: "fold (fft_step physical) by_unit ({}, []) = (fast, fft)" by fastforce
  then have p: "fast_cpus p = fast" "capped_radiod_cpus p = union_of by_unit - fast"
    using False by (simp_all add: p_def plan_clock_policy_def)
  from fft_fold [OF f] in_sibling_set show ?thesis by (fastforce simp: p)
qed

section \<open>The affinity plan\<close>

lemma l3_owned:
  "fold (\<lambda>i acc. if island_cpus i \<inter> cpus \<noteq> {} then acc \<union> island_cpus i else acc) islands A
     = A \<union> (\<Union>i \<in> {i \<in> set islands. island_cpus i \<inter> cpus \<noteq> {}}. island_cpus i)"
proof (induction islands arbitrary: A)
  case (Cons i islands)
  let ?hit = "\<lambda>is. {i \<in> is. island_cpus i \<inter> cpus \<noteq> {}}"
  have "?hit (set (i # islands)) =
      (if island_cpus i \<inter> cpus \<noteq> {} then insert i (?hit (set islands)) else ?hit (set islands))"
    by auto
  then show ?case using Cons by (simp add: Un_assoc)
qed simp

lemma l3_island_covers:
  assumes "cpus \<subseteq> \<Union> (island_cpus ` set islands)"
  shows "cpus \<subseteq> l3_island_cpus_for islands cpus"
    and "i \<in> set islands \<Longrightarrow> island_cpus i \<inter> cpus \<noteq> {} \<Longrightarrow>
      island_cpus i \<subseteq> l3_island_cpus_for islands cpus"
  using assms by (auto simp: l3_island_cpus_for_def l3_owned Let_def)


definition example_host :: host_facts where
  "example_host = \<lparr> hf_cores = [{0, 1}, {2, 3}, {4, 5}, {6, 7}], hf_instances = [''radiod@a.service''],
     hf_islands = [\<lparr> island_level = 3, island_type = ''Unified'', island_cpus = {0, 1, 2, 3} \<rparr>,
                   \<lparr> island_level = 3, island_type = ''Unified'', island_cpus = {4, 5, 6, 7} \<rparr>],
     hf_logical = 8, hf_isolated = {}, hf_current = [], hf_performance = {} \<rparr>"


end
