(* ===== verification/CpuReport.thy ===== *)
theory CpuReport
  imports CpuPlacement "HOL-Library.While_Combinator"
begin

text \<open>
  What sigmond observes of the host's CPU affinity (\<open>src/lib/sigmond/cpu.py\<close>): the instances,
  the caches, the governors, the drop-ins and masks of the units, the processes that may run on
  radiod's CPUs, and the report with its warnings.  The host is a record of the reads the code
  makes: file texts and directory listings by path, the output of a command by its words, and
  the JSON reader.  A warning is a value that holds what its message interpolates.
\<close>

section \<open>The host\<close>

record sys =
  sys_read :: "string \<Rightarrow> string option"
  sys_exists :: "string \<Rightarrow> bool"
  sys_list :: "string \<Rightarrow> string list"
  sys_plain_file :: "string \<Rightarrow> bool"
  sys_cpus :: "nat option"
  sys_run :: "string list \<Rightarrow> string"
  sys_json :: "string \<Rightarrow> pyval option"

definition cpu_path :: "int \<Rightarrow> string \<Rightarrow> string" where
  "cpu_path cpu rest = ''/sys/devices/system/cpu/cpu'' @ string_of_int cpu @ rest"

definition read_stripped :: "sys \<Rightarrow> string \<Rightarrow> string option" where
  "read_stripped h path = map_option strip (sys_read h path)"

definition host_cores :: "sys \<Rightarrow> py_error + cpus list" where
  "host_cores h = get_physical_cores (sys_cpus h)
     (\<lambda>cpu. sys_read h (cpu_path cpu ''/topology/thread_siblings_list''))"

definition host_isolated :: "sys \<Rightarrow> cpus" where
  "host_isolated h = get_isolated_cpus (sys_read h ''/sys/devices/system/cpu/isolated'')"

definition host_performance :: "sys \<Rightarrow> cpus" where
  "host_performance h = get_performance_cpus (sys_exists h ''/sys/devices/cpu_atom/cpus'')
     (sys_read h ''/sys/devices/cpu_core/cpus'')"

definition host_cmdline :: "sys \<Rightarrow> (string \<times> cpus) list" where
  "host_cmdline h = get_cmdline_params (sys_read h ''/proc/cmdline'')"

section \<open>Processes\<close>

definition first_line :: "string \<Rightarrow> string \<Rightarrow> string option" where
  "first_line prefix text = find (\<lambda>l. starts_with l prefix) (splitlines text)"

definition after_colon :: "string \<Rightarrow> string" where
  "after_colon line = strip (snd (split_once (CHR '':'') line))"

definition read_proc_cpus :: "sys \<Rightarrow> string \<Rightarrow> string option" where
  "read_proc_cpus h pid =
     (case sys_read h (''/proc/'' @ pid @ ''/status'') of
        None \<Rightarrow> None
      | Some text \<Rightarrow> map_option after_colon (first_line ''Cpus_allowed_list:'' text))"

definition add_thread ::
  "sys \<Rightarrow> string \<Rightarrow> string \<Rightarrow> (string, (string \<times> string) list) dict \<Rightarrow>
   (string, (string \<times> string) list) dict" where
  "add_thread h dir tid groups =
     (case sys_read h (dir @ ''/'' @ tid @ ''/status'') of
        None \<Rightarrow> groups
      | Some text \<Rightarrow>
          let name = (case first_line ''Name:'' text of Some l \<Rightarrow> after_colon l | None \<Rightarrow> tid);
              mask = (case first_line ''Cpus_allowed_list:'' text of
                        Some l \<Rightarrow> after_colon l | None \<Rightarrow> ''?'') in
          AList.update mask (dget groups mask [] @ [(tid, name)]) groups)"

definition thread_affinity_groups :: "sys \<Rightarrow> string \<Rightarrow> (string, (string \<times> string) list) dict" where
  "thread_affinity_groups h pid =
     (let dir = ''/proc/'' @ pid @ ''/task'' in
      if \<not> sys_exists h dir then []
      else fold (add_thread h dir) (sys_list h dir) [])"

section \<open>Radiod's units\<close>

text \<open>\<open>u.get(key, '')\<close> of a row of systemctl's JSON; a row that is no object raises, and a
  field that is no string reads as the empty one.\<close>

definition unit_field :: "string \<Rightarrow> pyval \<Rightarrow> py_error + string" where
  "unit_field key row = (case row of
       PDict d \<Rightarrow> Inr (case dget d key (PStr []) of PStr s \<Rightarrow> s | _ \<Rightarrow> [])
     | _ \<Rightarrow> Inl AttributeError)"

definition json_rows :: "pyval \<Rightarrow> py_error + pyval list" where
  "json_rows v = (case v of
       PList xs \<Rightarrow> Inr xs | PDict d \<Rightarrow> Inr (map (\<lambda>(k, _). PStr k) d)
     | PStr s \<Rightarrow> Inr (map (\<lambda>c. PStr [c]) s) | _ \<Rightarrow> Inl TypeError)"

definition list_units :: "string list \<Rightarrow> string list" where
  "list_units patterns =
     [''systemctl'', ''list-units'', ''--no-legend'', ''--no-pager'', ''--all'', ''--output=json'']
       @ patterns"

definition conf_instance :: "string \<Rightarrow> string" where
  "conf_instance file = drop (length ''radiod@'') (take (length file - length ''.conf'') file)"

definition conf_units :: "sys \<Rightarrow> string list" where
  "conf_units h =
     (if \<not> sys_exists h ''/etc/radio'' then []
      else map (\<lambda>f. ''radiod@'' @ conf_instance f @ ''.service'')
        (filter (\<lambda>f. starts_with f ''radiod@'' \<and> ends_with f ''.conf''
             \<and> length ''radiod@.conf'' \<le> length f
             \<and> sys_plain_file h (''/etc/radio/'' @ f) \<and> conf_instance f \<noteq> [])
          (sys_list h ''/etc/radio'')))"

text \<open>The rows up to the first that raises: the exception is swallowed and what was found kept.\<close>

fun active_units :: "pyval list \<Rightarrow> string list" where
  "active_units [] = []"
| "active_units (row # rows) =
     (case (unit_field ''unit'' row, unit_field ''active'' row) of
        (Inr name, Inr active) \<Rightarrow>
          (if name \<noteq> [] \<and> active \<in> set [''active'', ''activating''] then name # active_units rows
           else active_units rows)
      | _ \<Rightarrow> [])"

definition get_radiod_instances :: "sys \<Rightarrow> string list" where
  "get_radiod_instances h =
     (let rows = (case sys_json h (sys_run h (list_units [''radiod@*.service''])) of
          None \<Rightarrow> [] | Some v \<Rightarrow> (case json_rows v of Inl _ \<Rightarrow> [] | Inr rs \<Rightarrow> rs)) in
      sorted_set (conf_units h @ active_units rows))"

definition affinity_row ::
  "sys \<Rightarrow> pyval \<Rightarrow> (string, cpus) dict \<Rightarrow> py_error + (string, cpus) dict" where
  "affinity_row h row by_unit =
     ebind (unit_field ''unit'' row) (\<lambda>name.
       if name = [] then Inr by_unit
       else
         let mask = strip (sys_run h [''systemctl'', ''show'', ''-p'', ''CPUAffinity'', ''--value'', name]) in
         Inr (if mask = [] then by_unit else AList.update name (parse_cpu_mask mask) by_unit))"

definition get_radiod_cpus_by_unit :: "sys \<Rightarrow> py_error + (string, cpus) dict" where
  "get_radiod_cpus_by_unit h =
     (case sys_json h (sys_run h (list_units [''radiod@*.service'', ''ka9q-radio@*.service''])) of
        None \<Rightarrow> Inr []
      | Some v \<Rightarrow> ebind (json_rows v) (\<lambda>rows. efold (affinity_row h) rows []))"

definition get_radiod_cpus :: "sys \<Rightarrow> py_error + cpus" where
  "get_radiod_cpus h = ebind (get_radiod_cpus_by_unit h) (\<lambda>d. Inr (union_of d))"

section \<open>Caches and governors\<close>

definition cache_base :: "int \<Rightarrow> nat \<Rightarrow> string" where
  "cache_base cpu idx = cpu_path cpu (''/cache/index'' @ string_of_int (int idx))"

text \<open>How far the inner loop counts: the first index with no directory, \<open>None\<close> when there is
  none and the loop does not end.\<close>

definition cache_count :: "sys \<Rightarrow> int \<Rightarrow> nat option" where
  "cache_count h cpu = while_option (\<lambda>idx. sys_exists h (cache_base cpu idx)) Suc 0"

definition island_at :: "sys \<Rightarrow> int \<Rightarrow> int \<Rightarrow> nat \<Rightarrow> cache_island option" where
  "island_at h level cpu idx =
     (let base = cache_base cpu idx in
      case read_stripped h (base @ ''/level'') of None \<Rightarrow> None | Some raw \<Rightarrow>
      (case int_of_string raw of None \<Rightarrow> None | Some lvl \<Rightarrow>
        if lvl \<noteq> level then None
        else
          let ctype = (case read_stripped h (base @ ''/type'') of None \<Rightarrow> [] | Some t \<Rightarrow> t) in
          case read_stripped h (base @ ''/shared_cpu_list'') of None \<Rightarrow> None | Some l \<Rightarrow>
            if l = [] then None
            else if parse_cpu_mask l = {} then None
            else Some \<lparr> island_level = level, island_type = ctype, island_cpus = parse_cpu_mask l \<rparr>))"

definition cpu_islands ::
  "sys \<Rightarrow> int \<Rightarrow> int \<Rightarrow> cache_island list \<Rightarrow> cache_island list option" where
  "cpu_islands h level cpu seen =
     map_option (\<lambda>n. fold (\<lambda>idx acc. case island_at h level cpu idx of
         None \<Rightarrow> acc | Some i \<Rightarrow> if i \<in> set acc then acc else acc @ [i]) [0..<n] seen)
       (cache_count h cpu)"

fun islands_loop ::
  "sys \<Rightarrow> int \<Rightarrow> int list \<Rightarrow> cache_island list \<Rightarrow> cache_island list option" where
  "islands_loop h level [] seen = Some seen"
| "islands_loop h level (cpu # cpus) seen =
     (case cpu_islands h level cpu seen of None \<Rightarrow> None | Some s \<Rightarrow> islands_loop h level cpus s)"

definition get_cache_islands :: "sys \<Rightarrow> int \<Rightarrow> cache_island list option" where
  "get_cache_islands h level =
     map_option (sort_key (\<lambda>i. Min (island_cpus i)))
       (islands_loop h level (map int [0..<cpu_count (sys_cpus h)]) [])"

definition get_governors :: "sys \<Rightarrow> (int \<times> string) list" where
  "get_governors h =
     concat (map (\<lambda>cpu. case read_stripped h (cpu_path cpu ''/cpufreq/scaling_governor'') of
         None \<Rightarrow> [] | Some g \<Rightarrow> if g = [] then [] else [(cpu, g)])
       (map int [0..<cpu_count (sys_cpus h)]))"

record capabilities =
  logical_cpus :: nat
  cap_cores :: "cpus list"
  l2_islands :: "cache_island list"
  l3_islands :: "cache_island list"
  isolated_cpus :: cpus
  cmdline_isolcpus :: cpus
  cmdline_nohz_full :: cpus
  cmdline_rcu_nocbs :: cpus
  governors :: "(int \<times> string) list"

definition gather_capabilities :: "sys \<Rightarrow> (py_error + capabilities) option" where
  "gather_capabilities h =
     (case (get_cache_islands h 2, get_cache_islands h 3) of
        (Some l2, Some l3) \<Rightarrow> Some (ebind (host_cores h) (\<lambda>cores. Inr
          \<lparr> logical_cpus = (case sys_cpus h of None \<Rightarrow> 0 | Some n \<Rightarrow> n), cap_cores = cores,
            l2_islands = l2, l3_islands = l3, isolated_cpus = host_isolated h,
            cmdline_isolcpus = dget (host_cmdline h) ''isolcpus'' {},
            cmdline_nohz_full = dget (host_cmdline h) ''nohz_full'' {},
            cmdline_rcu_nocbs = dget (host_cmdline h) ''rcu_nocbs'' {},
            governors = get_governors h \<rparr>))
      | _ \<Rightarrow> None)"

text \<open>\<open>compute_affinity_plan\<close> on what the host says, given its islands.\<close>

definition host_plan ::
  "(pyval \<Rightarrow> string) \<Rightarrow> (string, pyval) dict \<Rightarrow> sys \<Rightarrow> cache_island list \<Rightarrow>
   py_error + affinity_plan" where
  "host_plan repr ca h islands =
     ebind (host_cores h) (\<lambda>cores.
       compute_affinity_plan repr ca
         \<lparr> hf_cores = cores, hf_instances = get_radiod_instances h, hf_islands = islands,
           hf_logical = (case sys_cpus h of None \<Rightarrow> 16 | Some n \<Rightarrow> if n = 0 then 16 else n),
           hf_isolated = host_isolated h,
           hf_current = (case get_radiod_cpus_by_unit h of Inl _ \<Rightarrow> [] | Inr d \<Rightarrow> d),
           hf_performance = host_performance h \<rparr>)"

section \<open>Units\<close>

definition find_char :: "char \<Rightarrow> string \<Rightarrow> nat option" where
  "find_char c s = (if c \<in> set s then Some (length (takeWhile (\<lambda>x. x \<noteq> c) s)) else None)"

definition rfind_char :: "char \<Rightarrow> string \<Rightarrow> nat option" where
  "rfind_char c s = map_option (\<lambda>n. length s - 1 - n) (find_char c (rev s))"

definition template_name :: "string \<Rightarrow> string option" where
  "template_name u =
     (case (find_char (CHR ''@'') u, rfind_char (CHR ''.'') u) of
        (Some a, Some d) \<Rightarrow>
          (if d \<le> a then None else Some (take (a + 1) u @ ''.'' @ drop (d + 1) u))
      | _ \<Rightarrow> None)"

definition SMD_AFFINITY_DROP_IN :: string where
  "SMD_AFFINITY_DROP_IN = ''smd-cpu-affinity.conf''"

definition FOREIGN_AFFINITY_DROP_INS :: "string list" where
  "FOREIGN_AFFINITY_DROP_INS = [''cpu-affinity.conf'', ''99-wdctl-cpu-affinity.conf'']"

definition AFFINITY_UNITS :: "string list" where
  "AFFINITY_UNITS =
    [''wspr-recorder@.service'',
     ''psk-recorder@.service'',
     ''hfdl-recorder@.service'',
     ''codar-sounder@.service'',
     ''superdarn-sounder@.service'',
     ''wd-rac.service'',
     ''igmp-querier.service'',
     ''gpsdo-monitor.service'',
     ''ka9q-web.service'',
     ''ka9q-web@.service'',
     ''timestd-core-recorder.service'',
     ''timestd-fusion.service'',
     ''timestd-l2-calibration.service'',
     ''timestd-metrology@.service'',
     ''timestd-physics.service'',
     ''timestd-vtec.service'',
     ''timestd-events.service'',
     ''timestd-iono-reanalysis.service'',
     ''timestd-radiod-monitor.service'',
     ''timestd-chrony-monitor.service'',
     ''timestd-pipeline-watchdog.service'',
     ''timestd-prune.service'',
     ''timestd-raw-cleanup.service'',
     ''grape-daily.service'',
     ''timestd-web-api.service'',
     ''meteor-scatter@.service'',
     ''hs-uploader.service'',
     ''sigmond-timing-watchdog.service'',
     ''sigmond-radiod-watchdog.service'',
     ''station-web@.service'',
     ''sigmond-snapshot.service'',
     ''sigmond-snapshot-request.service'',
     ''sigmond-component-fetch.service'']"

definition drop_in_file :: "string \<Rightarrow> string \<Rightarrow> string" where
  "drop_in_file u name = ''/etc/systemd/system/'' @ u @ ''.d/'' @ name"

definition find_smd_drop_in :: "sys \<Rightarrow> string \<Rightarrow> string option" where
  "find_smd_drop_in h u =
     (let inst = drop_in_file u SMD_AFFINITY_DROP_IN in
      if sys_exists h inst then Some inst
      else case template_name u of None \<Rightarrow> None | Some t \<Rightarrow>
        let tmpl = drop_in_file t SMD_AFFINITY_DROP_IN in
        if sys_exists h tmpl then Some tmpl else None)"

definition foreign_drop_in_paths :: "sys \<Rightarrow> string \<Rightarrow> string list" where
  "foreign_drop_in_paths h u =
     (let own = filter (sys_exists h) (map (drop_in_file u) FOREIGN_AFFINITY_DROP_INS) in
      case template_name u of None \<Rightarrow> own | Some t \<Rightarrow>
        fold (\<lambda>p found. if sys_exists h p \<and> p \<notin> set found then found @ [p] else found)
          (map (drop_in_file t) FOREIGN_AFFINITY_DROP_INS) own)"

fun contains :: "string \<Rightarrow> string \<Rightarrow> bool" where
  "contains p [] = (p = [])"
| "contains p (c # s) = (starts_with (c # s) p \<or> contains p s)"

text \<open>\<open>s.replace('@.service', '@*.service')\<close>\<close>

fun star_instances :: "string \<Rightarrow> string" where
  "star_instances [] = []"
| "star_instances (c # s) =
     (if starts_with (c # s) ''@.service'' then ''@*'' @ star_instances s
      else c # star_instances s)"

definition is_template :: "string \<Rightarrow> bool" where
  "is_template t = contains ''@.'' t"

definition template_row ::
  "pyval \<Rightarrow> (string, string list) dict \<Rightarrow> py_error + (string, string list) dict" where
  "template_row row result =
     ebind (unit_field ''unit'' row) (\<lambda>name.
       Inr (case (find_char (CHR ''@'') name, rfind_char (CHR ''.'') name) of
          (Some a, Some d) \<Rightarrow>
            (if d > a then
               let key = take (a + 1) name @ ''.'' @ drop (d + 1) name in
               case map_of result key of None \<Rightarrow> result
               | Some us \<Rightarrow> AList.update key (us @ [name]) result
             else result)
        | _ \<Rightarrow> result))"

definition expand_all_templates_bulk ::
  "sys \<Rightarrow> string list \<Rightarrow> py_error + (string, string list) dict" where
  "expand_all_templates_bulk h templates =
     (let plain = map (\<lambda>t. (t, [t])) (filter (\<lambda>t. \<not> is_template t) templates);
          tmpls = filter is_template templates in
      if tmpls = [] then Inr plain
      else
        let rows = (case sys_json h (sys_run h (list_units (map star_instances tmpls))) of
              None \<Rightarrow> Inr [] | Some v \<Rightarrow> json_rows v) in
        ebind rows (\<lambda>rs.
          ebind (efold template_row rs (map (\<lambda>t. (t, [])) tmpls @ plain)) (\<lambda>result.
            Inr (map (\<lambda>(k, us). (k, sort us)) result))))"

definition is_digits :: "string \<Rightarrow> bool" where
  "is_digits s = (s \<noteq> [] \<and> list_all is_digit s)"

definition unit_of_cgroup :: "string \<Rightarrow> string option" where
  "unit_of_cgroup text =
     (case first_line ''0::'' text of None \<Rightarrow> None | Some l \<Rightarrow>
        let u = after_last (CHR ''/'') (drop 3 l) in
        if ends_with u ''.service'' then Some u else None)"

definition add_pid :: "sys \<Rightarrow> string \<Rightarrow> (string, int list) dict \<Rightarrow> (string, int list) dict" where
  "add_pid h pid pids =
     (if \<not> is_digits pid then pids
      else case sys_read h (''/proc/'' @ pid @ ''/cgroup'') of None \<Rightarrow> pids | Some text \<Rightarrow>
        (case (unit_of_cgroup text, int_of_string pid) of
           (Some u, Some n) \<Rightarrow> AList.update u (dget pids u [] @ [n]) pids
         | _ \<Rightarrow> pids))"

definition proc_unit_pid_map :: "sys \<Rightarrow> (string, string) dict" where
  "proc_unit_pid_map h =
     map (\<lambda>(u, ns). (u, string_of_int (Min (set ns)))) (fold (add_pid h) (sys_list h ''/proc'') [])"

record unit_affinity =
  ua_unit :: string
  ua_role :: string
  ua_main_pid :: "string option"
  systemd_mask :: cpus
  observed_mask :: cpus
  observed_mask_raw :: string
  thread_groups :: "(string, (string \<times> string) list) dict"
  drop_in_present :: bool
  foreign_drop_ins :: "string list"

definition mask_mismatch :: "unit_affinity \<Rightarrow> bool" where
  "mask_mismatch u =
     (systemd_mask u \<noteq> {} \<and> observed_mask u \<noteq> {} \<and> systemd_mask u \<noteq> observed_mask u)"

definition observe_unit_fast ::
  "sys \<Rightarrow> (string, string) dict \<Rightarrow> string \<Rightarrow> string \<Rightarrow> unit_affinity" where
  "observe_unit_fast h pids u role =
     (let pid = map_of pids u; drop_in = find_smd_drop_in h u;
          proc = (case pid of None \<Rightarrow> None | Some p \<Rightarrow> read_proc_cpus h p) in
      \<lparr> ua_unit = u, ua_role = role, ua_main_pid = pid,
        systemd_mask = (case drop_in of None \<Rightarrow> {} | Some p \<Rightarrow> read_drop_in_cpus (sys_read h p)),
        observed_mask = (case proc of None \<Rightarrow> {} | Some t \<Rightarrow> parse_cpu_mask t),
        observed_mask_raw = (case proc of None \<Rightarrow> [] | Some t \<Rightarrow> t),
        thread_groups = (case pid of None \<Rightarrow> [] | Some p \<Rightarrow> thread_affinity_groups h p),
        drop_in_present = (drop_in \<noteq> None),
        foreign_drop_ins = foreign_drop_in_paths h u \<rparr>)"

definition show_property :: "sys \<Rightarrow> string \<Rightarrow> string \<Rightarrow> string" where
  "show_property h prop u = strip (sys_run h [''systemctl'', ''show'', ''-p'', prop, ''--value'', u])"

definition systemctl_main_pid :: "sys \<Rightarrow> string \<Rightarrow> string option" where
  "systemctl_main_pid h u =
     (let pid = show_property h ''MainPID'' u in
      if pid \<noteq> [] \<and> pid \<noteq> ''0'' then Some pid else None)"

definition systemctl_cpu_affinity :: "sys \<Rightarrow> string \<Rightarrow> cpus" where
  "systemctl_cpu_affinity h u = parse_cpu_mask (show_property h ''CPUAffinity'' u)"

definition observe_unit :: "sys \<Rightarrow> string \<Rightarrow> string \<Rightarrow> unit_affinity" where
  "observe_unit h u role =
     (let pid = systemctl_main_pid h u;
          proc = (case pid of None \<Rightarrow> None | Some p \<Rightarrow> read_proc_cpus h p) in
      \<lparr> ua_unit = u, ua_role = role, ua_main_pid = pid, systemd_mask = systemctl_cpu_affinity h u,
        observed_mask = (case proc of None \<Rightarrow> {} | Some t \<Rightarrow> if t = [] then {} else parse_cpu_mask t),
        observed_mask_raw = (case proc of None \<Rightarrow> [] | Some t \<Rightarrow> t),
        thread_groups = (case pid of None \<Rightarrow> [] | Some p \<Rightarrow> thread_affinity_groups h p),
        drop_in_present = sys_exists h (drop_in_file u SMD_AFFINITY_DROP_IN),
        foreign_drop_ins = filter (sys_exists h) (foreign_drop_in_paths h u) \<rparr>)"

fun unit_names :: "pyval list \<Rightarrow> py_error + string list" where
  "unit_names [] = Inr []"
| "unit_names (row # rows) =
     ebind (unit_field ''unit'' row) (\<lambda>n. ebind (unit_names rows) (\<lambda>ns.
       Inr (if n = [] then ns else n # ns)))"

definition expand_template_instances :: "sys \<Rightarrow> string \<Rightarrow> py_error + string list" where
  "expand_template_instances h template =
     (if \<not> is_template template then Inr [template]
      else case sys_json h (sys_run h (list_units [star_instances template])) of
        None \<Rightarrow> Inr []
      | Some v \<Rightarrow> ebind (json_rows v) (\<lambda>rows. ebind (unit_names rows) (\<lambda>ns. Inr (sort ns))))"

text \<open>\<open>_batch_systemctl_show\<close>: a blank line ends the fields of a unit.  The state is the units
  still to come, the fields of the current one, and the result.\<close>

definition show_line ::
  "string \<Rightarrow> string list \<times> (string, string) dict \<times> (string, (string, string) dict) dict \<Rightarrow>
   string list \<times> (string, string) dict \<times> (string, (string, string) dict) dict" where
  "show_line raw st =
     (let line = strip raw; (units, fields, result) = st in
      if line = [] then
        (case units of [] \<Rightarrow> (units, fields, result)
         | u # us \<Rightarrow> (us, [], AList.update u fields result))
      else if CHR ''='' \<in> set line then
        (case split_once (CHR ''='') line of (k, v) \<Rightarrow>
          (units, AList.update (strip k) (strip v) fields, result))
      else (units, fields, result))"

definition batch_systemctl_show ::
  "sys \<Rightarrow> string list \<Rightarrow> (string, (string, string) dict) dict" where
  "batch_systemctl_show h units =
     (if units = [] then []
      else
        let out = sys_run h ([''systemctl'', ''show'', ''-p'', ''MainPID,CPUAffinity''] @ units);
            (left, fields, result) = fold show_line (splitlines out) (units, [], []) in
        if fields \<noteq> [] \<and> left \<noteq> [] then AList.update (hd left) fields result else result)"

section \<open>Contention\<close>

record contender =
  ct_pid :: string
  ct_comm :: string
  ct_allowed :: cpus
  ct_overlap :: cpus
  ct_default :: bool

definition status_fields :: "string option \<Rightarrow> (string, string) dict" where
  "status_fields text = (case text of None \<Rightarrow> [] | Some t \<Rightarrow>
     fold (\<lambda>line out. if CHR '':'' \<notin> set line then out
       else case split_once (CHR '':'') line of (k, v) \<Rightarrow> AList.update (strip k) (strip v) out)
     (splitlines t) [])"

definition is_kernel_thread :: "(string, string) dict \<Rightarrow> bool" where
  "is_kernel_thread status =
     (map_of status ''PPid'' \<in> {Some ''2'', Some ''0''} \<or> map_of status ''Pid'' = Some ''2'')"

definition benign_helper :: "string \<Rightarrow> bool" where
  "benign_helper comm = starts_with comm ''avahi-publish-''"

definition contender_of :: "sys \<Rightarrow> cpus \<Rightarrow> string list \<Rightarrow> string \<Rightarrow> contender option" where
  "contender_of h radiod exclude pid =
     (let status = status_fields (sys_read h (''/proc/'' @ pid @ ''/status''));
          raw = dget status ''Cpus_allowed_list'' [];
          allowed = parse_cpu_mask raw;
          name = dget status ''Name'' [];
          comm = (if name = [] then pid else name) in
      if \<not> is_digits pid \<or> pid \<in> set exclude \<or> status = [] \<or> is_kernel_thread status
         \<or> raw = [] \<or> allowed \<inter> radiod = {} \<or> benign_helper comm then None
      else Some \<lparr> ct_pid = pid, ct_comm = comm, ct_allowed = allowed,
                  ct_overlap = allowed \<inter> radiod,
                  ct_default = (set (map int [0..<cpu_count (sys_cpus h)]) \<subseteq> allowed) \<rparr>)"

definition find_contending_processes :: "sys \<Rightarrow> cpus \<Rightarrow> string list \<Rightarrow> contender list" where
  "find_contending_processes h radiod exclude =
     (if radiod = {} then []
      else List.map_filter (contender_of h radiod exclude) (sys_list h ''/proc''))"

section \<open>The report\<close>

datatype warning =
    WrongGovernor string int string
  | InertCap int
  | NotFenced "int list"
  | OutsideIsolated "int list" "int list"
  | LeakyIsland "int list" string string
  | ForeignDropIn "string list" string
  | NoDropIn string
  | MaskMismatch string "int list" "int list"
  | PinnedOverlap nat "(string \<times> string) list" nat

record affinity_report =
  rp_caps :: capabilities
  rp_plan :: affinity_plan
  rp_units :: "unit_affinity list"
  rp_contention :: "contender list"
  rp_warnings :: "warning list"

definition report_radiod_cpus :: "affinity_report \<Rightarrow> cpus" where
  "report_radiod_cpus r = union_of (plan_radiod (rp_plan r))"

definition pinned_contention :: "affinity_report \<Rightarrow> contender list" where
  "pinned_contention r = filter (\<lambda>c. \<not> ct_default c) (rp_contention r)"

text \<open>\<open>radiod_governor\<close> of \<open>[cpu_affinity]\<close> and \<open>fast_mode\<close> of \<open>[cpu_freq]\<close> are strings.\<close>

definition governor_warnings :: "string \<Rightarrow> clock_plan \<Rightarrow> (int \<times> string) list \<Rightarrow> warning list" where
  "governor_warnings expected clock gov =
     concat (map (\<lambda>cpu. case map_of gov cpu of
         Some g \<Rightarrow> if g \<noteq> [] \<and> g \<noteq> expected then [WrongGovernor g cpu expected] else []
       | None \<Rightarrow> []) (sorted_list_of_set (fast_cpus clock)))
     @ concat (map (\<lambda>cpu. if map_of gov cpu = Some ''performance'' then [InertCap cpu] else [])
         (sorted_list_of_set (capped_radiod_cpus clock)))"

definition kernel_isolated :: "capabilities \<Rightarrow> cpus" where
  "kernel_isolated caps =
     (if cmdline_isolcpus caps = {} then isolated_cpus caps else cmdline_isolcpus caps)"

definition isolation_warnings :: "cpus \<Rightarrow> cpus \<Rightarrow> warning list" where
  "isolation_warnings radiod isol =
     (if radiod \<noteq> {} \<and> \<not> radiod \<subseteq> isol then
        let outside = sorted_list_of_set (radiod - isol) in
        if isol = {} then [NotFenced outside]
        else [OutsideIsolated outside (sorted_list_of_set isol)]
      else [])"

definition island_warnings :: "affinity_plan \<Rightarrow> cpus \<Rightarrow> warning list" where
  "island_warnings plan isol =
     (if cache_split plan \<and> radiod_l3_cpus plan \<noteq> {} \<and> \<not> recommended_isolcpus plan \<subseteq> isol then
        [LeakyIsland
           (sorted_list_of_set ((radiod_l3_cpus plan - isol) \<inter> recommended_isolcpus plan))
           (cpus_to_range_str (sorted_list_of_set (recommended_isolcpus plan)))
           (let r = cpus_to_range_str (sorted_list_of_set isol) in if r = [] then ''none'' else r)]
      else [])"

definition foreign_paths :: "unit_affinity list \<Rightarrow> (string, unit_affinity list) dict" where
  "foreign_paths units =
     fold (\<lambda>u. fold (\<lambda>p acc. AList.update p (dget acc p [] @ [u]) acc) (foreign_drop_ins u)) units []"

definition foreign_warnings :: "unit_affinity list \<Rightarrow> warning list" where
  "foreign_warnings units =
     (let d = foreign_paths units in
      concat (map (\<lambda>path. if list_all drop_in_present (dget d path []) then []
        else [ForeignDropIn (map ua_unit (dget d path [])) path]) (sort (map fst d))))"

definition unit_warnings :: "unit_affinity \<Rightarrow> warning list" where
  "unit_warnings u =
     (if ua_role u = ''radiod'' \<and> ua_main_pid u \<noteq> None \<and> \<not> drop_in_present u
      then [NoDropIn (ua_unit u)] else [])
     @ (if mask_mismatch u
        then [MaskMismatch (ua_unit u) (sorted_list_of_set (observed_mask u))
                (sorted_list_of_set (systemd_mask u))]
        else [])"

definition pinned_warnings :: "contender list \<Rightarrow> warning list" where
  "pinned_warnings contention =
     (let pinned = filter (\<lambda>c. \<not> ct_default c) contention in
      if pinned = [] then []
      else [PinnedOverlap (length pinned) (map (\<lambda>c. (ct_comm c, ct_pid c)) (take 5 pinned))
              (length pinned - 5)])"

definition report_of ::
  "string \<Rightarrow> string \<Rightarrow> sys \<Rightarrow> capabilities \<Rightarrow> affinity_plan \<Rightarrow> string list \<Rightarrow> affinity_report" where
  "report_of expected_gov fast_mode h caps plan others =
     (let pids = proc_unit_pid_map h;
          radiod_units = map (\<lambda>u. observe_unit_fast h pids u ''radiod'') (map fst (plan_radiod plan));
          units = radiod_units @ map (\<lambda>u. observe_unit_fast h pids u ''other'') others;
          main_pids = List.map_filter ua_main_pid radiod_units;
          radiod = union_of (plan_radiod plan);
          contention = (if main_pids = [] then [] else find_contending_processes h radiod main_pids);
          clock = plan_clock_policy (plan_radiod plan) (cap_cores caps) fast_mode;
          isol = kernel_isolated caps in
      \<lparr> rp_caps = caps, rp_plan = plan, rp_units = units, rp_contention = contention,
        rp_warnings = governor_warnings expected_gov clock (governors caps)
          @ isolation_warnings radiod isol @ island_warnings plan isol @ foreign_warnings units
          @ concat (map unit_warnings units) @ pinned_warnings contention \<rparr>)"

text \<open>\<open>None\<close> when the count of a CPU's caches does not end.\<close>

definition build_affinity_report ::
  "(pyval \<Rightarrow> string) \<Rightarrow> (string, pyval) dict \<Rightarrow> string \<Rightarrow> string \<Rightarrow> sys \<Rightarrow>
   (py_error + affinity_report) option" where
  "build_affinity_report repr ca expected_gov fast_mode h =
     map_option (\<lambda>caps. ebind caps (\<lambda>caps. ebind (host_plan repr ca h (l3_islands caps)) (\<lambda>plan.
         ebind (expand_all_templates_bulk h AFFINITY_UNITS) (\<lambda>expanded.
           Inr (report_of expected_gov fast_mode h caps plan (concat (map snd expanded)))))))
       (gather_capabilities h)"

section \<open>The report as JSON data\<close>

abbreviation pcpus :: "cpus \<Rightarrow> pyval" where
  "pcpus c \<equiv> PList (map PInt (sorted_list_of_set c))"

definition island_to_dict :: "cache_island \<Rightarrow> pyval" where
  "island_to_dict i = PDict [(''level'', PInt (island_level i)),
     (''cache_type'', PStr (island_type i)), (''cpus'', pcpus (island_cpus i))]"

definition unit_to_dict :: "unit_affinity \<Rightarrow> pyval" where
  "unit_to_dict u = PDict
     [(''unit'', PStr (ua_unit u)), (''role'', PStr (ua_role u)),
      (''main_pid'', case ua_main_pid u of None \<Rightarrow> PNone | Some p \<Rightarrow> PStr p),
      (''systemd_mask'', pcpus (systemd_mask u)), (''observed_mask'', pcpus (observed_mask u)),
      (''mask_mismatch'', PBool (mask_mismatch u)), (''drop_in_present'', PBool (drop_in_present u)),
      (''foreign_drop_ins'', PList (map PStr (foreign_drop_ins u))),
      (''thread_group_count'', PInt (int (length (thread_groups u))))]"

definition contender_to_dict :: "contender \<Rightarrow> pyval" where
  "contender_to_dict c = PDict
     [(''pid'', PStr (ct_pid c)), (''comm'', PStr (ct_comm c)), (''allowed'', pcpus (ct_allowed c)),
      (''overlap'', pcpus (ct_overlap c)), (''is_default'', PBool (ct_default c))]"

text \<open>\<open>text_of\<close> is the message of a warning.\<close>

definition affinity_report_to_dict :: "(warning \<Rightarrow> string) \<Rightarrow> affinity_report \<Rightarrow> pyval" where
  "affinity_report_to_dict text_of r =
     (let caps = rp_caps r; plan = rp_plan r in
      PDict
       [(''capabilities'', PDict
          [(''logical_cpus'', PInt (int (logical_cpus caps))),
           (''physical_cores'', PList (map pcpus (cap_cores caps))),
           (''l2_islands'', PList (map island_to_dict (l2_islands caps))),
           (''l3_islands'', PList (map island_to_dict (l3_islands caps))),
           (''isolated_cpus'', pcpus (isolated_cpus caps)),
           (''cmdline_isolcpus'', pcpus (cmdline_isolcpus caps)),
           (''cmdline_nohz_full'', pcpus (cmdline_nohz_full caps)),
           (''cmdline_rcu_nocbs'', pcpus (cmdline_rcu_nocbs caps)),
           (''governors'', PDict (map (\<lambda>(c, g). (string_of_int c, PStr g)) (sort (governors caps))))]),
        (''plan'', PDict
          [(''radiod'', PDict (map (\<lambda>(u, c). (u, pcpus c)) (plan_radiod plan))),
           (''other_cpus'', pcpus (other_cpus plan)),
           (''physical_cores'', PList (map pcpus (physical_cores plan))),
           (''cache_split'', PBool (cache_split plan)),
           (''radiod_l3_cpus'', pcpus (radiod_l3_cpus plan)),
           (''reserved_idle_cpus'', pcpus (reserved_idle_cpus plan)),
           (''recommended_isolcpus'', pcpus (recommended_isolcpus plan))]),
        (''radiod_cpus'', pcpus (report_radiod_cpus r)),
        (''units'', PList (map unit_to_dict (rp_units r))),
        (''contention'', PList (map contender_to_dict (rp_contention r))),
        (''warnings'', PList (map (\<lambda>w. PStr (text_of w)) (rp_warnings r)))])"

section \<open>The cache loop ends\<close>

lemma while_option_count:
  "while_option P Suc k = Some n \<longleftrightarrow> k \<le> n \<and> \<not> P n \<and> (\<forall>i. k \<le> i \<and> i < n \<longrightarrow> P i)"
proof
  assume w: "while_option P Suc k = Some n"
  have "k \<le> n \<and> (\<forall>i. k \<le> i \<and> i < n \<longrightarrow> P i)"
    by (rule while_option_rule [OF _ w, of "\<lambda>j. k \<le> j \<and> (\<forall>i. k \<le> i \<and> i < j \<longrightarrow> P i)"])
      (auto simp: less_Suc_eq)
  with while_option_stop [OF w] show "k \<le> n \<and> \<not> P n \<and> (\<forall>i. k \<le> i \<and> i < n \<longrightarrow> P i)" by blast
next
  assume "k \<le> n \<and> \<not> P n \<and> (\<forall>i. k \<le> i \<and> i < n \<longrightarrow> P i)"
  then show "while_option P Suc k = Some n"
  proof (induction "n - k" arbitrary: k)
    case 0
    then show ?case by (subst while_option_unfold) simp
  next
    case (Suc m)
    then have "P k" "while_option P Suc (Suc k) = Some n" by auto
    then show ?case by (subst while_option_unfold) simp
  qed
qed

lemma cache_count_Some:
  "cache_count h cpu = Some n \<longleftrightarrow>
     \<not> sys_exists h (cache_base cpu n) \<and> (\<forall>i < n. sys_exists h (cache_base cpu i))"
  by (auto simp: cache_count_def while_option_count)

lemma cache_count_ends:
  "cache_count h cpu \<noteq> None \<longleftrightarrow> (\<exists>n. \<not> sys_exists h (cache_base cpu n))"
proof
  show "\<exists>n. \<not> sys_exists h (cache_base cpu n)" if "cache_count h cpu \<noteq> None"
    using that cache_count_Some by blast
  show "cache_count h cpu \<noteq> None" if "\<exists>n. \<not> sys_exists h (cache_base cpu n)"
  proof -
    let ?n = "LEAST n. \<not> sys_exists h (cache_base cpu n)"
    have "cache_count h cpu = Some ?n"
      unfolding cache_count_Some using LeastI_ex [OF that] not_less_Least by blast
    then show ?thesis by simp
  qed
qed

lemma islands_loop_ends:
  "islands_loop h level cpus seen \<noteq> None \<longleftrightarrow> (\<forall>cpu \<in> set cpus. cache_count h cpu \<noteq> None)"
proof (induction cpus arbitrary: seen)
  case (Cons cpu cpus)
  then show ?case by (cases "cache_count h cpu") (simp_all add: cpu_islands_def)
qed simp



section \<open>Every mask of a plan is finite\<close>

definition finite_masks :: "(string, cpus) dict \<Rightarrow> bool" where
  "finite_masks d \<longleftrightarrow> (\<forall>c \<in> set (map snd d). finite c)"

lemma values_update:
  "\<forall>v \<in> set (map snd d). P v \<Longrightarrow> P c \<Longrightarrow> \<forall>v \<in> set (map snd (AList.update k c d)). P v"
  by (induction d) auto

lemma finite_masks_update: "finite_masks d \<Longrightarrow> finite c \<Longrightarrow> finite_masks (AList.update u c d)"
  by (induction d) (auto simp: finite_masks_def)

lemma finite_union_of: "finite_masks d \<Longrightarrow> finite (union_of d)"
  by (simp add: finite_masks_def union_of_def)

lemma physical_cores_finite:
  assumes "get_physical_cores n read = Inr cores" and "c \<in> set cores"
  shows "finite c"
proof -
  obtain seen m where loop: "efold (core_step read) (map int [0..<cpu_count n]) ([], []) = Inr (seen, m)"
    using assms(1) by (auto simp: get_physical_cores_def ebind_eq_Inr)
  have "(\<lambda>st. \<forall>S \<in> set (map snd (snd st)). finite S) (seen, m)"
  proof (rule efold_invariant [OF loop])
    fix x and u v :: "cpus list \<times> (int, cpus) dict"
    assume "\<forall>S \<in> set (map snd (snd u)). finite S" and "core_step read x u = Inr v"
    then show "\<forall>S \<in> set (map snd (snd v)). finite S"
      using values_update [of "snd u" finite "siblings_of read x" "Min (siblings_of read x)"]
      by (cases u) (auto simp: core_step_def Let_def split: if_splits)
  qed simp
  then have fin: "finite (dget m k {})" for k
    by (cases "map_of m k") (force simp: dget_def dest: map_of_SomeD)+
  have pairs: "c \<in> set (pair_up xs) \<Longrightarrow> finite c" for xs
    by (induction xs rule: pair_up.induct) auto
  from assms loop fin pairs show ?thesis
    by (auto simp: get_physical_cores_def Let_def split: if_splits)
qed

lemma set_eligible: "set (eligible_radiod_cores cores isolated need performance) \<subseteq> set cores"
  by (auto simp: eligible_cases narrowings dest: in_set_takeD)

lemma keep_core_finite:
  assumes "finite_masks (fst st)" and "\<forall>c \<in> set (snd st). finite c"
  shows "finite_masks (fst (keep_core current u st)) \<and> (\<forall>c \<in> set (snd (keep_core current u st)). finite c)"
proof (cases st)
  case (Pair out free)
  show ?thesis
  proof (cases "dget current u {} \<in> set free")
    case True
    then have "keep_core current u st =
        (AList.update u (dget current u {}) out, remove1 (dget current u {}) free)"
      by (simp add: keep_core_def Pair Let_def)
    moreover have "finite (dget current u {})" using assms(2) True Pair by simp
    moreover have "\<forall>c \<in> set (remove1 (dget current u {}) free). finite c"
      using assms(2) Pair set_remove1_subset [of "dget current u {}" free] by fastforce
    ultimately show ?thesis using assms(1) Pair by (simp add: finite_masks_update)
  qed (use assms Pair in \<open>simp add: keep_core_def\<close>)
qed

lemma place_core_finite:
  assumes "finite_masks (fst st)" and "\<forall>c \<in> set (snd st). finite c" and "\<forall>c \<in> set chosen. finite c"
  shows "finite_masks (fst (place_core chosen u st)) \<and> (\<forall>c \<in> set (snd (place_core chosen u st)). finite c)"
proof (cases st)
  case (Pair out free)
  have "finite (if chosen = [] then {} else last chosen)" using assms(3) by simp
  note spare = finite_masks_update [OF _ this]
  have out: "finite_masks out" and free: "\<forall>c \<in> set free. finite c" using assms(1,2) Pair by auto
  show ?thesis
  proof (cases "u \<in> set (map fst out)")
    case True
    then have "place_core chosen u st = (out, free)" unfolding Pair place_core_def by simp
    with out free show ?thesis by (simp only: fst_conv snd_conv simp_thms)
  next
    case new: False
    show ?thesis
    proof (cases free)
      case Nil
      then have "place_core chosen u st =
          (AList.update u (if chosen = [] then {} else last chosen) out, [])"
        using new unfolding Pair place_core_def by simp
      with spare [OF out] show ?thesis by (simp only: fst_conv snd_conv) simp
    next
      case (Cons c rest)
      then have "place_core chosen u st = (AList.update u c out, rest)"
        using new unfolding Pair place_core_def by simp
      with free Cons finite_masks_update [OF out, of c] show ?thesis by simp
    qed
  qed
qed

lemma fold_keeps: "(\<And>x s. P s \<Longrightarrow> P (f x s)) \<Longrightarrow> P s \<Longrightarrow> P (fold f xs s)"
  by (induction xs arbitrary: s) auto

lemma assign_finite:
  assumes "\<forall>c \<in> set cores. finite c"
  shows "finite_masks (assign_radiod_cores repr units ca cores isolated current performance)"
proof -
  let ?chosen = "chosen_cores (length units) cores isolated performance"
  let ?P = "\<lambda>st. finite_masks (fst st) \<and> (\<forall>c \<in> set (snd st). finite c)"
  have chosen: "\<forall>c \<in> set ?chosen. finite c"
    using assms set_eligible [of cores isolated "length units" performance]
    unfolding chosen_cores_def Let_def by (meson in_set_dropD subsetD)
  have "?P ([], ?chosen)" using chosen by (simp add: finite_masks_def)
  then have kept: "?P (fold (keep_core current) units ([], ?chosen))"
    by (rule fold_keeps [where P = ?P, rotated]) (rule keep_core_finite; simp)
  have "?P (fold (place_core ?chosen) units (fold (keep_core current) units ([], ?chosen)))"
    by (rule fold_keeps [where P = ?P, OF _ kept]) (rule place_core_finite; simp add: chosen)
  moreover have "finite (radiod_override repr ca)" by (simp add: radiod_override_def Let_def)
  then have "finite_masks (fold (\<lambda>u. AList.update u (radiod_override repr ca)) units [])"
    by (intro fold_keeps [where P = finite_masks] finite_masks_update) (simp_all add: finite_masks_def)
  ultimately show ?thesis
    by (simp add: assign_radiod_cores_def Let_def finite_masks_def)
qed

lemma host_plan_finite:
  assumes "host_plan repr ca h islands = Inr plan"
  shows "finite_masks (plan_radiod plan)"
proof -
  obtain cores where "host_cores h = Inr cores"
    and plan: "plan_radiod plan = assign_radiod_cores repr (get_radiod_instances h) ca cores
      (host_isolated h) (case get_radiod_cpus_by_unit h of Inl _ \<Rightarrow> [] | Inr d \<Rightarrow> d) (host_performance h)"
    using assms by (auto simp: host_plan_def ebind_eq_Inr compute_affinity_plan_def Let_def)
  then show ?thesis
    unfolding plan by (intro assign_finite ballI) (auto simp: host_cores_def intro: physical_cores_finite)
qed

lemma finite_sibling_set: "\<forall>c \<in> set physical. finite c \<Longrightarrow> finite (sibling_set cpu physical)"
  by (induction physical) auto

lemma finite_clock:
  assumes "finite_masks by_unit" and "\<forall>c \<in> set physical. finite c"
  shows "finite (fast_cpus (plan_clock_policy by_unit physical mode))"
    "finite (capped_radiod_cpus (plan_clock_policy by_unit physical mode))"
proof -
  have "finite (fst (fold (fft_step physical) by_unit ({}, [])))"
    by (rule fold_keeps [where P = "\<lambda>st. finite (fst st)"])
      (auto simp: fft_step_def finite_sibling_set [OF assms(2)] split: prod.split)
  then show "finite (fast_cpus (plan_clock_policy by_unit physical mode))"
    "finite (capped_radiod_cpus (plan_clock_policy by_unit physical mode))"
    using finite_union_of [OF assms(1)]
    by (auto simp: plan_clock_policy_def split: prod.split)
qed

section \<open>What a report with no warning says\<close>

lemma foreign_step_member:
  "u \<in> set (dget (AList.update q (dget acc q [] @ [v]) acc) p []) \<longleftrightarrow>
     u \<in> set (dget acc p []) \<or> p = q \<and> u = v"
  by (auto simp: dget_update)

lemma foreign_unit_member:
  "u \<in> set (dget (fold (\<lambda>p acc. AList.update p (dget acc p [] @ [v]) acc) ps acc) p []) \<longleftrightarrow>
     u \<in> set (dget acc p []) \<or> p \<in> set ps \<and> u = v"
  by (induction ps arbitrary: acc) (auto simp: foreign_step_member)

lemma foreign_paths_member:
  "u \<in> set (dget (foreign_paths units) p []) \<longleftrightarrow> u \<in> set units \<and> p \<in> set (foreign_drop_ins u)"
proof -
  have "u \<in> set (dget (fold (\<lambda>u. fold (\<lambda>p acc. AList.update p (dget acc p [] @ [u]) acc)
      (foreign_drop_ins u)) units acc) p []) \<longleftrightarrow>
      u \<in> set (dget acc p []) \<or> u \<in> set units \<and> p \<in> set (foreign_drop_ins u)" for acc
    by (induction units arbitrary: acc) (auto simp: foreign_unit_member)
  then show ?thesis by (simp add: foreign_paths_def dget_def)
qed

lemma foreign_warnings_none:
  "foreign_warnings units = [] \<longleftrightarrow>
     (\<forall>u \<in> set units. foreign_drop_ins u \<noteq> [] \<longrightarrow> drop_in_present u)"
proof -
  have "foreign_warnings units = [] \<longleftrightarrow>
      (\<forall>path \<in> set (map fst (foreign_paths units)).
         \<forall>u \<in> set (dget (foreign_paths units) path []). drop_in_present u)"
    by (auto simp: foreign_warnings_def Let_def list_all_iff split: if_splits)
  also have "\<dots> \<longleftrightarrow> (\<forall>path u. u \<in> set (dget (foreign_paths units) path []) \<longrightarrow> drop_in_present u)"
  proof -
    have "path \<in> set (map fst d)" if "u \<in> set (dget d path [])" for u path
      and d :: "(string, unit_affinity list) dict"
    proof -
      have "map_of d path \<noteq> None" using that by (cases "map_of d path") auto
      then show ?thesis by (metis keys_iff_map_of option.exhaust)
    qed
    then show ?thesis by blast
  qed
  also have "\<dots> \<longleftrightarrow> (\<forall>u \<in> set units. foreign_drop_ins u \<noteq> [] \<longrightarrow> drop_in_present u)"
    unfolding foreign_paths_member by (metis list.set_intros(1) neq_Nil_conv empty_iff list.set(1))
  finally show ?thesis .
qed

lemma governor_warnings_none:
  assumes "finite (fast_cpus clock)" and "finite (capped_radiod_cpus clock)"
  shows "governor_warnings expected clock gov = [] \<longleftrightarrow>
    (\<forall>cpu g. map_of gov cpu = Some g \<longrightarrow>
       (cpu \<in> fast_cpus clock \<longrightarrow> g = [] \<or> g = expected)
       \<and> (cpu \<in> capped_radiod_cpus clock \<longrightarrow> g \<noteq> ''performance''))"
  using assms by (auto simp: governor_warnings_def split: option.splits if_splits)

lemma isolation_warnings_none: "isolation_warnings radiod isol = [] \<longleftrightarrow> radiod \<subseteq> isol"
  by (auto simp: isolation_warnings_def Let_def)

lemma island_warnings_none:
  "island_warnings plan isol = [] \<longleftrightarrow>
     (cache_split plan \<and> radiod_l3_cpus plan \<noteq> {} \<longrightarrow> recommended_isolcpus plan \<subseteq> isol)"
  by (auto simp: island_warnings_def)

lemma unit_warnings_none:
  "unit_warnings u = [] \<longleftrightarrow> \<not> mask_mismatch u
     \<and> (ua_role u = ''radiod'' \<and> ua_main_pid u \<noteq> None \<longrightarrow> drop_in_present u)"
  by (auto simp: unit_warnings_def)

lemma pinned_warnings_none:
  "pinned_warnings contention = [] \<longleftrightarrow> filter (\<lambda>c. \<not> ct_default c) contention = []"
  by (simp add: pinned_warnings_def Let_def)

lemma built_report:
  assumes "build_affinity_report repr ca expected mode h = Some (Inr r)"
  obtains caps plan others where "gather_capabilities h = Some (Inr caps)"
    and "host_plan repr ca h (l3_islands caps) = Inr plan"
    and "r = report_of expected mode h caps plan others"
  using assms by (auto simp: build_affinity_report_def ebind_eq_Inr)


definition example_sys :: sys where
  "example_sys = \<lparr> sys_read = (\<lambda>p. if p = ''/proc/cmdline'' then Some ''quiet isolcpus=2-3'' else None),
     sys_exists = (\<lambda>p. p = ''/etc/radio''),
     sys_list = (\<lambda>p. if p = ''/etc/radio'' then [''radiod@a.conf''] else []),
     sys_plain_file = (\<lambda>p. True), sys_cpus = Some 4, sys_run = (\<lambda>ws. []), sys_json = (\<lambda>s. None) \<rparr>"


end
