(* ===== verification/RestartJudge.thy ===== *)
theory RestartJudge
  imports PyText
begin

text \<open>
  The opt-in honouring of hf-timestd's radiod restart requests, and the timing section of the
  status (\<open>src/lib/sigmond/timing_judge.py\<close>).  A file is the JSON value read from it, \<open>None\<close>
  when it is absent or unreadable; \<open>isotime\<close> is \<open>datetime.fromisoformat\<close>: seconds since the
  epoch, a naive time taken as UTC, and whether it was aware.  Numbers of the status rows stay
  numbers: their formatting is not modelled.
\<close>

section \<open>Reading\<close>

definition JUDGE_FRESH_S :: rat where "JUDGE_FRESH_S = 120"
definition REQUEST_FRESH_S :: rat where "REQUEST_FRESH_S = 900"
definition RESTART_REQUEST_SCHEMA :: string where
  "RESTART_REQUEST_SCHEMA = ''radiod-restart-request-v1''"

type_synonym json = "(string, pyval) dict"

definition read_json :: "pyval option \<Rightarrow> json option" where
  "read_json doc = (case doc of Some (PDict d) \<Rightarrow> Some d | _ \<Rightarrow> None)"

definition parse_iso_utc :: "(string \<Rightarrow> (rat \<times> bool) option) \<Rightarrow> pyval \<Rightarrow> rat option" where
  "parse_iso_utc isotime v =
     (case v of
        PStr s \<Rightarrow>
          if s = [] then None
          else
            let text = (if last s = CHR ''Z'' then butlast s @ ''+00:00'' else s) in
            map_option fst (isotime text)
      | _ \<Rightarrow> None)"

text \<open>\<open>mtime\<close> is \<open>None\<close> when \<open>stat\<close> raises.\<close>

definition load_offset_judge ::
  "rat option \<Rightarrow> pyval option \<Rightarrow> rat \<Rightarrow> rat \<Rightarrow> json option" where
  "load_offset_judge mtime doc now max_age =
     (case mtime of None \<Rightarrow> None
      | Some m \<Rightarrow> if 0 \<le> now - m \<and> now - m \<le> max_age then read_json doc else None)"

definition short_ssrc :: "string \<Rightarrow> string" where
  "short_ssrc key =
     (let short = dropWhile (\<lambda>c. c = CHR ''0'') (after_last (CHR ''/'') key) in
      if short = [] then ''0'' else short)"

section \<open>The status rows\<close>

datatype level = Ok | Warn | Err

text \<open>A number as the row shows it: \<open>None\<close> is the question mark or the left-out bit.\<close>

datatype row =
    JudgeRow pyval "pyfloat option" "pyfloat option" pyval
  | NoVerdictRow pyval
  | SourceRow string "string list" "pyfloat option" "pyfloat option" "pyval option" "pyval option"
  | RequestRow pyval "pyfloat option" "pyfloat option" bool

definition number_of :: "pyval \<Rightarrow> pyfloat option" where
  "number_of v = (case v of PBool b \<Rightarrow> Some (Fin (if b then 1 else 0)) | _ \<Rightarrow> py_num v)"

definition json_get :: "json \<Rightarrow> string \<Rightarrow> pyval" where
  "json_get d k = dget d k PNone"

definition given :: "pyval \<Rightarrow> pyval option" where
  "given v = (if py_truthy v then Some v else None)"

text \<open>\<open>doc.get(key) or {}\<close>, used as a dictionary.\<close>

definition sub_dict :: "json \<Rightarrow> string \<Rightarrow> py_error + json" where
  "sub_dict doc k = (let v = json_get doc k in
     if \<not> py_truthy v then Inr []
     else case v of PDict d \<Rightarrow> Inr d | _ \<Rightarrow> Inl AttributeError)"

definition judge_row :: "json \<Rightarrow> pyval \<Rightarrow> level \<times> row" where
  "judge_row judge gpsdo =
     (if py_truthy (json_get judge ''tier'') then
        (if gpsdo \<in> {PStr ''holdover'', PStr ''unlocked''} then Warn else Ok,
         JudgeRow (json_get judge ''tier'') (number_of (json_get judge ''sigma_ns''))
           (number_of (json_get judge ''age_s'')) gpsdo)
      else (Warn, NoVerdictRow gpsdo))"

definition source_faults :: "json \<Rightarrow> string list" where
  "source_faults src =
     (if py_truthy (json_get src ''in_violation'') then [''OFFSET VIOLATION''] else [])
     @ (if py_truthy (json_get src ''rate_alarm'') then [''RATE ALARM''] else [])"

definition source_row :: "json \<Rightarrow> string \<Rightarrow> (level \<times> row) list" where
  "source_row sources key =
     (case json_get sources key of
        PDict src \<Rightarrow>
          [(if source_faults src = [] then Ok else Err,
            SourceRow (short_ssrc key) (source_faults src) (to_float (json_get src ''offset_ns''))
              (number_of (json_get src ''rate_ppm'')) (given (json_get src ''tier''))
              (case json_get src ''segment_id'' of PNone \<Rightarrow> None | v \<Rightarrow> Some v))]
      | _ \<Rightarrow> [])"

definition request_row :: "json \<Rightarrow> json option \<Rightarrow> level \<times> row" where
  "request_row req honored =
     (Err, RequestRow (dget req ''radiod_id'' (PStr ''?'')) (number_of (json_get req ''offset_ms''))
       (number_of (json_get req ''sustained_s''))
       (case honored of None \<Rightarrow> False | Some h \<Rightarrow>
          h \<noteq> [] \<and> json_get h ''requested_utc'' = json_get req ''requested_utc''))"

definition render_status_lines ::
  "json \<Rightarrow> json option \<Rightarrow> json option \<Rightarrow> py_error + (level \<times> row) list" where
  "render_status_lines doc request honored =
     ebind (sub_dict doc ''judge'') (\<lambda>judge. ebind (sub_dict doc ''sources'') (\<lambda>sources.
       Inr (judge_row judge (dget doc ''gpsdo_discipline'' (PStr ''absent''))
         # concat (map (source_row sources) (sort (map fst sources)))
         @ (case request of None \<Rightarrow> [] | Some r \<Rightarrow> [request_row r honored]))))"

section \<open>The request\<close>

datatype request_problem =
  NotObject | BadSchema pyval | BadTime pyval | BadRadiodId pyval | NoSourceKey | BadNumber string
  | NoEvidence

definition id_char :: "char \<Rightarrow> bool" where
  "id_char c = (is_upper c \<or> is_lower c \<or> is_digit c \<or> c \<in> set ''._-'')"

definition radiod_id_ok :: "pyval \<Rightarrow> bool" where
  "radiod_id_ok v = (case v of PStr s \<Rightarrow> s \<noteq> [] \<and> list_all id_char s | _ \<Rightarrow> False)"

fun is_str :: "pyval \<Rightarrow> bool" where
  "is_str (PStr s) = True" | "is_str _ = False"

fun is_dict :: "pyval \<Rightarrow> bool" where
  "is_dict (PDict d) = True" | "is_dict _ = False"

definition validate_restart_request ::
  "(string \<Rightarrow> (rat \<times> bool) option) \<Rightarrow> pyval \<Rightarrow> request_problem list" where
  "validate_restart_request isotime v = (case v of
     PDict doc \<Rightarrow>
       (if json_get doc ''schema'' \<noteq> PStr RESTART_REQUEST_SCHEMA
        then [BadSchema (json_get doc ''schema'')] else [])
       @ (if parse_iso_utc isotime (json_get doc ''requested_utc'') = None
          then [BadTime (json_get doc ''requested_utc'')] else [])
       @ (if radiod_id_ok (json_get doc ''radiod_id'') then []
          else [BadRadiodId (json_get doc ''radiod_id'')])
       @ (if is_str (json_get doc ''source_key'') then [] else [NoSourceKey])
       @ concat (map (\<lambda>f. if number_of (json_get doc f) = None then [BadNumber f] else [])
           [''offset_ms'', ''sustained_s''])
       @ (if is_dict (json_get doc ''evidence'') then [] else [NoEvidence])
   | _ \<Rightarrow> [NotObject])"

datatype reason =
    NoArtifact | PolicyOff | NotJson | Invalid "request_problem list" | Stale rat | AlreadyHonored pyval
  | UnitNotActive string | DryRun | Honored

record verdict =
  vd_action :: string
  vd_reason :: reason
  vd_loud :: bool
  vd_unit :: "string option"
  vd_request :: "json option"

text \<open>What the run does to the world, in order.\<close>

datatype effect = Stamp json | Restart string

definition honored_stamp :: "(rat \<Rightarrow> string) \<Rightarrow> json \<Rightarrow> rat \<Rightarrow> string \<Rightarrow> json" where
  "honored_stamp strftime request now u =
     [(''schema'', PStr ''radiod-restart-honored-v1''),
      (''requested_utc'', json_get request ''requested_utc''),
      (''honored_utc'', PStr (strftime now)), (''unit'', PStr u),
      (''source_key'', json_get request ''source_key''),
      (''offset_ms'', json_get request ''offset_ms'')]"

text \<open>What a run finds: the policy, the request artifact, the clock, the states of the units, and
  whether the stamp can be written.\<close>

record run_in =
  ri_enabled :: bool
  ri_exists :: bool
  ri_request :: "pyval option"
  ri_now :: rat
  ri_max_age :: rat
  ri_state :: "string \<Rightarrow> string"
  ri_act :: bool
  ri_writes :: bool

definition unit_named :: "json \<Rightarrow> string" where
  "unit_named doc =
     ''radiod@'' @ (case json_get doc ''radiod_id'' of PStr s \<Rightarrow> s | _ \<Rightarrow> []) @ ''.service''"

definition ignore :: "reason \<Rightarrow> bool \<Rightarrow> json option \<Rightarrow> verdict" where
  "ignore why loud req = \<lparr> vd_action = ''ignore'', vd_reason = why, vd_loud = loud, vd_unit = None,
     vd_request = req \<rparr>"

text \<open>The verdict, \<open>None\<close> when writing the stamp raises, and the effects.\<close>

definition process_restart_request ::
  "(string \<Rightarrow> (rat \<times> bool) option) \<Rightarrow> (rat \<Rightarrow> string) \<Rightarrow> run_in \<Rightarrow> pyval option \<Rightarrow>
   verdict option \<times> effect list" where
  "process_restart_request isotime strftime i stamp =
     (if \<not> ri_exists i then
        (Some \<lparr> vd_action = ''none'', vd_reason = NoArtifact, vd_loud = False, vd_unit = None,
           vd_request = None \<rparr>, [])
      else if \<not> ri_enabled i then (Some (ignore PolicyOff False None), [])
      else case read_json (ri_request i) of
        None \<Rightarrow> (Some (ignore NotJson True None), [])
      | Some doc \<Rightarrow>
          let problems = validate_restart_request isotime (PDict doc) in
          if problems \<noteq> [] then (Some (ignore (Invalid problems) True (Some doc)), [])
          else case parse_iso_utc isotime (json_get doc ''requested_utc'') of
            None \<Rightarrow> (Some (ignore (Invalid problems) True (Some doc)), [])
          | Some requested \<Rightarrow>
              let age = ri_now i - requested in
              if \<not> (0 \<le> age \<and> age \<le> ri_max_age i) then
                (Some (ignore (Stale age) False (Some doc)), [])
              else if (case read_json stamp of None \<Rightarrow> False | Some st \<Rightarrow>
                    json_get st ''requested_utc'' = json_get doc ''requested_utc'') then
                (Some (ignore (AlreadyHonored (json_get doc ''requested_utc'')) False (Some doc)), [])
              else
                let u = unit_named doc in
                if ri_state i u \<noteq> ''active'' then
                  (Some ((ignore (UnitNotActive (ri_state i u)) True (Some doc))\<lparr>vd_unit := Some u\<rparr>), [])
                else if \<not> ri_act i then
                  (Some \<lparr> vd_action = ''restart'', vd_reason = DryRun, vd_loud = True,
                     vd_unit = Some u, vd_request = Some doc \<rparr>, [])
                else if \<not> ri_writes i then (None, [])
                else
                  (Some \<lparr> vd_action = ''restart'', vd_reason = Honored, vd_loud = True,
                     vd_unit = Some u, vd_request = Some doc \<rparr>,
                   [Stamp (honored_stamp strftime doc (ri_now i) u), Restart u]))"

section \<open>A series of runs\<close>

text \<open>A crash may cut the effects of a run short at any point: the number of a run is how many happened.\<close>

definition stamp_after :: "effect list \<Rightarrow> pyval option \<Rightarrow> pyval option" where
  "stamp_after es stamp = fold (\<lambda>e s. case e of Stamp d \<Rightarrow> Some (PDict d) | Restart u \<Rightarrow> s) es stamp"

definition asked :: "run_in \<Rightarrow> pyval" where
  "asked i = (case read_json (ri_request i) of None \<Rightarrow> PNone | Some d \<Rightarrow> json_get d ''requested_utc'')"

text \<open>The requests whose restart was issued, in order.\<close>

fun honored_runs ::
  "(string \<Rightarrow> (rat \<times> bool) option) \<Rightarrow> (rat \<Rightarrow> string) \<Rightarrow> (run_in \<times> nat) list \<Rightarrow> pyval option \<Rightarrow>
   pyval list" where
  "honored_runs isotime strftime [] stamp = []"
| "honored_runs isotime strftime ((i, n) # runs) stamp =
     (let es = take n (snd (process_restart_request isotime strftime i stamp)) in
      (if list_ex (\<lambda>e. case e of Restart u \<Rightarrow> True | _ \<Rightarrow> False) es then [asked i] else [])
      @ honored_runs isotime strftime runs (stamp_after es stamp))"

text \<open>No request comes back once another one has been asked.\<close>

fun never_returns :: "pyval list \<Rightarrow> bool" where
  "never_returns [] = True"
| "never_returns (a # as) =
     ((a = PNone \<or> a \<notin> set (dropWhile (\<lambda>x. x = a \<or> x = PNone) as)) \<and> never_returns as)"

section \<open>The gate\<close>

definition stamped :: "pyval option \<Rightarrow> pyval \<Rightarrow> bool" where
  "stamped stamp a \<longleftrightarrow>
     (case read_json stamp of None \<Rightarrow> False | Some st \<Rightarrow> json_get st ''requested_utc'' = a)"

text \<open>C17. A run touches the world only when everything lines up, and then it writes the stamp
  first: the policy allows it, the request is valid, fresh and not the one stamped, the unit it
  names is a plain radiod instance active on this host, and the stamp is writable.  It restarts
  that unit and no other, and the stamp names the request.\<close>

theorem restart_gate:
  "snd (process_restart_request isotime strftime i stamp) \<noteq> [] \<longleftrightarrow>
     ri_exists i \<and> ri_enabled i \<and> ri_act i \<and> ri_writes i
     \<and> (\<exists>doc t. read_json (ri_request i) = Some doc
         \<and> validate_restart_request isotime (PDict doc) = []
         \<and> parse_iso_utc isotime (asked i) = Some t
         \<and> 0 \<le> ri_now i - t \<and> ri_now i - t \<le> ri_max_age i
         \<and> \<not> stamped stamp (asked i)
         \<and> radiod_id_ok (json_get doc ''radiod_id'')
         \<and> ri_state i (unit_named doc) = ''active''
         \<and> snd (process_restart_request isotime strftime i stamp)
             = [Stamp (honored_stamp strftime doc (ri_now i) (unit_named doc)), Restart (unit_named doc)])"
proof -
  have id: "radiod_id_ok (json_get doc ''radiod_id'')"
    if "validate_restart_request isotime (PDict doc) = []" for doc
    using that by (simp add: validate_restart_request_def split: if_splits)
  show ?thesis
  proof (cases "read_json (ri_request i)")
    case None
    then show ?thesis by (simp add: process_restart_request_def)
  next
    case (Some doc)
    then have a: "asked i = json_get doc ''requested_utc''" by (simp add: asked_def)
    let ?st = "case read_json stamp of None \<Rightarrow> False
      | Some st \<Rightarrow> json_get st ''requested_utc'' = json_get doc ''requested_utc''"
    have st: "?st = stamped stamp (asked i)" by (simp add: stamped_def a)
    show ?thesis
      using id [of doc] Some
      by (cases "parse_iso_utc isotime (json_get doc ''requested_utc'')")
        (auto simp: process_restart_request_def Let_def a st)
  qed
qed

section \<open>At most once\<close>

lemma restart_effects:
  "Restart u \<in> set (take n (snd (process_restart_request isotime strftime i stamp))) \<Longrightarrow>
     asked i \<noteq> PNone \<and> \<not> stamped stamp (asked i)
     \<and> stamped (stamp_after (take n (snd (process_restart_request isotime strftime i stamp))) stamp) (asked i)"
proof -
  let ?es = "snd (process_restart_request isotime strftime i stamp)"
  assume r: "Restart u \<in> set (take n ?es)"
  then have "?es \<noteq> []" by auto
  then obtain doc t where doc: "read_json (ri_request i) = Some doc"
    and t: "parse_iso_utc isotime (asked i) = Some t" and st: "\<not> stamped stamp (asked i)"
    and es: "?es = [Stamp (honored_stamp strftime doc (ri_now i) (unit_named doc)), Restart (unit_named doc)]"
    unfolding restart_gate by blast
  have "asked i \<noteq> PNone" using t by (auto simp: parse_iso_utc_def)
  moreover have "2 \<le> n"
  proof (rule ccontr)
    assume "\<not> 2 \<le> n"
    then have "n = 0 \<or> n = 1" by auto
    with r show False by (auto simp: es)
  qed
  then have "take n ?es = ?es" by (simp add: es)
  moreover have "stamped (stamp_after ?es stamp) (asked i)"
    using doc by (simp add: es stamp_after_def stamped_def read_json_def asked_def honored_stamp_def
        json_get_def dget_def split: option.splits pyval.splits)
  ultimately show ?thesis using st by simp
qed

lemma quiet_effects:
  "asked i = PNone \<or> stamped stamp (asked i) \<Longrightarrow>
     snd (process_restart_request isotime strftime i stamp) = []"
proof (rule ccontr)
  assume a: "asked i = PNone \<or> stamped stamp (asked i)"
    and "snd (process_restart_request isotime strftime i stamp) \<noteq> []"
  then show False unfolding restart_gate by (auto simp: parse_iso_utc_def)
qed

lemma honored_asked: "set (honored_runs isotime strftime runs stamp) \<subseteq> set (map (asked \<circ> fst) runs)"
proof (induction runs arbitrary: stamp)
  case (Cons r runs)
  obtain i n where r: "r = (i, n)" by fastforce
  show ?case using Cons.IH by (auto simp: r Let_def)
qed simp

lemma honored_skip:
  assumes "asked i = PNone \<or> stamped stamp (asked i)"
  shows "honored_runs isotime strftime ((i, n) # runs) stamp = honored_runs isotime strftime runs stamp"
  using quiet_effects [OF assms, of isotime strftime] by (simp add: stamp_after_def)

lemma stamped_not_again:
  assumes "stamped stamp a" and "a \<noteq> PNone"
    and "a \<notin> set (dropWhile (\<lambda>x. x = a \<or> x = PNone) (map (asked \<circ> fst) runs))"
  shows "a \<notin> set (honored_runs isotime strftime runs stamp)"
  using assms(1,3)
proof (induction runs)
  case (Cons r runs)
  obtain i n where r: "r = (i, n)" by fastforce
  show ?case
  proof (cases "asked i = a \<or> asked i = PNone")
    case True
    then have "asked i = PNone \<or> stamped stamp (asked i)" using Cons.prems(1) by auto
    from honored_skip [OF this] Cons True show ?thesis by (simp add: r)
  next
    case False
    with Cons.prems(2) have "a \<notin> set (map (asked \<circ> fst) (r # runs))" by (auto simp: r)
    then show ?thesis using honored_asked [of isotime strftime "r # runs" stamp] by blast
  qed
qed simp

text \<open>C18. Over any series of runs, whatever the clock, the units, the stamp found at first and the
  points where a run is cut short, no request is restarted twice, as long as no request comes
  back after another one was asked.\<close>

theorem honored_at_most_once:
  assumes "never_returns (map (asked \<circ> fst) runs)"
  shows "distinct (honored_runs isotime strftime runs stamp)"
  using assms
proof (induction runs arbitrary: stamp)
  case (Cons r runs)
  obtain i n where r: "r = (i, n)" by fastforce
  let ?es = "take n (snd (process_restart_request isotime strftime i stamp))"
  have IH: "distinct (honored_runs isotime strftime runs s)" for s
    using Cons.IH Cons.prems by (simp add: r)
  show ?case
  proof (cases "\<exists>u. Restart u \<in> set ?es")
    case True
    then obtain u where "Restart u \<in> set ?es" by blast
    from restart_effects [OF this] have a: "asked i \<noteq> PNone"
      and st: "stamped (stamp_after ?es stamp) (asked i)" by simp_all
    have "asked i \<notin> set (honored_runs isotime strftime runs (stamp_after ?es stamp))"
      using Cons.prems a by (intro stamped_not_again [OF st a]) (simp add: r o_def)
    then show ?thesis using IH by (simp add: r Let_def)
  next
    case False
    then have "\<not> list_ex (\<lambda>e. case e of Restart u \<Rightarrow> True | _ \<Rightarrow> False) ?es"
      by (auto simp: list_ex_iff split: effect.splits)
    then show ?thesis using IH by (simp add: r Let_def)
  qed
qed simp

definition example_request :: "string \<Rightarrow> pyval" where
  "example_request utc = PDict [(''schema'', PStr RESTART_REQUEST_SCHEMA), (''requested_utc'', PStr utc),
     (''radiod_id'', PStr ''B4''), (''source_key'', PStr ''a/1''), (''offset_ms'', PInt 5),
     (''sustained_s'', PInt 60), (''evidence'', PDict [])]"

definition example_run :: "string \<Rightarrow> run_in \<times> nat" where
  "example_run utc = (\<lparr> ri_enabled = True, ri_exists = True, ri_request = Some (example_request utc),
     ri_now = 10, ri_max_age = REQUEST_FRESH_S, ri_state = (\<lambda>u. ''active''), ri_act = True,
     ri_writes = True \<rparr>, 2)"

theorem honored_at_most_once_witness:
  "distinct (honored_runs (\<lambda>s. Some (5, True)) (\<lambda>t. []) [example_run ''A'', example_run ''A'', example_run ''B''] None)
   \<and> honored_runs (\<lambda>s. Some (5, True)) (\<lambda>t. []) [example_run ''A'', example_run ''A'', example_run ''B''] None
       = [PStr ''A'', PStr ''B'']"
proof
  have "never_returns (map (asked \<circ> fst) [example_run ''A'', example_run ''A'', example_run ''B''])"
    by code_simp
  then show "distinct (honored_runs (\<lambda>s. Some (5, True)) (\<lambda>t. [])
      [example_run ''A'', example_run ''A'', example_run ''B''] None)"
    by (rule honored_at_most_once)
  show "honored_runs (\<lambda>s. Some (5, True)) (\<lambda>t. [])
      [example_run ''A'', example_run ''A'', example_run ''B''] None = [PStr ''A'', PStr ''B'']"
    by code_simp
qed

text \<open>The stamp keeps only the last request: one that comes back is honoured again.\<close>

lemma returning_request_honored_again:
  "honored_runs (\<lambda>s. Some (5, True)) (\<lambda>t. []) [example_run ''A'', example_run ''B'', example_run ''A''] None
     = [PStr ''A'', PStr ''B'', PStr ''A'']"
  by code_simp

end
