(* ===== verification/UnitPolicy.thy ===== *)
theory UnitPolicy
  imports PyText
begin

text \<open>
  The small decisions about systemd units: which radiod a consumer waits for
  (\<open>radiod_ready.py\<close>), which units apply may touch (\<open>unit_intent.py\<close>), the LAN ordering
  drop-ins (\<open>lan_order.py\<close>), the unit files a rollback retires (\<open>restore_units.py\<close>), what an
  alignment makes stale (\<open>align_live.py\<close>) and whether the station has the CPUs for its receivers
  (\<open>capacity.py\<close>); all under \<open>src/lib/sigmond/\<close>.  A message is a value that holds what its text interpolates.
\<close>

section \<open>Which radiod\<close>

fun unit_line :: "string list \<Rightarrow> (string \<times> string \<times> string) option" where
  "unit_line (u # ld # act # rest) = Some (u, ld, act)"
| "unit_line ws = None"

definition listed :: "string \<Rightarrow> (string \<times> string \<times> string) list" where
  "listed text = List.map_filter (\<lambda>l. unit_line (split_ws l)) (splitlines text)"

definition may_serve :: "string \<times> string \<times> string \<Rightarrow> bool" where
  "may_serve row = (case row of (u, ld, act) \<Rightarrow> ld = ''loaded'' \<and> act \<noteq> ''failed'')"

definition candidate_units :: "string \<Rightarrow> string list" where
  "candidate_units text = map fst (filter may_serve (listed text))"

definition excluded_units :: "string \<Rightarrow> string list" where
  "excluded_units text =
     map (\<lambda>(u, ld, act). u @ '' ('' @ ld @ ''/'' @ act @ '')'')
       (filter (\<lambda>(u, _). u \<notin> set (candidate_units text)) (listed text))"

section \<open>The operator's mask\<close>

definition should_manage :: "string \<Rightarrow> bool" where
  "should_manage state = (strip state \<notin> set [''masked'', ''masked-runtime''])"

definition unit_partition :: "(string \<times> string) list \<Rightarrow> string list \<times> string list" where
  "unit_partition states =
     fold (\<lambda>(u, state) (manage, skipped).
       if should_manage state then (manage @ [u], skipped) else (manage, skipped @ [u]))
     states ([], [])"

text \<open>The two lists are the units in their order, split by the mask and nothing else.\<close>

lemma unit_partition_exact:
  "unit_partition states =
     (map fst (filter (\<lambda>(_, s). should_manage s) states),
      map fst (filter (\<lambda>(_, s). \<not> should_manage s) states))"
proof -
  have "fold (\<lambda>(u, state) (manage, skipped).
       if should_manage state then (manage @ [u], skipped) else (manage, skipped @ [u])) states (m, k)
     = (m @ map fst (filter (\<lambda>(_, s). should_manage s) states),
        k @ map fst (filter (\<lambda>(_, s). \<not> should_manage s) states))" for m k
    by (induction states arbitrary: m k) auto
  then show ?thesis by (simp add: unit_partition_def)
qed

section \<open>Behind the LAN\<close>

definition lan_content :: string where
  "lan_content = unlines
    [''# Written by sigmond (lib/sigmond/lan_order.py).  Do not edit.'',
     ''#'',
     ''# Hold this consumer until a LAN that can carry multicast is up.'',
     ''# network-online.target can come true while loopback is the only'',
     ''# multicast-capable interface, which starts a recorder that joins a'',
     ''# group reaching nobody and then reports perfect health.'',
     ''#'',
     ''# After= only: radiod already Wants=lan.target, and a consumer that'',
     ''# pulled it in itself would run wait-for-lan on a decode-only host.'',
     ''# On a radiod older than lan.target this line is inert.'',
     ''[Unit]'',
     ''After=lan.target'']"

definition lan_drop_in_path :: "string \<Rightarrow> string \<Rightarrow> string" where
  "lan_drop_in_path base u = base @ ''/'' @ u @ ''.d/10-smd-lan-order.conf''"

datatype lan_msg = WouldOrder string | CannotWrite string | Ordered string

type_synonym files = "string \<Rightarrow> string option"

definition orderable :: "string \<Rightarrow> bool" where
  "orderable u = (u \<noteq> [] \<and> (ends_with u ''.service'' \<or> ends_with u ''.target'' \<or> ends_with u ''.timer''))"

text \<open>\<open>readable\<close> and \<open>writable\<close> tell which paths raise OSError.\<close>

definition order_unit ::
  "(string \<Rightarrow> bool) \<Rightarrow> (string \<Rightarrow> bool) \<Rightarrow> bool \<Rightarrow> string \<Rightarrow> string \<Rightarrow> files \<times> lan_msg list \<Rightarrow>
   files \<times> lan_msg list" where
  "order_unit readable writable dry_run base u st =
     (let (fs, changed) = st; path = lan_drop_in_path base u in
      if \<not> orderable u then (fs, changed)
      else if readable path \<and> fs path = Some lan_content then (fs, changed)
      else if dry_run then (fs, changed @ [WouldOrder u])
      else if writable path then (fs(path \<mapsto> lan_content), changed @ [Ordered u])
      else (fs, changed @ [CannotWrite u]))"

definition ensure_lan_ordering ::
  "(string \<Rightarrow> bool) \<Rightarrow> (string \<Rightarrow> bool) \<Rightarrow> bool \<Rightarrow> string \<Rightarrow> string list \<Rightarrow> files \<Rightarrow>
   files \<times> lan_msg list" where
  "ensure_lan_ordering readable writable dry_run base units fs =
     fold (order_unit readable writable dry_run base) units (fs, [])"

lemma lan_path_inj: "lan_drop_in_path base u = lan_drop_in_path base v \<longleftrightarrow> u = v"
  by (simp add: lan_drop_in_path_def)

definition lan_done :: "string \<Rightarrow> string list \<Rightarrow> files \<Rightarrow> bool" where
  "lan_done base units fs \<longleftrightarrow>
     (\<forall>u \<in> set units. orderable u \<longrightarrow> fs (lan_drop_in_path base u) = Some lan_content)"

lemma order_unit_dry:
  "fst (fold (order_unit readable writable True base) units st) = fst st"
  by (induction units arbitrary: st) (auto simp: order_unit_def Let_def split: prod.split)

lemma order_unit_quiet:
  assumes "lan_done base units fs"
  shows "fold (order_unit (\<lambda>p. True) writable dry base) units (fs, msgs) = (fs, msgs)"
  using assms
proof (induction units)
  case (Cons u units)
  then have "order_unit (\<lambda>p. True) writable dry base u (fs, msgs) = (fs, msgs)"
    by (auto simp: order_unit_def Let_def lan_done_def)
  with Cons show ?case by (simp add: lan_done_def)
qed simp

lemma order_unit_run:
  fixes fs :: files
  assumes "\<forall>p. writable p"
  shows "lan_done base units (fst (fold (order_unit readable writable False base) units (fs, msgs)))
    \<and> (\<forall>p. fs p = Some lan_content \<longrightarrow>
         fst (fold (order_unit readable writable False base) units (fs, msgs)) p = Some lan_content)
    \<and> (\<forall>p. (\<forall>u \<in> set units. orderable u \<longrightarrow> p \<noteq> lan_drop_in_path base u) \<longrightarrow>
         fst (fold (order_unit readable writable False base) units (fs, msgs)) p = fs p)"
proof (induction units arbitrary: fs msgs)
  case Nil
  then show ?case by (simp add: lan_done_def)
next
  case (Cons u units)
  let ?p = "lan_drop_in_path base u"
  obtain fs' msgs' where step: "order_unit readable writable False base u (fs, msgs) = (fs', msgs')"
    by fastforce
  have fs': "fs' = (if orderable u then fs(?p \<mapsto> lan_content) else fs)"
    using step assms by (auto simp: order_unit_def Let_def fun_eq_iff split: if_splits)
  note IH = Cons.IH [of fs' msgs']
  have run: "fold (order_unit readable writable False base) (u # units) (fs, msgs)
      = fold (order_unit readable writable False base) units (fs', msgs')" by (simp add: step)
  have "fs' ?p = Some lan_content" if "orderable u" using that fs' by simp
  then have "lan_done base (u # units) (fst (fold (order_unit readable writable False base) units (fs', msgs')))"
    using IH unfolding lan_done_def by simp
  moreover have "fs' p = Some lan_content" if "fs p = Some lan_content" for p
    using that fs' by simp
  moreover have "fs' p = fs p" if "\<forall>v \<in> set (u # units). orderable v \<longrightarrow> p \<noteq> lan_drop_in_path base v" for p
    using that fs' by auto
  ultimately show ?case unfolding run using IH by simp
qed

text \<open>Ordering the consumers behind the LAN: a dry run writes nothing; a run on a host that can
  write leaves the drop-in of every service, target and timer with exactly the shipped text and
  touches no other file; and a second run changes nothing and reports nothing.\<close>

theorem lan_ordering_idempotent:
  fixes base units fs
  defines "after \<equiv> fst (ensure_lan_ordering (\<lambda>p. True) (\<lambda>p. True) False base units fs)"
  shows "fst (ensure_lan_ordering readable writable True base units fs) = fs
    \<and> (\<forall>u. u \<in> set units \<and> orderable u \<longrightarrow> after (lan_drop_in_path base u) = Some lan_content)
    \<and> (\<forall>p. p \<notin> lan_drop_in_path base ` {u \<in> set units. orderable u} \<longrightarrow> after p = fs p)
    \<and> ensure_lan_ordering (\<lambda>p. True) writable dry base units after = (after, [])"
proof -
  have run: "lan_done base units after"
    "\<And>p. \<forall>u \<in> set units. orderable u \<longrightarrow> p \<noteq> lan_drop_in_path base u \<Longrightarrow> after p = fs p"
    using order_unit_run [of "\<lambda>p. True" base units "\<lambda>p. True" fs "[]"]
    by (simp_all add: after_def ensure_lan_ordering_def)
  moreover have "ensure_lan_ordering (\<lambda>p. True) writable dry base units after = (after, [])"
    using order_unit_quiet [OF run(1)] by (simp add: ensure_lan_ordering_def)
  moreover have "fst (ensure_lan_ordering readable writable True base units fs) = fs"
    using order_unit_dry [of readable writable base units "(fs, [])"]
    by (simp add: ensure_lan_ordering_def)
  ultimately show ?thesis by (auto simp: lan_done_def)
qed

theorem lan_ordering_idempotent_witness:
  "fst (ensure_lan_ordering (\<lambda>p. True) (\<lambda>p. True) False ''/e'' [''a.service'', ''b.mount''] Map.empty)
     ''/e/a.service.d/10-smd-lan-order.conf'' = Some lan_content"
proof -
  have "''a.service'' \<in> set [''a.service'', ''b.mount''] \<and> orderable ''a.service''" by code_simp
  with lan_ordering_idempotent [of _ _ "''/e''" "[''a.service'', ''b.mount'']" Map.empty]
  have "fst (ensure_lan_ordering (\<lambda>p. True) (\<lambda>p. True) False ''/e'' [''a.service'', ''b.mount''] Map.empty)
     (lan_drop_in_path ''/e'' ''a.service'') = Some lan_content" by blast
  then show ?thesis by (simp add: lan_drop_in_path_def)
qed

section \<open>What a rollback retires\<close>

definition UNIT_SUFFIXES :: "string list" where
  "UNIT_SUFFIXES = [''.service'', ''.timer'', ''.socket'', ''.path'', ''.target'']"

text \<open>\<open>systemd_dir\<close> joins a name to the directory; \<open>dropin_homes\<close> is \<open>None\<close> when the caller gives
  none.\<close>

definition dests_for ::
  "string \<Rightarrow> (string \<times> string) list \<Rightarrow> string \<Rightarrow> (string \<Rightarrow> string list) option \<Rightarrow> string list" where
  "dests_for path dest_map systemd_dir dropin_homes =
     (if \<not> starts_with path ''systemd/'' \<or> length (filter (\<lambda>c. c = CHR ''/'') path) \<noteq> 1 then []
      else
        let name = snd (split_once (CHR ''/'') path) in
        case map_of dest_map name of
          Some d \<Rightarrow> [systemd_dir @ ''/'' @ d]
        | None \<Rightarrow>
            if list_ex (ends_with name) UNIT_SUFFIXES then [systemd_dir @ ''/'' @ name]
            else if ends_with name ''.conf'' then
              (case dropin_homes of None \<Rightarrow> [] | Some homes \<Rightarrow> homes name)
            else [])"

datatype kept_why = Unreadable string | Differs string

definition retire_one ::
  "(string \<Rightarrow> 'b option) \<Rightarrow> (string \<Rightarrow> 'b option) \<Rightarrow> string \<times> string \<Rightarrow>
   string list \<times> (string \<times> kept_why) list \<Rightarrow> string list \<times> (string \<times> kept_why) list" where
  "retire_one read_newer read_installed pd st =
     (case (pd, st) of ((path, dest), (retire, kept)) \<Rightarrow>
       case read_installed dest of None \<Rightarrow> (retire, kept)
       | Some have_bytes \<Rightarrow>
           (case read_newer path of
              None \<Rightarrow> (retire, kept @ [(dest, Unreadable path)])
            | Some shipped \<Rightarrow>
                if have_bytes = shipped then (retire @ [dest], kept)
                else (retire, kept @ [(dest, Differs path)])))"

definition plan_retire ::
  "string list \<Rightarrow> (string \<Rightarrow> 'b option) \<Rightarrow> (string \<Rightarrow> 'b option) \<Rightarrow> (string \<times> string) list \<Rightarrow>
   string \<Rightarrow> (string \<Rightarrow> string list) option \<Rightarrow> string list \<times> (string \<times> kept_why) list" where
  "plan_retire removed read_newer read_installed dest_map systemd_dir homes =
     fold (retire_one read_newer read_installed)
       (concat (map (\<lambda>p. map (Pair p) (dests_for p dest_map systemd_dir homes)) removed)) ([], [])"

definition kept_of ::
  "(string \<Rightarrow> 'b option) \<Rightarrow> (string \<Rightarrow> 'b option) \<Rightarrow> string \<times> string \<Rightarrow> (string \<times> kept_why) list" where
  "kept_of newer installed pd =
     (case pd of (p, d) \<Rightarrow> if installed d = None \<or> installed d = newer p then []
       else [(d, if newer p = None then Unreadable p else Differs p)])"

lemma retire_one_cases:
  "retire_one newer installed (p, d) (r, k) =
     (r @ (if installed d \<noteq> None \<and> installed d = newer p then [d] else []),
      k @ kept_of newer installed (p, d))"
proof (cases "installed d")
  case None
  then show ?thesis by (simp add: retire_one_def kept_of_def)
next
  case (Some a)
  then show ?thesis
  proof (cases "newer p")
    case None
    with Some show ?thesis by (simp add: retire_one_def kept_of_def)
  next
    case (Some b)
    with \<open>installed d = Some a\<close> show ?thesis by (simp add: retire_one_def kept_of_def)
  qed
qed

lemma retire_fold:
  "fold (retire_one newer installed) pds (r, k) =
     (r @ map snd (filter (\<lambda>(p, d). installed d \<noteq> None \<and> installed d = newer p) pds),
      k @ concat (map (kept_of newer installed) pds))"
proof (induction pds arbitrary: r k)
  case (Cons pd pds)
  obtain p d where pd: "pd = (p, d)" by fastforce
  have "installed d = None \<or> installed d \<noteq> None" by blast
  then show ?case by (auto simp: pd retire_one_cases Cons.IH)
qed simp

lemma snd_filter:
  "set (map snd (filter (\<lambda>(p, d). Q p d) ps)) = {d. \<exists>p. (p, d) \<in> set ps \<and> Q p d}"
  by (induction ps) auto

lemma kept_member:
  "x \<in> set (concat (map (kept_of newer installed) ps)) \<longleftrightarrow>
     (\<exists>p d. (p, d) \<in> set ps \<and> installed d \<noteq> None \<and> installed d \<noteq> newer p
        \<and> x = (d, if newer p = None then Unreadable p else Differs p))"
proof -
  have one: "x \<in> set (kept_of newer installed (p, d)) \<longleftrightarrow>
      installed d \<noteq> None \<and> installed d \<noteq> newer p
      \<and> x = (d, if newer p = None then Unreadable p else Differs p)" for p d
    unfolding kept_of_def prod.case
    by (rule iffI) (simp_all only: split: if_split_asm if_split, auto)
  have "x \<in> set (concat (map (kept_of newer installed) ps)) \<longleftrightarrow>
      (\<exists>pd \<in> set ps. x \<in> set (kept_of newer installed pd))" by simp
  then show ?thesis by (simp only: Bex_def split_paired_Ex one)
qed

text \<open>A rollback removes an installed file exactly when it is where install.sh puts a file the
  older release lacks and its bytes are the ones the newer release shipped; every other
  installed file at such a place is kept, with the reason.\<close>

theorem plan_retire_exact:
  fixes removed dest_map systemd_dir homes newer installed
  defines "place \<equiv> \<lambda>p. set (dests_for p dest_map systemd_dir homes)"
    and "plan \<equiv> plan_retire removed newer installed dest_map systemd_dir homes"
  shows "set (fst plan) = {d. \<exists>p \<in> set removed. d \<in> place p \<and> installed d \<noteq> None \<and> installed d = newer p}
    \<and> set (snd plan) = {(d, if newer p = None then Unreadable p else Differs p) |d p.
        p \<in> set removed \<and> d \<in> place p \<and> installed d \<noteq> None \<and> installed d \<noteq> newer p}"
proof -
  let ?pds = "concat (map (\<lambda>p. map (Pair p) (dests_for p dest_map systemd_dir homes)) removed)"
  have pds: "(p, d) \<in> set ?pds \<longleftrightarrow> p \<in> set removed \<and> d \<in> place p" for p d
    by (auto simp: place_def)
  have plan: "plan = (map snd (filter (\<lambda>(p, d). installed d \<noteq> None \<and> installed d = newer p) ?pds),
      concat (map (kept_of newer installed) ?pds))"
    by (simp add: plan_def plan_retire_def retire_fold)
  have "set (fst plan) = {d. \<exists>p. (p, d) \<in> set ?pds \<and> installed d \<noteq> None \<and> installed d = newer p}"
    unfolding plan fst_conv by (rule snd_filter)
  moreover have "set (snd plan) = {(d, if newer p = None then Unreadable p else Differs p) |d p.
        (p, d) \<in> set ?pds \<and> installed d \<noteq> None \<and> installed d \<noteq> newer p}"
    unfolding plan snd_conv set_eq_iff kept_member by blast
  ultimately show ?thesis unfolding pds by blast
qed

section \<open>What an alignment made stale\<close>

definition RADIOD :: string where "RADIOD = ''ka9q-radio''"

definition later :: "rat option \<Rightarrow> rat \<Rightarrow> bool" where
  "later t start = (case t of None \<Rightarrow> False | Some m \<Rightarrow> m > start)"

text \<open>The reason of a component: whether its own checkout moved, and the libraries that did.\<close>

definition stale_reason ::
  "(string \<Rightarrow> rat option) \<Rightarrow> (string \<Rightarrow> rat option) \<Rightarrow> (string \<Rightarrow> string list) \<Rightarrow> string \<Rightarrow>
   (bool \<times> string list) option" where
  "stale_reason moved_at started_at consumes name =
     (case started_at name of None \<Rightarrow> None
      | Some start \<Rightarrow>
          let own = later (moved_at name) start;
              libs = filter (\<lambda>l. later (moved_at l) start) (sort (consumes name)) in
          if own \<or> libs \<noteq> [] then Some (own, libs) else None)"

definition stale_components ::
  "string list \<Rightarrow> (string \<Rightarrow> rat option) \<Rightarrow> (string \<Rightarrow> rat option) \<Rightarrow> (string \<Rightarrow> string list) \<Rightarrow>
   (string \<times> bool \<times> string list) list" where
  "stale_components services moved_at started_at consumes =
     List.map_filter (\<lambda>n. map_option (Pair n) (stale_reason moved_at started_at consumes n))
       (sort services)"

definition predicted_restarts ::
  "string list \<Rightarrow> string list \<Rightarrow> (string \<Rightarrow> string list) \<Rightarrow> string list \<Rightarrow> bool \<times> string list" where
  "predicted_restarts moving running consumes radiod_consumers =
     (let radiod = (RADIOD \<in> set moving \<and> RADIOD \<in> set running);
          followers = (if radiod then filter (\<lambda>c. c \<in> set running) radiod_consumers else []);
          own = filter (\<lambda>c. c \<noteq> RADIOD \<and> (c \<in> set moving \<or> set (consumes c) \<inter> set moving \<noteq> {})) running in
      (radiod, sorted_set (followers @ own)))"

definition restart_sequence ::
  "string list \<Rightarrow> bool \<Rightarrow> string list \<Rightarrow> string list \<Rightarrow> bool \<times> string list" where
  "restart_sequence stale radiod_stale running radiod_consumers =
     (let first = (radiod_stale \<and> RADIOD \<in> set running);
          names = filter (\<lambda>c. c \<in> set running)
            (stale @ (if first then radiod_consumers else [])) in
      (first, sorted_set (filter (\<lambda>c. c \<noteq> RADIOD) names)))"

text \<open>A restart list names only running components, radiod never; with radiod first every running
  consumer of it follows, and every stale running component is always there.\<close>

lemma restart_sequence_sound:
  fixes stale radiod_stale running consumers
  defines "r \<equiv> restart_sequence stale radiod_stale running consumers"
  shows "set (snd r) \<subseteq> set running - {RADIOD} \<and> distinct (snd r) \<and> sorted (snd r)
    \<and> (set stale \<inter> set running) - {RADIOD} \<subseteq> set (snd r)
    \<and> (fst r \<longrightarrow> (set consumers \<inter> set running) - {RADIOD} \<subseteq> set (snd r))"
  by (auto simp: r_def restart_sequence_def Let_def)

section \<open>Capacity\<close>

definition INSTANCE_COST_CORES :: "(string \<times> rat) list" where
  "INSTANCE_COST_CORES = [(''wspr-recorder'', 21/100), (''psk-recorder'', 18/100), (''hf-timestd'', 35/100)]"

definition DEFAULT_COST_CORES :: rat where "DEFAULT_COST_CORES = 1/4"

record capacity_verdict =
  cv_needed :: rat
  cv_available :: int
  cv_estimated :: "string list"
  cv_ok :: bool
  cv_instances :: nat
  cv_online :: int
  cv_radiod :: int
  cv_radiod_estimated :: bool

definition add_cost :: "string \<times> string \<Rightarrow> rat \<times> string list \<Rightarrow> rat \<times> string list" where
  "add_cost inst st =
     (case (inst, st) of ((client, _), (needed, estimated)) \<Rightarrow>
       case map_of INSTANCE_COST_CORES client of
         Some c \<Rightarrow> (needed + c, estimated)
       | None \<Rightarrow> (needed + DEFAULT_COST_CORES,
           if client \<in> set estimated then estimated else estimated @ [client]))"

definition compute_capacity :: "(string \<times> string) list \<Rightarrow> int \<Rightarrow> int \<Rightarrow> bool \<Rightarrow> capacity_verdict" where
  "compute_capacity instances online radiod radiod_estimated =
     (let (needed, estimated) = fold add_cost instances (0, []);
          available = max 0 (online - radiod - 1) in
      \<lparr> cv_needed = needed, cv_available = available, cv_estimated = estimated,
        cv_ok = (needed \<le> of_int available + 1 / 10 ^ 9), cv_instances = length instances,
        cv_online = online, cv_radiod = radiod, cv_radiod_estimated = radiod_estimated \<rparr>)"

definition client_cost :: "string \<Rightarrow> rat" where
  "client_cost c = (case map_of INSTANCE_COST_CORES c of Some x \<Rightarrow> x | None \<Rightarrow> DEFAULT_COST_CORES)"

lemma capacity_exact:
  fixes instances online radiod est
  defines "v \<equiv> compute_capacity instances online radiod est"
  shows "cv_needed v = sum_list (map (client_cost \<circ> fst) instances)
    \<and> distinct (cv_estimated v)
    \<and> set (cv_estimated v) = {c \<in> fst ` set instances. map_of INSTANCE_COST_CORES c = None}"
proof -
  have "fold add_cost instances (n, es) = (n', es') \<Longrightarrow> distinct es \<Longrightarrow>
      n' = n + sum_list (map (client_cost \<circ> fst) instances) \<and> distinct es'
      \<and> set es' = set es \<union> {c \<in> fst ` set instances. map_of INSTANCE_COST_CORES c = None}" for n es n' es'
  proof (induction instances arbitrary: n es)
    case (Cons i instances)
    obtain c r where i: "i = (c, r)" by fastforce
    obtain n1 es1 where step: "add_cost i (n, es) = (n1, es1)" by fastforce
    have s: "n1 = n + client_cost c" "distinct es1"
      "set es1 = set es \<union> (if map_of INSTANCE_COST_CORES c = None then {c} else {})"
      using step Cons.prems(2)
      by (auto simp: i add_cost_def client_cost_def split: option.splits if_splits)
    have rest: "fold add_cost instances (n1, es1) = (n', es')" using Cons.prems(1) step by simp
    from Cons.IH [OF rest s(2)] s show ?case by (auto simp: i)
  qed auto
  from this [of 0 "[]"] show ?thesis
    by (cases "fold add_cost instances (0, [])")
      (simp add: v_def compute_capacity_def Let_def)
qed

end
