(* ===== verification/Topology.thy ===== *)
theory Topology
  imports PyText
begin

text \<open>
  The topology file (\<open>src/lib/sigmond/topology.py\<close>): what it says of the components, the CPU and
  timing policy, and the two line-based edits that keep the operator's comments.  The parsed
  TOML is a \<^typ>\<open>pyval\<close> (dates do not occur in it); the file text is a string, \<open>None\<close> when there is no
  file; a warning is a value.
\<close>

section \<open>The data\<close>

record component =
  cp_name :: string
  cp_enabled :: pyval
  cp_managed :: pyval
  cp_description :: pyval
  cp_version :: string
  cp_rac_id :: string
  cp_rac_number :: int

definition new_component :: "string \<Rightarrow> string \<Rightarrow> component" where
  "new_component name descr = \<lparr> cp_name = name, cp_enabled = PBool False, cp_managed = PBool True,
     cp_description = PStr descr, cp_version = ''latest'', cp_rac_id = [], cp_rac_number = -1 \<rparr>"

definition DEFAULT_COMPONENTS :: "(string, component) dict" where
  "DEFAULT_COMPONENTS = map (\<lambda>(n, d). (n, new_component n d))
    [(''ka9q-radio'', ''ka9q-radio SDR daemon''),
     (''hf-timestd'', ''HF time-standard analyzer (WWV/WWVH/CHU/BPM)''),
     (''psk-recorder'', ''FT4/FT8 spot recorder for PSKReporter''),
     (''wspr-recorder'', ''WSPR/FST4W audio recorder (period-aligned WAVs)''),
     (''ka9q-web'', ''ka9q-web radiod status UI'')]"

definition DEFAULT_CPU_AFFINITY :: "(string, pyval) dict" where
  "DEFAULT_CPU_AFFINITY = [(''radiod_cpus'', PStr []), (''other_cpus'', PStr []),
     (''radiod_governor'', PStr ''performance''), (''write_kernel_isolation'', PBool False)]"

definition DEFAULT_CPU_FREQ :: "(string, pyval) dict" where
  "DEFAULT_CPU_FREQ = [(''radiod_max_mhz'', PInt 3200), (''other_max_mhz'', PInt 1400),
     (''fast_mode'', PStr ''radiod'')]"

definition CPU_FREQ_FAST_MODES :: "string list" where
  "CPU_FREQ_FAST_MODES = [''radiod'', ''fft-pair'']"

definition DEFAULT_TIMING :: "(string, pyval) dict" where
  "DEFAULT_TIMING = [(''honor_radiod_restart_request'', PBool False)]"

record topology =
  tp_client_dir :: string
  tp_smd_bin :: string
  tp_components :: "(string, component) dict"
  tp_cpu_affinity :: "(string, pyval) dict"
  tp_cpu_freq :: "(string, pyval) dict"
  tp_timing :: "(string, pyval) dict"

definition enabled_components :: "topology \<Rightarrow> string list option \<Rightarrow> string list" where
  "enabled_components t only =
     (let names = map fst (filter (\<lambda>(n, c). py_truthy (cp_enabled c)) (tp_components t)) in
      sort (case only of None \<Rightarrow> names
        | Some xs \<Rightarrow> if xs = [] then names else filter (\<lambda>n. n \<in> set xs) names))"

definition is_enabled :: "topology \<Rightarrow> string \<Rightarrow> bool" where
  "is_enabled t name = (case map_of (tp_components t) name of None \<Rightarrow> False
     | Some c \<Rightarrow> py_truthy (cp_enabled c))"

definition comp_managed :: "topology \<Rightarrow> string \<Rightarrow> bool" where
  "comp_managed t name = (case map_of (tp_components t) name of None \<Rightarrow> False
     | Some c \<Rightarrow> py_truthy (cp_enabled c) \<and> py_truthy (cp_managed c))"

section \<open>Loading\<close>

datatype topo_warning = NoFile | BadMhz string pyval | BadMode pyval

text \<open>\<open>k in v\<close> followed by \<open>v[k]\<close>.\<close>

fun substring :: "string \<Rightarrow> string \<Rightarrow> bool" where
  "substring p [] = (p = [])"
| "substring p (c # s) = (starts_with (c # s) p \<or> substring p s)"

definition lookup :: "pyval \<Rightarrow> string \<Rightarrow> py_error + pyval option" where
  "lookup v k = (case v of
       PDict d \<Rightarrow> Inr (map_of d k)
     | PStr s \<Rightarrow> if substring k s then Inl TypeError else Inr None
     | PList xs \<Rightarrow> if PStr k \<in> set xs then Inl TypeError else Inr None
     | _ \<Rightarrow> Inl TypeError)"

text \<open>\<open>int(v)\<close> with TypeError and ValueError caught: \<open>None\<close>; an infinity raises OverflowError.\<close>

definition int_caught :: "pyval \<Rightarrow> py_error + int option" where
  "int_caught v = (if v = PFloat PosInf \<or> v = PFloat NegInf then Inl OverflowError
     else Inr (to_int v))"

definition rename :: "string \<Rightarrow> string" where
  "rename name = (if name = ''radiod'' then ''ka9q-radio'' else name)"

definition load_component ::
  "(pyval \<Rightarrow> string) \<Rightarrow> string \<times> pyval \<Rightarrow> (string, component) dict \<Rightarrow>
   py_error + (string, component) dict" where
  "load_component repr entry comps =
     (case entry of (name, PDict cfg) \<Rightarrow>
        ebind (int_caught (dget cfg ''rac_number'' (PInt (-1)))) (\<lambda>rac.
          Inr (AList.update (rename name)
            \<lparr> cp_name = rename name, cp_enabled = dget cfg ''enabled'' (PBool False),
              cp_managed = dget cfg ''managed'' (PBool True),
              cp_description = dget cfg ''description'' (PStr []),
              cp_version = strip (py_str repr (or_empty (dget cfg ''version'' (PStr ''latest'')) ''latest'')),
              cp_rac_id = strip (py_str repr (or_empty (dget cfg ''rac_id'' (PStr [])) [])),
              cp_rac_number = (case rac of None \<Rightarrow> -1 | Some n \<Rightarrow> n) \<rparr> comps))
      | _ \<Rightarrow> Inl AttributeError)"

text \<open>One key of a section: absent, or read by \<open>f\<close> into the settings.\<close>

definition take_key ::
  "pyval \<Rightarrow> string \<Rightarrow> (pyval \<Rightarrow> 's \<Rightarrow> py_error + 's) \<Rightarrow> 's \<Rightarrow> py_error + 's" where
  "take_key v k f s = ebind (lookup v k) (\<lambda>r. case r of None \<Rightarrow> Inr s | Some x \<Rightarrow> f x s)"

definition load_affinity :: "(pyval \<Rightarrow> string) \<Rightarrow> pyval \<Rightarrow> py_error + (string, pyval) dict" where
  "load_affinity repr ca =
     (let text = (\<lambda>k x d. Inr (AList.update k (PStr (py_str repr x)) d));
          flag = (\<lambda>k x d. Inr (AList.update k (PBool (x = PBool True)) d)) in
      ebind (take_key ca ''radiod_cpus'' (text ''radiod_cpus'') DEFAULT_CPU_AFFINITY) (\<lambda>d.
      ebind (take_key ca ''other_cpus'' (text ''other_cpus'') d) (\<lambda>d.
      ebind (take_key ca ''radiod_governor'' (text ''radiod_governor'') d) (\<lambda>d.
      ebind (take_key ca ''allow_shared_radiod_cores'' (flag ''allow_shared_radiod_cores'') d) (\<lambda>d.
      take_key ca ''write_kernel_isolation'' (flag ''write_kernel_isolation'') d)))))"

definition load_timing :: "pyval \<Rightarrow> py_error + (string, pyval) dict" where
  "load_timing tm = take_key tm ''honor_radiod_restart_request''
     (\<lambda>x d. Inr (AList.update ''honor_radiod_restart_request'' (PBool (py_truthy x)) d)) DEFAULT_TIMING"

definition take_mhz ::
  "string \<Rightarrow> pyval \<Rightarrow> (string, pyval) dict \<times> topo_warning list \<Rightarrow>
   py_error + (string, pyval) dict \<times> topo_warning list" where
  "take_mhz k x s = (case s of (d, ws) \<Rightarrow> ebind (int_caught x) (\<lambda>n. case n of
       Some m \<Rightarrow> Inr (AList.update k (PInt m) d, ws)
     | None \<Rightarrow> Inr (d, ws @ [BadMhz k x])))"

definition take_mode ::
  "(pyval \<Rightarrow> string) \<Rightarrow> pyval \<Rightarrow> (string, pyval) dict \<times> topo_warning list \<Rightarrow>
   py_error + (string, pyval) dict \<times> topo_warning list" where
  "take_mode repr x s = (case s of (d, ws) \<Rightarrow>
     let mode = lower (strip (py_str repr x)) in
     if mode \<in> set CPU_FREQ_FAST_MODES then Inr (AList.update ''fast_mode'' (PStr mode) d, ws)
     else Inr (d, ws @ [BadMode x]))"

definition load_freq ::
  "(pyval \<Rightarrow> string) \<Rightarrow> pyval \<Rightarrow> py_error + (string, pyval) dict \<times> topo_warning list" where
  "load_freq repr cf =
     ebind (take_key cf ''radiod_max_mhz'' (take_mhz ''radiod_max_mhz'') (DEFAULT_CPU_FREQ, [])) (\<lambda>s.
     ebind (take_key cf ''other_max_mhz'' (take_mhz ''other_max_mhz'') s) (\<lambda>s.
     take_key cf ''fast_mode'' (take_mode repr) s))"

definition table :: "(string, pyval) dict \<Rightarrow> string \<Rightarrow> pyval" where
  "table raw k = dget raw k (PDict [])"

definition items_of :: "pyval \<Rightarrow> py_error + (string \<times> pyval) list" where
  "items_of v = (case v of PDict d \<Rightarrow> Inr d | _ \<Rightarrow> Inl AttributeError)"

definition path_of :: "pyval \<Rightarrow> py_error + string" where
  "path_of v = (case v of PStr s \<Rightarrow> Inr s | _ \<Rightarrow> Inl TypeError)"

definition load_topology ::
  "(pyval \<Rightarrow> string) \<Rightarrow> (string, pyval) dict option \<Rightarrow> string option \<Rightarrow>
   py_error + topology \<times> topo_warning list" where
  "load_topology repr file client_dir_override =
     (let client_dir = (case client_dir_override of
            None \<Rightarrow> ''/opt/git/sigmond'' | Some d \<Rightarrow> if d = [] then ''/opt/git/sigmond'' else d);
          base = \<lparr> tp_client_dir = client_dir, tp_smd_bin = ''/usr/local/bin/smd'',
            tp_components = DEFAULT_COMPONENTS, tp_cpu_affinity = DEFAULT_CPU_AFFINITY,
            tp_cpu_freq = DEFAULT_CPU_FREQ, tp_timing = DEFAULT_TIMING \<rparr> in
      case file of
        None \<Rightarrow> Inr (base, [NoFile])
      | Some raw \<Rightarrow>
          ebind (take_key (table raw ''sigmond'') ''smd_bin'' (\<lambda>x _. path_of x) (tp_smd_bin base)) (\<lambda>smd_bin.
          ebind (items_of (table raw ''component'')) (\<lambda>entries.
          ebind (efold (load_component repr) entries DEFAULT_COMPONENTS) (\<lambda>comps.
          ebind (load_affinity repr (table raw ''cpu_affinity'')) (\<lambda>aff.
          ebind (load_timing (table raw ''timing'')) (\<lambda>tim.
          ebind (load_freq repr (table raw ''cpu_freq'')) (\<lambda>(freq, ws).
            Inr (base\<lparr>tp_smd_bin := smd_bin, tp_components := comps, tp_cpu_affinity := aff,
              tp_cpu_freq := freq, tp_timing := tim\<rparr>, ws))))))))"

section \<open>The edits\<close>

definition is_header :: "string \<Rightarrow> bool" where
  "is_header l = (starts_with (strip l) ''['' \<and> ends_with (strip l) '']'')"

definition target_header :: "string \<Rightarrow> string" where
  "target_header name = ''[component.'' @ name @ '']''"

definition enabled_text :: "bool \<Rightarrow> string" where
  "enabled_text b = ''enabled = '' @ (if b then ''true'' else ''false'')"

definition is_enabled_line :: "string \<Rightarrow> bool" where
  "is_enabled_line l = (starts_with (strip l) ''enabled'' \<and> CHR ''='' \<in> set (strip l))"

definition rewrite_line :: "bool \<Rightarrow> string \<Rightarrow> string" where
  "rewrite_line b l = take (length l - length (lstrip l)) l @ enabled_text b"

definition insert_at :: "nat \<Rightarrow> 'a \<Rightarrow> 'a list \<Rightarrow> 'a list" where
  "insert_at i x xs = take i xs @ x # drop i xs"

record edit_state =
  ed_lines :: "string list"
  ed_in :: bool
  ed_handled :: bool
  ed_found :: bool
  ed_idx :: nat

text \<open>An open section without its line gets it right after the header.\<close>

definition close_section :: "bool \<Rightarrow> edit_state \<Rightarrow> edit_state" where
  "close_section b s =
     (if ed_in s \<and> \<not> ed_handled s then
        s\<lparr>ed_lines := insert_at (ed_idx s + 1) (enabled_text b) (ed_lines s), ed_handled := True\<rparr>
      else s)"

definition edit_line :: "string \<Rightarrow> bool \<Rightarrow> string \<Rightarrow> edit_state \<Rightarrow> edit_state" where
  "edit_line name b line s =
     (let s = (if is_header line then
            let s = close_section b s; hit = (strip line = target_header name) in
            if hit then s\<lparr>ed_in := True, ed_found := True, ed_idx := length (ed_lines s)\<rparr>
            else s\<lparr>ed_in := False\<rparr>
          else s) in
      if ed_in s \<and> is_enabled_line line then
        s\<lparr>ed_lines := ed_lines s @ [rewrite_line b line], ed_handled := True\<rparr>
      else s\<lparr>ed_lines := ed_lines s @ [line]\<rparr>)"

definition drop_blank_end :: "string list \<Rightarrow> string list" where
  "drop_blank_end ls = rev (dropWhile (\<lambda>l. strip l = []) (rev ls))"

definition edit_lines :: "string \<Rightarrow> bool \<Rightarrow> string option \<Rightarrow> string list \<Rightarrow> string list" where
  "edit_lines name b descr ls =
     (let s = close_section b (fold (edit_line name b) ls
            \<lparr> ed_lines = [], ed_in = False, ed_handled = False, ed_found = False, ed_idx = 0 \<rparr>) in
      if ed_found s then ed_lines s
      else
        let kept = drop_blank_end (ed_lines s) in
        kept @ (if kept = [] then [] else [[]]) @ [target_header name, enabled_text b]
          @ (case descr of None \<Rightarrow> [] | Some d \<Rightarrow>
               if d = [] then [] else [''description = \"'' @ d @ ''\"'']))"

definition close_text :: "string list \<Rightarrow> string" where
  "close_text ls =
     (let t = join_on [newline] ls in if ends_with t [newline] then t else t @ [newline])"

text \<open>The text written, \<open>None\<close> when nothing changes (the call returns False).\<close>

definition set_component_enabled ::
  "string \<Rightarrow> bool \<Rightarrow> string option \<Rightarrow> string option \<Rightarrow> string option" where
  "set_component_enabled name b descr file =
     (let original = (case file of None \<Rightarrow> [] | Some t \<Rightarrow> t);
          text = close_text (edit_lines name b descr (splitlines original)) in
      if text = original then None else Some text)"

record remove_state =
  rm_lines :: "string list"
  rm_skipping :: bool
  rm_found :: bool

definition remove_line :: "string \<Rightarrow> string \<Rightarrow> remove_state \<Rightarrow> remove_state" where
  "remove_line name line s =
     (if rm_skipping s then
        (if is_header line \<and> strip line \<noteq> target_header name then
           s\<lparr>rm_skipping := False, rm_lines := rm_lines s @ [line]\<rparr>
         else s)
      else if strip line = target_header name then
        s\<lparr>rm_skipping := True, rm_found := True, rm_lines := drop_blank_end (rm_lines s)\<rparr>
      else s\<lparr>rm_lines := rm_lines s @ [line]\<rparr>)"

definition remove_component :: "string \<Rightarrow> string option \<Rightarrow> string option" where
  "remove_component name file =
     (case file of None \<Rightarrow> None
      | Some t \<Rightarrow>
          let s = fold (remove_line name) (splitlines t)
                \<lparr> rm_lines = [], rm_skipping = False, rm_found = False \<rparr> in
          if \<not> rm_found s then None
          else Some (rstrip (join_on [newline] (rm_lines s)) @ [newline]))"

section \<open>What an edit changes\<close>

text \<open>A file of lines, seen from one component: the lines of its section, and all the others.\<close>

definition rest_from :: "string \<Rightarrow> string list \<Rightarrow> string list" where
  "rest_from name ls = drop 1 (dropWhile (\<lambda>l. strip l \<noteq> target_header name) ls)"

definition section_lines :: "string \<Rightarrow> string list \<Rightarrow> string list" where
  "section_lines name ls = takeWhile (\<lambda>l. \<not> is_header l) (rest_from name ls)"

definition other_lines :: "string \<Rightarrow> string list \<Rightarrow> string list" where
  "other_lines name ls = takeWhile (\<lambda>l. strip l \<noteq> target_header name) ls
     @ dropWhile (\<lambda>l. \<not> is_header l) (rest_from name ls)"

definition absent :: "string \<Rightarrow> string list \<Rightarrow> bool" where
  "absent name ls = list_all (\<lambda>l. strip l \<noteq> target_header name) ls"

abbreviation start_edit :: edit_state where
  "start_edit \<equiv> \<lparr> ed_lines = [], ed_in = False, ed_handled = False, ed_found = False, ed_idx = 0 \<rparr>"

definition shown :: "bool \<Rightarrow> string \<Rightarrow> string" where
  "shown b l = (if is_enabled_line l then rewrite_line b l else l)"

definition new_body :: "bool \<Rightarrow> string list \<Rightarrow> string list" where
  "new_body b body =
     (if list_ex is_enabled_line body then map (shown b) body else enabled_text b # body)"

lemma strip_target [simp]: "strip (target_header name) = target_header name"
proof (rule strip_ends)
  show "\<not> is_space (last (target_header name))" by (simp add: target_header_def is_space_def)
qed (simp_all add: target_header_def is_space_def)

lemma starts_with_Cons: "starts_with (c # s) [d] \<longleftrightarrow> c = d"
  by simp

lemma header_target: "strip l = target_header name \<Longrightarrow> is_header l"
  by (simp add: is_header_def target_header_def ends_with_def)

lemma edit_outside:
  assumes "\<not> ed_in s" and "absent name ls"
  shows "fold (edit_line name b) ls s = s\<lparr>ed_lines := ed_lines s @ ls\<rparr>"
  using assms
proof (induction ls arbitrary: s)
  case (Cons l ls)
  have "edit_line name b l s = s\<lparr>ed_lines := ed_lines s @ [l]\<rparr>"
    using Cons.prems by (auto simp: edit_line_def close_section_def absent_def Let_def)
  then show ?case using Cons.IH [of "s\<lparr>ed_lines := ed_lines s @ [l]\<rparr>"] Cons.prems
    by (simp add: absent_def)
qed simp

lemma edit_inside:
  assumes "ed_in s" and "list_all (\<lambda>l. \<not> is_header l) ls"
  shows "fold (edit_line name b) ls s =
    s\<lparr>ed_lines := ed_lines s @ map (shown b) ls, ed_handled := ed_handled s \<or> list_ex is_enabled_line ls\<rparr>"
  using assms
proof (induction ls arbitrary: s)
  case (Cons l ls)
  have "edit_line name b l s =
      s\<lparr>ed_lines := ed_lines s @ [shown b l], ed_handled := ed_handled s \<or> is_enabled_line l\<rparr>"
    using Cons.prems by (auto simp: edit_line_def shown_def Let_def)
  then show ?case
    using Cons.IH [of "s\<lparr>ed_lines := ed_lines s @ [shown b l], ed_handled := ed_handled s \<or> is_enabled_line l\<rparr>"]
      Cons.prems by (simp add: disj_assoc)
qed simp

lemma map_shown_id: "\<not> list_ex is_enabled_line body \<Longrightarrow> map (shown b) body = body"
  by (induction body) (auto simp: shown_def)

lemma insert_at_append: "insert_at (length xs) x (xs @ ys) = xs @ x # ys"
  by (simp add: insert_at_def)

lemma edit_section:
  assumes "absent name pre" and "strip h = target_header name"
    and "list_all (\<lambda>l. \<not> is_header l) body"
  shows "\<exists>t. close_section b (fold (edit_line name b) (pre @ h # body) start_edit) = t
    \<and> ed_lines t = pre @ h # new_body b body \<and> ed_found t"
proof -
  let ?at_h = "\<lparr> ed_lines = pre @ [h], ed_in = True, ed_handled = False, ed_found = True,
    ed_idx = length pre \<rparr>"
  have "\<not> is_enabled_line h"
    using assms(2) by (simp add: is_enabled_line_def target_header_def)
  then have h: "edit_line name b h (start_edit\<lparr>ed_lines := pre\<rparr>) = ?at_h"
    using header_target [OF assms(2)] assms(2)
    by (simp add: edit_line_def close_section_def Let_def)
  have "fold (edit_line name b) (pre @ h # body) start_edit = fold (edit_line name b) body ?at_h"
    using edit_outside [OF _ assms(1), of start_edit b] h by simp
  also have "\<dots> = ?at_h\<lparr>ed_lines := pre @ [h] @ map (shown b) body,
      ed_handled := list_ex is_enabled_line body\<rparr>"
    by (subst edit_inside [OF _ assms(3)]) simp_all
  finally show ?thesis
    using insert_at_append [of "pre @ [h]" "enabled_text b" body]
    by (simp add: close_section_def new_body_def map_shown_id)
qed

lemma edit_lines_present:
  assumes "absent name pre" and "strip h = target_header name"
    and "list_all (\<lambda>l. \<not> is_header l) body" and "post = [] \<or> is_header (hd post)"
    and "absent name post"
  shows "edit_lines name b descr (pre @ h # body @ post) = pre @ h # new_body b body @ post"
proof (cases post)
  case Nil
  then show ?thesis using edit_section [OF assms(1-3), of b] by (auto simp: edit_lines_def Let_def)
next
  case (Cons g rest)
  obtain s where s: "fold (edit_line name b) (pre @ h # body) start_edit = s" by blast
  obtain t where t: "close_section b s = t" and lines: "ed_lines t = pre @ h # new_body b body"
    and found: "ed_found t" using edit_section [OF assms(1-3), of b] s by blast
  have g: "is_header g" "strip g \<noteq> target_header name" and rest: "absent name rest"
    using assms(4,5) Cons by (auto simp: absent_def)
  have "edit_line name b g s = t\<lparr>ed_in := False, ed_lines := ed_lines t @ [g]\<rparr>"
    using g t by (simp add: edit_line_def Let_def)
  then have "fold (edit_line name b) (pre @ h # body @ post) start_edit
      = t\<lparr>ed_in := False, ed_lines := ed_lines t @ post\<rparr>"
    using s edit_outside [OF _ rest, of "t\<lparr>ed_in := False, ed_lines := ed_lines t @ [g]\<rparr>" b]
    by (simp add: Cons fold_append [symmetric] del: fold_append) (simp add: Cons)
  then show ?thesis using lines found by (simp add: edit_lines_def close_section_def Let_def)
qed

lemma edit_lines_absent:
  assumes "absent name ls"
  shows "edit_lines name b descr ls =
    (let kept = drop_blank_end ls in
     kept @ (if kept = [] then [] else [[]]) @ [target_header name, enabled_text b]
       @ (case descr of None \<Rightarrow> [] | Some d \<Rightarrow> if d = [] then [] else [''description = \"'' @ d @ ''\"'']))"
  using edit_outside [OF _ assms, of start_edit b]
  by (simp add: edit_lines_def close_section_def Let_def)

lemma strip_enabled_text [simp]: "strip (enabled_text b) = enabled_text b"
  by (rule strip_ends) (auto simp: enabled_text_def is_space_def)

lemma strip_space_prefix: "list_all is_space w \<Longrightarrow> strip (w @ s) = strip s"
  by (induction w) (simp_all add: strip_def lstrip_def)

lemma indent_takeWhile: "take (length l - length (lstrip l)) l = takeWhile is_space l"
proof -
  have "length l = length (takeWhile is_space l) + length (dropWhile is_space l)"
    by (metis length_append takeWhile_dropWhile_id)
  then show ?thesis by (metis add_diff_cancel_right' lstrip_def takeWhile_eq_take)
qed

lemma strip_rewrite [simp]: "strip (rewrite_line b l) = enabled_text b"
  unfolding rewrite_line_def indent_takeWhile
  by (subst strip_space_prefix) (auto simp: list_all_iff dest: set_takeWhileD)

lemma enabled_text_line: "strip l = enabled_text b \<Longrightarrow> is_enabled_line l \<and> \<not> is_header l"
  by (simp add: is_enabled_line_def is_header_def enabled_text_def)

lemma new_body_lines:
  assumes "list_all (\<lambda>l. \<not> is_header l) body"
  shows "list_all (\<lambda>l. \<not> is_header l) (new_body b body)"
    "list_ex is_enabled_line (new_body b body)"
    "list_all (\<lambda>l. is_enabled_line l \<longrightarrow> strip l = enabled_text b) (new_body b body)"
    "filter (\<lambda>l. \<not> is_enabled_line l) (new_body b body) = filter (\<lambda>l. \<not> is_enabled_line l) body"
proof -
  have r: "is_enabled_line (rewrite_line b l) \<and> \<not> is_header (rewrite_line b l)" for l
    by (rule enabled_text_line) simp
  have e: "is_enabled_line (enabled_text b) \<and> \<not> is_header (enabled_text b)"
    by (rule enabled_text_line) simp
  show "list_all (\<lambda>l. \<not> is_header l) (new_body b body)"
    using assms r e by (auto simp: new_body_def shown_def list_all_iff)
  show "list_ex is_enabled_line (new_body b body)"
    using r e by (auto simp: new_body_def shown_def list_ex_iff)
  show "list_all (\<lambda>l. is_enabled_line l \<longrightarrow> strip l = enabled_text b) (new_body b body)"
    by (auto simp: new_body_def shown_def list_all_iff list_ex_iff)
  have "filter (\<lambda>l. \<not> is_enabled_line l) (map (shown b) body) = filter (\<lambda>l. \<not> is_enabled_line l) body"
    using r by (induction body) (auto simp: shown_def)
  then show "filter (\<lambda>l. \<not> is_enabled_line l) (new_body b body) = filter (\<lambda>l. \<not> is_enabled_line l) body"
    using e by (simp add: new_body_def)
qed

lemma parts_of_section:
  assumes "absent name pre" and "strip h = target_header name"
    and "list_all (\<lambda>l. \<not> is_header l) body" and "post = [] \<or> is_header (hd post)"
  shows "section_lines name (pre @ h # body @ post) = body"
    "other_lines name (pre @ h # body @ post) = pre @ post"
proof -
  have "\<forall>l \<in> set pre. strip l \<noteq> target_header name" using assms(1) by (simp add: absent_def list_all_iff)
  then have split: "rest_from name (pre @ h # body @ post) = body @ post"
    "takeWhile (\<lambda>l. strip l \<noteq> target_header name) (pre @ h # body @ post) = pre"
    using assms(2) by (simp_all add: rest_from_def)
  have nh: "\<forall>l \<in> set body. \<not> is_header l" using assms(3) by (simp add: list_all_iff)
  have post: "takeWhile (\<lambda>l. \<not> is_header l) post = []" "dropWhile (\<lambda>l. \<not> is_header l) post = post"
    using assms(4) by (cases post; simp)+
  show "section_lines name (pre @ h # body @ post) = body"
    using nh post by (simp add: section_lines_def split)
  show "other_lines name (pre @ h # body @ post) = pre @ post"
    using nh post by (simp add: other_lines_def split)
qed

lemma split_at_section:
  assumes "\<not> absent name ls" and "length (filter (\<lambda>l. strip l = target_header name) ls) \<le> 1"
  obtains pre h body post where "ls = pre @ h # body @ post" "absent name pre"
    "strip h = target_header name" "list_all (\<lambda>l. \<not> is_header l) body"
    "post = [] \<or> is_header (hd post)" "absent name post"
proof -
  let ?P = "\<lambda>l. strip l \<noteq> target_header name"
  obtain h rest where drop: "dropWhile ?P ls = h # rest"
    using assms(1) by (cases "dropWhile ?P ls") (auto simp: absent_def list_all_iff dropWhile_eq_Nil_conv)
  then have h: "strip h = target_header name" using hd_dropWhile [of ?P ls] by auto
  have ls: "ls = takeWhile ?P ls @ h # rest" using drop by (metis takeWhile_dropWhile_id)
  have pre: "absent name (takeWhile ?P ls)"
    by (auto simp: absent_def list_all_iff dest: set_takeWhileD)
  have "length (filter (\<lambda>l. strip l = target_header name) (takeWhile ?P ls @ h # rest)) \<le> 1"
    using assms(2) ls by simp
  then have "filter (\<lambda>l. strip l = target_header name) rest = []" using h by simp
  then have rest: "absent name rest" by (auto simp: absent_def list_all_iff filter_empty_conv)
  let ?body = "takeWhile (\<lambda>l. \<not> is_header l) rest" and ?post = "dropWhile (\<lambda>l. \<not> is_header l) rest"
  have "ls = takeWhile ?P ls @ h # ?body @ ?post" using ls by simp
  moreover have "list_all (\<lambda>l. \<not> is_header l) ?body"
    by (auto simp: list_all_iff dest: set_takeWhileD)
  moreover have "?post = [] \<or> is_header (hd ?post)" using hd_dropWhile by blast
  moreover have "absent name ?post"
    using rest by (auto simp: absent_def list_all_iff dest: set_dropWhileD)
  ultimately show ?thesis using that pre h by blast
qed



section \<open>What a load yields\<close>

text \<open>The settings a load may hand on: the frequencies are integers and the mode is a known one,
  the affinity lists and the governor are text, the flags are booleans, and a component is filed
  under its canonical name.\<close>

definition freq_typed :: "(string, pyval) dict \<Rightarrow> bool" where
  "freq_typed d = ((\<exists>n. map_of d ''radiod_max_mhz'' = Some (PInt n))
     \<and> (\<exists>n. map_of d ''other_max_mhz'' = Some (PInt n))
     \<and> (\<exists>m \<in> set CPU_FREQ_FAST_MODES. map_of d ''fast_mode'' = Some (PStr m)))"

definition affinity_typed :: "(string, pyval) dict \<Rightarrow> bool" where
  "affinity_typed d = ((\<forall>k \<in> {''radiod_cpus'', ''other_cpus'', ''radiod_governor''}.
       \<exists>s. map_of d k = Some (PStr s))
     \<and> (\<exists>b. map_of d ''write_kernel_isolation'' = Some (PBool b)))"

definition components_typed :: "(string, component) dict \<Rightarrow> bool" where
  "components_typed d = (\<forall>n c. map_of d n = Some c \<longrightarrow> cp_name c = n \<and> n \<noteq> ''radiod'')"

lemma take_key_keeps:
  assumes "take_key v k f s = Inr t" and "P s" and "\<And>x t. f x s = Inr t \<Longrightarrow> P t"
  shows "P t"
  using assms by (auto simp: take_key_def ebind_eq_Inr split: option.splits)

lemma affinity_typed_text:
  "affinity_typed d \<Longrightarrow> k \<noteq> ''write_kernel_isolation'' \<Longrightarrow> affinity_typed (AList.update k (PStr s) d)"
  by (auto simp: affinity_typed_def update_conv)

lemma affinity_typed_flag:
  "affinity_typed d \<Longrightarrow> k \<in> {''allow_shared_radiod_cores'', ''write_kernel_isolation''} \<Longrightarrow>
   affinity_typed (AList.update k (PBool b) d)"
  by (auto simp: affinity_typed_def update_conv)

lemma load_affinity_keeps:
  assumes "load_affinity repr ca = Inr d" and "P DEFAULT_CPU_AFFINITY"
    and "\<And>k x d. k \<in> {''radiod_cpus'', ''other_cpus'', ''radiod_governor''} \<Longrightarrow> P d \<Longrightarrow>
      P (AList.update k (PStr (py_str repr x)) d)"
    and "\<And>k x d. k \<in> {''allow_shared_radiod_cores'', ''write_kernel_isolation''} \<Longrightarrow> P d \<Longrightarrow>
      lookup ca k = Inr (Some x) \<Longrightarrow> P (AList.update k (PBool (x = PBool True)) d)"
  shows "P d"
proof -
  have key: "P t" if "take_key ca k f s = Inr t" "P s"
    "\<And>x t. lookup ca k = Inr (Some x) \<Longrightarrow> f x s = Inr t \<Longrightarrow> P t" for k f s t
    using that by (auto simp: take_key_def ebind_eq_Inr split: option.splits)
  obtain d1 d2 d3 d4 where
    "take_key ca ''radiod_cpus'' (\<lambda>x d. Inr (AList.update ''radiod_cpus'' (PStr (py_str repr x)) d))
       DEFAULT_CPU_AFFINITY = Inr d1"
    "take_key ca ''other_cpus'' (\<lambda>x d. Inr (AList.update ''other_cpus'' (PStr (py_str repr x)) d)) d1 = Inr d2"
    "take_key ca ''radiod_governor'' (\<lambda>x d. Inr (AList.update ''radiod_governor'' (PStr (py_str repr x)) d)) d2
       = Inr d3"
    "take_key ca ''allow_shared_radiod_cores''
       (\<lambda>x d. Inr (AList.update ''allow_shared_radiod_cores'' (PBool (x = PBool True)) d)) d3 = Inr d4"
    "take_key ca ''write_kernel_isolation''
       (\<lambda>x d. Inr (AList.update ''write_kernel_isolation'' (PBool (x = PBool True)) d)) d4 = Inr d"
    using assms(1) by (auto simp: load_affinity_def Let_def ebind_eq_Inr)
  note steps = this
  have "P d1" using steps(1) assms(2) by (rule key) (auto intro: assms(2,3))
  have "P d2" using steps(2) \<open>P d1\<close> by (rule key) (auto intro: \<open>P d1\<close> assms(3))
  have "P d3" using steps(3) \<open>P d2\<close> by (rule key) (auto intro: \<open>P d2\<close> assms(3))
  have "P d4" using steps(4) \<open>P d3\<close> by (rule key) (auto intro: \<open>P d3\<close> assms(4))
  show "P d" using steps(5) \<open>P d4\<close> by (rule key) (auto intro: \<open>P d4\<close> assms(4))
qed

lemma load_affinity_typed:
  assumes "load_affinity repr ca = Inr d"
  shows "affinity_typed d"
  using assms
proof (rule load_affinity_keeps)
  show "affinity_typed DEFAULT_CPU_AFFINITY"
    by (auto simp: affinity_typed_def DEFAULT_CPU_AFFINITY_def)
qed (auto intro!: affinity_typed_text affinity_typed_flag)

lemma load_affinity_isolation:
  assumes "load_affinity repr ca = Inr d"
    and "map_of d ''write_kernel_isolation'' = Some (PBool True)"
  shows "\<exists>e. ca = PDict e \<and> map_of e ''write_kernel_isolation'' = Some (PBool True)"
proof -
  have "map_of d ''write_kernel_isolation'' = Some (PBool True) \<longrightarrow>
      lookup ca ''write_kernel_isolation'' = Inr (Some (PBool True))"
    using assms(1) by (rule load_affinity_keeps) (auto simp: DEFAULT_CPU_AFFINITY_def update_conv)
  with assms(2) have "lookup ca ''write_kernel_isolation'' = Inr (Some (PBool True))" by simp
  then show ?thesis by (auto simp: lookup_def split: pyval.splits if_splits)
qed

lemma load_timing_typed:
  "load_timing tm = Inr d \<Longrightarrow> \<exists>b. map_of d ''honor_radiod_restart_request'' = Some (PBool b)"
  by (auto simp: load_timing_def DEFAULT_TIMING_def update_conv elim!: take_key_keeps)

lemma freq_typed_mhz:
  assumes "take_mhz k x s = Inr t" and "freq_typed (fst s)" and "k \<noteq> ''fast_mode''"
  shows "freq_typed (fst t)"
  using assms
  by (cases s) (auto simp: take_mhz_def ebind_eq_Inr freq_typed_def update_conv split: option.splits)

lemma freq_typed_mode:
  assumes "take_mode repr x s = Inr t" and "freq_typed (fst s)"
  shows "freq_typed (fst t)"
  using assms
  by (cases s) (auto simp: take_mode_def freq_typed_def update_conv Let_def split: if_splits)

lemma load_freq_typed:
  assumes "load_freq repr cf = Inr (d, ws)"
  shows "freq_typed d"
proof -
  have start: "freq_typed (fst (DEFAULT_CPU_FREQ, []))"
    by (simp add: freq_typed_def DEFAULT_CPU_FREQ_def CPU_FREQ_FAST_MODES_def)
  obtain s t where
    s: "take_key cf ''radiod_max_mhz'' (take_mhz ''radiod_max_mhz'') (DEFAULT_CPU_FREQ, []) = Inr s"
    and t: "take_key cf ''other_max_mhz'' (take_mhz ''other_max_mhz'') s = Inr t"
    and u: "take_key cf ''fast_mode'' (take_mode repr) t = Inr (d, ws)"
    using assms by (auto simp: load_freq_def ebind_eq_Inr)
  have "freq_typed (fst s)"
    using s by (rule take_key_keeps) (use start freq_typed_mhz in auto)
  with t have "freq_typed (fst t)"
    by (rule take_key_keeps [where P = "\<lambda>s. freq_typed (fst s)"]) (use \<open>freq_typed (fst s)\<close> freq_typed_mhz in auto)
  with u have "freq_typed (fst (d, ws))"
    by (rule take_key_keeps [where P = "\<lambda>s. freq_typed (fst s)"]) (use \<open>freq_typed (fst t)\<close> freq_typed_mode in auto)
  then show ?thesis by simp
qed

lemma components_typed_update:
  "components_typed d \<Longrightarrow> cp_name c = n \<Longrightarrow> n \<noteq> ''radiod'' \<Longrightarrow> components_typed (AList.update n c d)"
  by (simp add: components_typed_def update_conv)

lemma components_typed_load:
  assumes "load_component repr entry d = Inr d'" and "components_typed d"
  shows "components_typed d'"
  using assms
  by (cases entry) (auto simp: load_component_def ebind_eq_Inr rename_def intro!: components_typed_update
      split: pyval.splits if_splits)

lemma components_typed_default: "components_typed DEFAULT_COMPONENTS"
  by (auto simp: components_typed_def DEFAULT_COMPONENTS_def new_component_def split: if_splits)



end
