(* ===== verification/Coordination.thy ===== *)
theory Coordination
  imports PyText
begin

text \<open>
  The coordination file (\<open>src/lib/sigmond/coordination.py\<close>): its data model, the parsing of the TOML
  document into it and the environment file rendered from it.  The parsed TOML is a
  \<^typ>\<open>pyval\<close>; a field that the code copies without converting keeps that type.  \<open>repr\<close> is the text
  of a float, a list or a dict.
\<close>

section \<open>The data\<close>

record host =
  ho_call :: pyval
  ho_grid :: pyval
  ho_lat :: pyfloat
  ho_lon :: pyfloat

record station =
  sn_psws_id :: string
  sn_instrument_id :: string
  sn_reporter_id :: string
  sn_wsprnet_call :: string
  sn_pskreporter_call :: string
  sn_wsprnet_proxy :: bool

record radiod =
  ra_id :: string
  ra_host :: pyval
  ra_status_dns :: pyval
  ra_samprate_hz :: int
  ra_cores :: pyval
  ra_radio_conf :: pyval
  ra_sdr_serial :: string

definition effective_status_dns :: "radiod \<Rightarrow> pyval" where
  "effective_status_dns r =
     (if py_truthy (ra_status_dns r) then ra_status_dns r
      else PStr (if ends_with (ra_id r) ''.local'' then ra_id r else []))"

definition is_local :: "radiod \<Rightarrow> bool" where
  "is_local r = (ra_host r \<in> PStr ` {''localhost'', ''127.0.0.1'', ''::1'', []})"

record heartbeat =
  hb_enabled :: bool
  hb_station :: string
  hb_host :: string
  hb_port :: int
  hb_sftp_user :: string
  hb_remote_path :: string
  hb_interval_sec :: int

definition UPLOAD_MODES :: "string list" where
  "UPLOAD_MODES = [''upload'', ''hold'', ''discard'']"

record uploads =
  up_enabled :: bool
  up_reason :: string
  up_mode :: string
  up_declared :: bool

text \<open>\<open>Uploads(...)\<close> with its \<open>__post_init__\<close>.\<close>

definition new_uploads :: "bool \<Rightarrow> string \<Rightarrow> string \<Rightarrow> bool \<Rightarrow> uploads" where
  "new_uploads enabled reason mode declared =
     (let mode = (if mode \<in> set UPLOAD_MODES then mode else if enabled then ''upload'' else ''hold'') in
      \<lparr> up_enabled = (mode = ''upload''), up_reason = reason, up_mode = mode, up_declared = declared \<rparr>)"

record cpu_budget =
  cb_suite_cores :: pyval
  cb_worker_cores :: pyval
  cb_reserved_cpus :: pyval
  cb_owns_timestd_affinity :: bool

record client_instance =
  ci_type :: string
  ci_instance :: pyval
  ci_radiod_id :: pyval
  ci_extras :: "(string, pyval) dict"

record disk_budget =
  db_root_path :: pyval
  db_warn_percent :: int

record timing_authority =
  ta_source :: string
  ta_endpoint :: string
  ta_tier_min :: string

definition is_declared :: "timing_authority \<Rightarrow> bool" where
  "is_declared t = (ta_source t \<noteq> [] \<and> ta_endpoint t \<noteq> [])"

record coordination =
  co_host :: host
  co_station :: station
  co_radiods :: "(string, radiod) dict"
  co_cpu :: cpu_budget
  co_clients :: "client_instance list"
  co_disk_budget :: disk_budget
  co_timing_authority :: timing_authority
  co_per_radiod :: "(string, timing_authority) dict"
  co_heartbeat :: heartbeat
  co_uploads :: uploads

definition instances_of :: "coordination \<Rightarrow> string \<Rightarrow> client_instance list" where
  "instances_of c t = filter (\<lambda>i. ci_type i = t) (co_clients c)"

definition instances_bound_to :: "coordination \<Rightarrow> pyval \<Rightarrow> client_instance list" where
  "instances_bound_to c r = filter (\<lambda>i. ci_radiod_id i = r) (co_clients c)"

definition local_radiods :: "coordination \<Rightarrow> radiod list" where
  "local_radiods c = filter is_local (map snd (co_radiods c))"

definition resolve_radiod :: "coordination \<Rightarrow> string option \<Rightarrow> radiod option" where
  "resolve_radiod c rid = (case rid of None \<Rightarrow> None
     | Some r \<Rightarrow> if r = [] then None else map_of (co_radiods c) r)"

section \<open>Parsing\<close>

text \<open>\<open>int(d.get(k, n) or n)\<close>, \<open>float(d.get(k, 0.0) or 0.0)\<close>.\<close>

definition int_or :: "(string, pyval) dict \<Rightarrow> string \<Rightarrow> int \<Rightarrow> py_error + int" where
  "int_or d k n = (let v = dget d k (PInt n) in int_call (if py_truthy v then v else PInt n))"

definition float_or_zero :: "(string, pyval) dict \<Rightarrow> string \<Rightarrow> py_error + pyfloat" where
  "float_or_zero d k =
     (let v = dget d k (PFloat (Fin 0)) in float_call (if py_truthy v then v else PFloat (Fin 0)))"

definition flag_of :: "(string, pyval) dict \<Rightarrow> string \<Rightarrow> bool \<Rightarrow> bool" where
  "flag_of d k b = py_truthy (dget d k (PBool b))"

definition parse_host :: "(string, pyval) dict \<Rightarrow> py_error + host" where
  "parse_host d =
     ebind (float_or_zero d ''lat'') (\<lambda>lat. ebind (float_or_zero d ''lon'') (\<lambda>lon.
     Inr \<lparr> ho_call = dget d ''call'' (PStr []), ho_grid = dget d ''grid'' (PStr []),
       ho_lat = lat, ho_lon = lon \<rparr>))"

definition parse_station :: "(pyval \<Rightarrow> string) \<Rightarrow> (string, pyval) dict \<Rightarrow> station" where
  "parse_station repr d =
     \<lparr> sn_psws_id = text_field repr d ''psws_id'', sn_instrument_id = text_field repr d ''instrument_id'',
       sn_reporter_id = text_field repr d ''reporter_id'', sn_wsprnet_call = text_field repr d ''wsprnet_call'',
       sn_pskreporter_call = text_field repr d ''pskreporter_call'',
       sn_wsprnet_proxy = flag_of d ''wsprnet_proxy'' False \<rparr>"

definition parse_radiod ::
  "(pyval \<Rightarrow> string) \<Rightarrow> string \<times> pyval \<Rightarrow> (string, radiod) dict \<Rightarrow> py_error + (string, radiod) dict" where
  "parse_radiod repr entry out = (case entry of (rid, v) \<Rightarrow>
     ebind (or_dict v) (\<lambda>d. ebind (int_or d ''samprate_hz'' 0) (\<lambda>sr.
     Inr (AList.update rid
       \<lparr> ra_id = rid, ra_host = dget d ''host'' (PStr ''localhost''),
         ra_status_dns = dget d ''status_dns'' (PStr []), ra_samprate_hz = sr,
         ra_cores = dget d ''cores'' (PStr []), ra_radio_conf = dget d ''radio_conf'' (PStr []),
         ra_sdr_serial = strip (text_field repr d ''sdr_serial'') \<rparr> out))))"

definition parse_cpu :: "(string, pyval) dict \<Rightarrow> cpu_budget" where
  "parse_cpu d =
     \<lparr> cb_suite_cores = dget d ''suite_cores'' (PStr []), cb_worker_cores = dget d ''worker_cores'' (PStr []),
       cb_reserved_cpus = dget d ''reserved_cpus'' (PStr []),
       cb_owns_timestd_affinity = flag_of d ''owns_timestd_affinity'' True \<rparr>"

definition parse_client ::
  "string \<Rightarrow> pyval \<Rightarrow> client_instance list \<Rightarrow> py_error + client_instance list" where
  "parse_client t v out = ebind (or_dict v) (\<lambda>d.
     Inr (out @ [\<lparr> ci_type = t, ci_instance = dget d ''instance'' (PStr ''default''),
       ci_radiod_id = dget d ''radiod_id'' PNone,
       ci_extras = filter (\<lambda>(k, x). k \<notin> {''instance'', ''radiod_id''}) d \<rparr>]))"

definition parse_clients ::
  "string \<times> pyval \<Rightarrow> client_instance list \<Rightarrow> py_error + client_instance list" where
  "parse_clients entry out = (case entry of
       (t, PList vs) \<Rightarrow> efold (parse_client t) vs out
     | _ \<Rightarrow> Inr out)"

definition parse_authority :: "(pyval \<Rightarrow> string) \<Rightarrow> (string, pyval) dict \<Rightarrow> timing_authority" where
  "parse_authority repr d = \<lparr> ta_source = text_field repr d ''source'',
     ta_endpoint = text_field repr d ''endpoint'', ta_tier_min = text_field repr d ''tier_min'' \<rparr>"

definition parse_per_radiod ::
  "(pyval \<Rightarrow> string) \<Rightarrow> string \<times> pyval \<Rightarrow> (string, timing_authority) dict \<Rightarrow>
   py_error + (string, timing_authority) dict" where
  "parse_per_radiod repr entry out = (case entry of (rid, v) \<Rightarrow>
     ebind (or_dict v) (\<lambda>d. Inr (AList.update rid (parse_authority repr d) out)))"

definition parse_heartbeat :: "(pyval \<Rightarrow> string) \<Rightarrow> (string, pyval) dict \<Rightarrow> py_error + heartbeat" where
  "parse_heartbeat repr d =
     (let text_or = (\<lambda>k x. let s = text_field repr d k in if s = [] then x else s) in
      ebind (int_or d ''port'' 22) (\<lambda>port. ebind (int_or d ''interval_sec'' 300) (\<lambda>sec.
      Inr \<lparr> hb_enabled = flag_of d ''enabled'' False, hb_station = text_field repr d ''station'',
        hb_host = text_field repr d ''host'', hb_port = port, hb_sftp_user = text_or ''sftp_user'' ''hamsci-hb'',
        hb_remote_path = text_or ''remote_path'' ''incoming'', hb_interval_sec = sec \<rparr>)))"

definition parse_uploads :: "(pyval \<Rightarrow> string) \<Rightarrow> bool \<Rightarrow> (string, pyval) dict \<Rightarrow> uploads" where
  "parse_uploads repr declared d =
     new_uploads (flag_of d ''enabled'' True) (text_field repr d ''reason'')
       (lower (strip (text_field repr d ''mode''))) declared"

definition parse_coordination ::
  "(pyval \<Rightarrow> string) \<Rightarrow> (string, pyval) dict \<Rightarrow> py_error + coordination" where
  "parse_coordination repr raw =
     ebind (ebind (sub_table raw ''host'') parse_host) (\<lambda>host.
     ebind (sub_table raw ''station'') (\<lambda>station.
     ebind (sub_table raw ''radiod'') (\<lambda>rs. ebind (efold (parse_radiod repr) rs []) (\<lambda>radiods.
     ebind (sub_table raw ''cpu'') (\<lambda>cpu.
     ebind (sub_table raw ''clients'') (\<lambda>cs. ebind (efold parse_clients cs []) (\<lambda>clients.
     ebind (sub_table raw ''disk_budget'') (\<lambda>disk. ebind (int_or disk ''warn_percent'' 80) (\<lambda>warn.
     ebind (sub_table raw ''timing_authority'') (\<lambda>ta.
     ebind (sub_table ta ''per_radiod'') (\<lambda>ps. ebind (efold (parse_per_radiod repr) ps []) (\<lambda>per_radiod.
     ebind (ebind (sub_table raw ''heartbeat'') (parse_heartbeat repr)) (\<lambda>hb.
     ebind (sub_table raw ''uploads'') (\<lambda>up.
     Inr \<lparr> co_host = host, co_station = parse_station repr station, co_radiods = radiods,
       co_cpu = parse_cpu cpu, co_clients = clients,
       co_disk_budget = \<lparr> db_root_path = dget disk ''root_path'' (PStr ''/var''), db_warn_percent = warn \<rparr>,
       co_timing_authority = parse_authority repr ta, co_per_radiod = per_radiod, co_heartbeat = hb,
       co_uploads = parse_uploads repr (map_of raw ''uploads'' \<noteq> None) up \<rparr>))))))))))))))"

text \<open>\<open>Coordination()\<close>: what an absent file gives.\<close>

definition empty_coordination :: coordination where
  "empty_coordination =
     \<lparr> co_host = \<lparr> ho_call = PStr [], ho_grid = PStr [], ho_lat = Fin 0, ho_lon = Fin 0 \<rparr>,
       co_station = \<lparr> sn_psws_id = [], sn_instrument_id = [], sn_reporter_id = [], sn_wsprnet_call = [],
         sn_pskreporter_call = [], sn_wsprnet_proxy = False \<rparr>,
       co_radiods = [],
       co_cpu = \<lparr> cb_suite_cores = PStr [], cb_worker_cores = PStr [], cb_reserved_cpus = PStr [],
         cb_owns_timestd_affinity = True \<rparr>,
       co_clients = [],
       co_disk_budget = \<lparr> db_root_path = PStr ''/var'', db_warn_percent = 80 \<rparr>,
       co_timing_authority = \<lparr> ta_source = [], ta_endpoint = [], ta_tier_min = [] \<rparr>,
       co_per_radiod = [],
       co_heartbeat = \<lparr> hb_enabled = False, hb_station = [], hb_host = [], hb_port = 22,
         hb_sftp_user = ''hamsci-hb'', hb_remote_path = ''incoming'', hb_interval_sec = 300 \<rparr>,
       co_uploads = new_uploads True [] [] False \<rparr>"

definition load_coordination ::
  "(pyval \<Rightarrow> string) \<Rightarrow> (string, pyval) dict option \<Rightarrow> py_error + coordination" where
  "load_coordination repr file = (case file of None \<Rightarrow> Inr empty_coordination
     | Some raw \<Rightarrow> parse_coordination repr raw)"

end
