(* ===== verification/CoordEnv.thy ===== *)
theory CoordEnv
  imports Coordination
begin

text \<open>
  The environment file of the station (\<open>render_env\<close> of \<open>src/lib/sigmond/coordination.py\<close>) and the
  reader of such files (\<open>parse_env_text\<close> of \<open>src/lib/sigmond/harmonize.py\<close>).  The file feeds the
  environment of root services while some of its values come from the network, so the theorems
  are about what a value can and cannot put into it.  A dash of the banner is written as its UTF-8
  bytes.
\<close>

section \<open>Keys\<close>

fun collapse :: "bool \<Rightarrow> string \<Rightarrow> string" where
  "collapse prev [] = []"
| "collapse prev (c # s) =
     (if c = CHR ''_'' then (if prev then collapse True s else c # collapse True s)
      else c # collapse False s)"

definition strip_char :: "char \<Rightarrow> string \<Rightarrow> string" where
  "strip_char c s = rev (dropWhile (\<lambda>x. x = c) (rev (dropWhile (\<lambda>x. x = c) s)))"

definition env_key :: "(pyval \<Rightarrow> string) \<Rightarrow> pyval list \<Rightarrow> string" where
  "env_key repr parts =
     (let raw = join_on ''_'' (map (py_str repr) (filter py_truthy parts));
          out = concat (map (\<lambda>c. if is_alnum c then upper_char c else ''_'') raw) in
      strip_char (CHR ''_'') (collapse False out))"

section \<open>The lines\<close>

definition passthrough_extras_for :: "(string, pyval) dict option \<Rightarrow> py_error + string list" where
  "passthrough_extras_for file = (case file of None \<Rightarrow> Inr []
     | Some data \<Rightarrow>
         ebind (sub_table data ''client'') (\<lambda>client.
         ebind (sub_table client ''coordination'') (\<lambda>block.
         let keys = dget block ''passthrough_extras'' (PList []) in
         if \<not> py_truthy keys then Inr [] else case keys of
             PList vs \<Rightarrow> Inr (concat (map (\<lambda>v. case v of PStr s \<Rightarrow> [s] | _ \<Rightarrow> []) vs))
           | PStr s \<Rightarrow> Inr (map (\<lambda>c. [c]) s)
           | PDict d \<Rightarrow> Inr (map fst d)
           | _ \<Rightarrow> Inl TypeError)))"

text \<open>Only the fields the host has set: an empty one would overwrite the client's own.\<close>

definition station_identity_env :: "(pyval \<Rightarrow> string) \<Rightarrow> coordination \<Rightarrow> (string, pyval) dict" where
  "station_identity_env repr c =
     (let h = co_host c; st = co_station c in
      (if py_truthy (ho_call h) then [(''STATION_CALL'', ho_call h), (''STATION_CALLSIGN'', ho_call h)] else [])
      @ (if py_truthy (ho_grid h) then [(''STATION_GRID'', ho_grid h)] else [])
      @ (if ho_lat h \<noteq> Fin 0 then [(''STATION_LAT'', PStr (repr (PFloat (ho_lat h))))] else [])
      @ (if ho_lon h \<noteq> Fin 0 then [(''STATION_LON'', PStr (repr (PFloat (ho_lon h))))] else [])
      @ map (\<lambda>(k, v). (k, PStr v)) (filter (\<lambda>(k, v). v \<noteq> [])
          [(''STATION_REPORTER_ID'', sn_reporter_id st), (''STATION_PSWS_STATION_ID'', sn_psws_id st),
           (''STATION_PSWS_INSTRUMENT_ID'', sn_instrument_id st),
           (''STATION_WSPRNET_CALL'', sn_wsprnet_call st),
           (''STATION_PSKREPORTER_CALL'', sn_pskreporter_call st)]))"

definition has_ctrl :: "string \<Rightarrow> bool" where
  "has_ctrl s = list_ex (\<lambda>c. (of_char c :: nat) < 32 \<or> (of_char c :: nat) = 127) s"

definition env_value :: "string \<Rightarrow> string" where
  "env_value l = (if CHR ''='' \<in> set l \<and> \<not> starts_with l ''#'' then snd (split_once (CHR ''='') l) else [])"

definition has_quote :: "string \<Rightarrow> bool" where
  "has_quote s = list_ex (\<lambda>c. c \<in> {CHR 0x5C, CHR 0x22, CHR 0x27}) s"

definition unsafe_env_line :: "string \<Rightarrow> bool" where
  "unsafe_env_line l = (has_ctrl l \<or> has_quote (env_value l))"

definition env_line :: "(pyval \<Rightarrow> string) \<Rightarrow> string \<Rightarrow> pyval \<Rightarrow> string" where
  "env_line repr k v = k @ ''='' @ py_str repr v"

definition BANNER :: "string list" where
  "BANNER = [''# Generated by sigmond '' @ [CHR 0xE2, CHR 0x80, CHR 0x94] @ '' do not edit.'',
     ''# Source: /etc/sigmond/coordination.toml'', []]"

definition HOST_KEYS :: "string list" where
  "HOST_KEYS = [''STATION_CALL'', ''STATION_CALLSIGN'', ''STATION_GRID'', ''STATION_LAT'', ''STATION_LON'']"

text \<open>A group of lines is followed by an empty one, unless there is none.\<close>

definition group :: "string list \<Rightarrow> string list" where
  "group ls = (if ls = [] then [] else ls @ [[]])"

definition STATION_KEYS :: "string list" where
  "STATION_KEYS = [''STATION_REPORTER_ID'', ''STATION_PSWS_STATION_ID'', ''STATION_PSWS_INSTRUMENT_ID'',
     ''STATION_WSPRNET_CALL'', ''STATION_PSKREPORTER_CALL'']"

definition identity_lines :: "(pyval \<Rightarrow> string) \<Rightarrow> coordination \<Rightarrow> string list" where
  "identity_lines repr c =
     (let ident = station_identity_env repr c in
      group (concat (map (\<lambda>k. case map_of ident k of None \<Rightarrow> [] | Some v \<Rightarrow> [env_line repr k v]) HOST_KEYS))
      @ group (map (\<lambda>(k, v). env_line repr k v) (filter (\<lambda>(k, v). k \<notin> set HOST_KEYS) ident)))"

definition authority_lines :: "string \<Rightarrow> timing_authority \<Rightarrow> string list" where
  "authority_lines prefix t =
     (if is_declared t then
        [prefix @ ''TIMING_AUTHORITY='' @ ta_source t, prefix @ ''TIMING_AUTHORITY_ENDPOINT='' @ ta_endpoint t]
        @ (if ta_tier_min t = [] then [] else [prefix @ ''TIMING_AUTHORITY_TIER_MIN='' @ ta_tier_min t])
      else [])"

definition radiod_lines ::
  "(pyval \<Rightarrow> string) \<Rightarrow> (string, timing_authority) dict \<Rightarrow> string \<times> radiod \<Rightarrow> string list" where
  "radiod_lines repr tas entry = (case entry of (rid, r) \<Rightarrow>
     let prefix = env_key repr [PStr ''RADIOD'', PStr rid] in
     [env_line repr (prefix @ ''_HOST'') (ra_host r)]
     @ (if py_truthy (effective_status_dns r)
        then [env_line repr (prefix @ ''_STATUS'') (effective_status_dns r)] else [])
     @ (if ra_samprate_hz r \<noteq> 0 then [env_line repr (prefix @ ''_SAMPRATE'') (PInt (ra_samprate_hz r))] else [])
     @ (case map_of tas rid of None \<Rightarrow> [] | Some t \<Rightarrow> authority_lines (prefix @ ''_'') t)
     @ [[]])"

definition summary_lines :: "(pyval \<Rightarrow> string) \<Rightarrow> (string, radiod) dict \<Rightarrow> string list" where
  "summary_lines repr rs =
     (if rs = [] then [] else
        [env_line repr ''SIGMOND_RADIOD_COUNT'' (PInt (int (length rs)))]
        @ (case rs of [(_, r)] \<Rightarrow>
             if py_truthy (effective_status_dns r)
             then [env_line repr ''SIGMOND_RADIOD_STATUS'' (effective_status_dns r)] else []
           | _ \<Rightarrow> [])
        @ [[]])"

definition binding_lines :: "(pyval \<Rightarrow> string) \<Rightarrow> client_instance list \<Rightarrow> string list" where
  "binding_lines repr cs = group (map (\<lambda>c.
     env_line repr (env_key repr [PStr (ci_type c), ci_instance c] @ ''_RADIOD'') (ci_radiod_id c))
     (filter (\<lambda>c. py_truthy (ci_radiod_id c)) cs))"

text \<open>The extras a client type asks for; the triples emitted are kept for the fallback below, and a
  set does not hold an instance that cannot be hashed.\<close>

type_synonym extras_out = "(string \<times> pyval \<times> string) list"

definition extra_line ::
  "(pyval \<Rightarrow> string) \<Rightarrow> client_instance \<Rightarrow> string \<Rightarrow> string list \<times> extras_out \<Rightarrow>
   py_error + string list \<times> extras_out" where
  "extra_line repr c key s = (case map_of (ci_extras c) key of
       None \<Rightarrow> Inr s
     | Some v \<Rightarrow>
         if hashable (ci_instance c) then
           Inr (fst s @ [env_line repr (env_key repr [PStr (ci_type c), ci_instance c, PStr key]) v],
             (ci_type c, ci_instance c, key) # snd s)
         else Inl TypeError)"

definition client_extras ::
  "(pyval \<Rightarrow> string) \<Rightarrow> (string \<Rightarrow> py_error + string list) \<Rightarrow> client_instance \<Rightarrow>
   string list \<times> extras_out \<Rightarrow> py_error + string list \<times> extras_out" where
  "client_extras repr passthrough c s =
     ebind (passthrough (ci_type c)) (\<lambda>wanted. efold (extra_line repr c) wanted s)"

definition web_line ::
  "(pyval \<Rightarrow> string) \<Rightarrow> extras_out \<Rightarrow> client_instance \<Rightarrow> string list \<Rightarrow> py_error + string list" where
  "web_line repr done c out =
     (if ci_type c = ''ka9q-web'' then (case map_of (ci_extras c) ''port'' of
          None \<Rightarrow> Inr out
        | Some v \<Rightarrow>
            if \<not> hashable (ci_instance c) then Inl TypeError
            else if (ci_type c, ci_instance c, ''port'') \<in> set done then Inr out
            else Inr (out @ [env_line repr (env_key repr [PStr ''KA9Q_WEB'', ci_instance c] @ ''_PORT'') v]))
      else Inr out)"

record receiver =
  rc_reporter_id :: string
  rc_radiod :: string

definition receiver_ok :: "receiver \<Rightarrow> bool" where
  "receiver_ok r = (\<not> unsafe_env_line (''R='' @ rc_reporter_id r) \<and> \<not> unsafe_env_line (''R='' @ rc_radiod r))"

definition receiver_lines :: "(pyval \<Rightarrow> string) \<Rightarrow> receiver list \<Rightarrow> string list" where
  "receiver_lines repr kept =
     (if kept = [] then [] else
        [[], env_line repr ''RECEIVER_COUNT'' (PInt (int (length kept)))]
        @ concat (map (\<lambda>(n, r). let k = ''RECEIVER_'' @ string_of_int (int n) in
            [k @ ''_REPORTER='' @ rc_reporter_id r, k @ ''_RADIOD='' @ rc_radiod r])
          (zip [1..<Suc (length kept)] kept)))"

definition env_lines ::
  "(pyval \<Rightarrow> string) \<Rightarrow> (string \<Rightarrow> py_error + string list) \<Rightarrow> receiver list \<Rightarrow> coordination \<Rightarrow>
   py_error + string list" where
  "env_lines repr passthrough receivers c =
     ebind (efold (client_extras repr passthrough) (co_clients c) ([], [])) (\<lambda>(extras, done).
     ebind (efold (web_line repr done) (co_clients c) []) (\<lambda>web.
     Inr (BANNER @ identity_lines repr c
       @ concat (map (radiod_lines repr (co_per_radiod c)) (sort_key fst (co_radiods c)))
       @ group (authority_lines [] (co_timing_authority c))
       @ summary_lines repr (co_radiods c)
       @ binding_lines repr (co_clients c)
       @ extras @ web
       @ receiver_lines repr (filter receiver_ok receivers))))"

datatype env_warning = SkippedReceiver string string | SkippedLine string string

definition env_text :: "string list \<Rightarrow> string" where
  "env_text ls = rstrip (join_on [newline] (filter (\<lambda>l. \<not> unsafe_env_line l) ls)) @ [newline]"

definition render_env ::
  "(pyval \<Rightarrow> string) \<Rightarrow> (string \<Rightarrow> py_error + string list) \<Rightarrow> receiver list \<Rightarrow> coordination \<Rightarrow>
   py_error + string \<times> env_warning list" where
  "render_env repr passthrough receivers c =
     ebind (env_lines repr passthrough receivers c) (\<lambda>ls.
     Inr (env_text ls,
       map (\<lambda>r. SkippedReceiver (rc_reporter_id r) (rc_radiod r)) (filter (\<lambda>r. \<not> receiver_ok r) receivers)
       @ map (\<lambda>l. SkippedLine (fst (split_once (CHR ''='') l)) l) (filter unsafe_env_line ls)))"

section \<open>Reading it\<close>

definition parse_env_line :: "string \<Rightarrow> (string, string) dict \<Rightarrow> (string, string) dict" where
  "parse_env_line line out =
     (let line = strip line in
      if line = [] \<or> starts_with line ''#'' \<or> CHR ''='' \<notin> set line then out
      else case split_once (CHR ''='') line of (k, v) \<Rightarrow>
        AList.update (strip k) (strip_char (CHR 0x27) (strip_char (CHR 0x22) (strip v))) out)"

definition parse_env_text :: "string \<Rightarrow> (string, string) dict" where
  "parse_env_text text = fold parse_env_line (splitlines text) []"

section \<open>What a value can put into the file\<close>

text \<open>A character of a key; a line that assigns a variable.\<close>

definition env_char :: "char \<Rightarrow> bool" where
  "env_char c = (c = CHR ''_'' \<or> is_alnum c \<and> upper_char c = [c])"

definition assigns :: "string \<Rightarrow> bool" where
  "assigns l = (\<exists>k v. l = k @ ''='' @ v \<and> list_all env_char k)"

definition good_line :: "string \<Rightarrow> bool" where
  "good_line l = (l = [] \<or> starts_with l ''#'' \<or> assigns l)"

lemma env_char_capital: "65 \<le> m \<Longrightarrow> m \<le> 90 \<Longrightarrow> env_char (char_of (m :: nat))"
  "192 \<le> m \<Longrightarrow> m \<le> 222 \<Longrightarrow> m \<noteq> 215 \<Longrightarrow> env_char (char_of (m :: nat))"
  by (simp_all add: env_char_def is_alnum_def is_upper_def is_lower_def upper_char_def Let_def)

lemma env_char_upper:
  assumes "is_alnum c"
  shows "list_all env_char (upper_char c)"
proof -
  let ?n = "of_char c :: nat"
  have S: "env_char (CHR ''S'')" by (simp add: env_char_def is_alnum_def upper_char_def is_upper_def is_lower_def)
  consider "?n = 223" | "is_lower c" | "?n \<noteq> 223" "\<not> is_lower c" "224 \<le> ?n" "?n \<le> 254" "?n \<noteq> 247"
    | "?n \<noteq> 223" "\<not> is_lower c" "\<not> (224 \<le> ?n \<and> ?n \<le> 254 \<and> ?n \<noteq> 247)" by blast
  then show ?thesis
  proof cases
    case 1
    then show ?thesis using S by (simp add: upper_char_def Let_def)
  next
    case 2
    then have "97 \<le> ?n" "?n \<le> 122" by (simp_all add: is_lower_def Let_def)
    then have "env_char (char_of (?n - 32))" by (intro env_char_capital(1)) linarith+
    with 2 \<open>?n \<le> 122\<close> show ?thesis by (simp add: upper_char_def Let_def)
  next
    case 3
    then have "env_char (char_of (?n - 32))" by (intro env_char_capital(2)) linarith+
    with 3 show ?thesis by (simp add: upper_char_def Let_def)
  next
    case 4
    then have "upper_char c = [c]" by (auto simp: upper_char_def Let_def)
    with assms show ?thesis by (simp add: env_char_def)
  qed
qed

lemma set_collapse: "set (collapse b s) \<subseteq> set s"
  by (induction b s rule: collapse.induct) auto

lemma set_strip_char: "set (strip_char c s) \<subseteq> set s"
  by (auto simp: strip_char_def dest!: set_dropWhileD)

lemma env_key_chars [simp]: "list_all env_char (env_key repr parts)"
proof -
  have "list_all env_char (concat (map (\<lambda>c. if is_alnum c then upper_char c else ''_'') raw))" for raw
    using env_char_upper by (induction raw) (simp_all add: env_char_def [of "CHR ''_''"])
  then show ?thesis
    unfolding env_key_def Let_def list_all_iff using set_strip_char set_collapse by blast
qed

lemma assignsI: "list_all env_char k \<Longrightarrow> assigns (k @ ''='' @ v)"
  by (auto simp: assigns_def)

lemma env_line_good: "list_all env_char k \<Longrightarrow> good_line (env_line repr k v)"
  by (simp add: good_line_def env_line_def assignsI del: append_Cons append_Nil)

lemma suffix_chars:
  "list_all env_char ''_HOST''" "list_all env_char ''_STATUS''" "list_all env_char ''_SAMPRATE''"
  "list_all env_char ''_RADIOD''" "list_all env_char ''_PORT''" "list_all env_char ''TIMING_AUTHORITY''"
  "list_all env_char ''TIMING_AUTHORITY_ENDPOINT''" "list_all env_char ''TIMING_AUTHORITY_TIER_MIN''"
  "list_all env_char ''SIGMOND_RADIOD_COUNT''" "list_all env_char ''SIGMOND_RADIOD_STATUS''"
  "list_all env_char ''RECEIVER_COUNT''" "list_all env_char ''RECEIVER_''" "list_all env_char ''_REPORTER''"
  "list_all env_char ''_''" "list_all (list_all env_char) HOST_KEYS"
  "list_all (list_all env_char) STATION_KEYS"
  by code_simp+

lemma group_good: "list_all good_line ls \<Longrightarrow> list_all good_line (group ls)"
  by (simp add: group_def good_line_def)

lemma identity_keys: "fst ` set (station_identity_env repr c) \<subseteq> set HOST_KEYS \<union> set STATION_KEYS"
  by (auto simp: station_identity_env_def Let_def HOST_KEYS_def STATION_KEYS_def)

lemma identity_lines_good: "list_all good_line (identity_lines repr c)"
proof -
  let ?ident = "station_identity_env repr c"
  have keys: "list_all env_char k" if "(k, v) \<in> set ?ident" "k \<notin> set HOST_KEYS" for k v
    using that identity_keys [of repr c] suffix_chars(16) by (force simp: list_all_iff [of _ STATION_KEYS])
  have "list_all good_line (concat (map (\<lambda>k. case map_of ?ident k of None \<Rightarrow> []
      | Some v \<Rightarrow> [env_line repr k v]) HOST_KEYS))"
    using suffix_chars(15) by (auto simp: list_all_iff intro!: env_line_good split: option.splits)
  moreover have "list_all good_line (map (\<lambda>(k, v). env_line repr k v)
      (filter (\<lambda>(k, v). k \<notin> set HOST_KEYS) ?ident))"
    using keys by (auto simp: list_all_iff intro!: env_line_good)
  ultimately show ?thesis by (simp add: identity_lines_def Let_def group_good)
qed

lemma good_assign: "list_all env_char k \<Longrightarrow> good_line (k @ CHR ''='' # v)"
  using assignsI [of k v] by (simp add: good_line_def)

lemma authority_lines_good: "list_all env_char p \<Longrightarrow> list_all good_line (authority_lines p t)"
  using good_assign [of "p @ ''TIMING_AUTHORITY''"] good_assign [of "p @ ''TIMING_AUTHORITY_ENDPOINT''"]
    good_assign [of "p @ ''TIMING_AUTHORITY_TIER_MIN''"] suffix_chars(6-8)
  by (simp add: authority_lines_def)

lemma radiod_lines_good: "list_all good_line (radiod_lines repr tas entry)"
  using suffix_chars(1-3,14)
  by (cases entry) (simp add: radiod_lines_def Let_def env_line_good authority_lines_good good_line_def [of "[]"]
      split: option.split)

lemma summary_lines_good: "list_all good_line (summary_lines repr rs)"
  using suffix_chars(9,10)
  by (simp add: summary_lines_def env_line_good good_line_def [of "[]"] split: list.split)

lemma binding_lines_good: "list_all good_line (binding_lines repr cs)"
  using suffix_chars(4)
  by (auto simp: binding_lines_def list_all_iff [of _ "map _ _"] intro!: group_good env_line_good)

lemma extras_good:
  assumes "efold (client_extras repr passthrough) cs ([], []) = Inr s"
  shows "list_all good_line (fst s)"
  using assms
proof (rule efold_invariant)
  fix c and u v :: "string list \<times> extras_out"
  assume "list_all good_line (fst u)" "client_extras repr passthrough c u = Inr v"
  then show "list_all good_line (fst v)"
    by (auto simp: client_extras_def ebind_eq_Inr elim!: efold_invariant
        simp: extra_line_def env_line_good split: option.splits if_splits)
qed simp

lemma web_good:
  assumes "efold (web_line repr done) cs [] = Inr ls"
  shows "list_all good_line ls"
  using assms
  by (rule efold_invariant)
    (use suffix_chars(5) in \<open>auto simp: web_line_def intro!: env_line_good split: option.splits if_splits\<close>)

lemma digits_env_char: "list_all env_char (string_of_int (int n))"
proof -
  have "is_digit c \<Longrightarrow> env_char c" for c
    by (auto simp: env_char_def is_alnum_def upper_char_def is_lower_def is_digit_def Let_def)
  then show ?thesis
    using digits_of_digits [of n] by (auto simp: string_of_int_def list_all_iff)
qed

lemma receiver_lines_good: "list_all good_line (receiver_lines repr kept)"
proof -
  have "good_line (''RECEIVER_'' @ string_of_int (int n) @ ''_REPORTER='' @ v)"
    "good_line (''RECEIVER_'' @ string_of_int (int n) @ ''_RADIOD='' @ v)" for n v
    using good_assign [of "''RECEIVER_'' @ string_of_int (int n) @ ''_REPORTER''" v]
      good_assign [of "''RECEIVER_'' @ string_of_int (int n) @ ''_RADIOD''" v]
      suffix_chars(4,12,13) digits_env_char [of n] by simp_all
  then show ?thesis
    using suffix_chars(11)
    by (auto simp: receiver_lines_def Let_def list_all_iff good_line_def [of "[]"] intro!: env_line_good)
qed

lemma env_lines_good:
  assumes "env_lines repr passthrough receivers c = Inr ls"
  shows "list_all good_line ls"
proof -
  obtain extras emitted web where
    e: "efold (client_extras repr passthrough) (co_clients c) ([], []) = Inr (extras, emitted)"
    and w: "efold (web_line repr emitted) (co_clients c) [] = Inr web"
    and ls: "ls = BANNER @ identity_lines repr c
       @ concat (map (radiod_lines repr (co_per_radiod c)) (sort_key fst (co_radiods c)))
       @ group (authority_lines [] (co_timing_authority c)) @ summary_lines repr (co_radiods c)
       @ binding_lines repr (co_clients c) @ extras @ web
       @ receiver_lines repr (filter receiver_ok receivers)"
    using assms by (auto simp: env_lines_def ebind_eq_Inr)
  have "list_all good_line BANNER" by (simp add: BANNER_def good_line_def)
  moreover have "list_all good_line (concat (map (radiod_lines repr (co_per_radiod c)) rs))" for rs
    using radiod_lines_good by (induction rs) auto
  ultimately show ?thesis
    using extras_good [OF e]
    by (simp add: ls identity_lines_good group_good authority_lines_good summary_lines_good
        binding_lines_good web_good [OF w] receiver_lines_good)
qed

section \<open>Cutting the text back into lines\<close>

lemma unsafe_prefix: "\<not> unsafe_env_line (x @ t) \<Longrightarrow> \<not> unsafe_env_line x"
proof -
  assume safe: "\<not> unsafe_env_line (x @ t)"
  have "set (env_value x) \<subseteq> set (env_value (x @ t))"
  proof (cases "CHR ''='' \<in> set x \<and> \<not> starts_with x ''#''")
    case True
    then obtain a b where x: "x = a @ CHR ''='' # b" "CHR ''='' \<notin> set a" by (meson split_list_first)
    have "starts_with (x @ t) ''#'' = starts_with x ''#''" using x by (cases a) simp_all
    with True x show ?thesis by (auto simp: env_value_def)
  qed (auto simp: env_value_def)
  with safe show ?thesis by (auto simp: unsafe_env_line_def has_ctrl_def has_quote_def list_ex_iff)
qed

lemma good_prefix:
  assumes "good_line (x @ t)" and "list_all is_space t"
  shows "good_line x"
proof -
  consider "x = []" | "x \<noteq> []" "starts_with (x @ t) ''#''" | "assigns (x @ t)"
    using assms(1) by (auto simp: good_line_def)
  then show ?thesis
  proof cases
    case 2
    then show ?thesis by (cases x) (simp_all add: good_line_def)
  next
    case 3
    then obtain k v where kv: "x @ t = k @ ''='' @ v" "list_all env_char k" by (auto simp: assigns_def)
    have "CHR ''='' \<notin> set t"
    proof
      assume "CHR ''='' \<in> set t"
      then have "is_space CHR ''=''" using assms(2) by (auto simp: list_all_iff)
      then show False by (simp add: is_space_def)
    qed
    then obtain u where "x = k @ ''='' @ u"
      using kv(1) by (auto simp: append_eq_append_conv2 append_eq_Cons_conv)
    with kv(2) show ?thesis by (auto simp: good_line_def assigns_def)
  qed (simp add: good_line_def)
qed

lemma safe_no_newline: "\<not> unsafe_env_line l \<Longrightarrow> newline \<notin> set l"
  by (auto simp: unsafe_env_line_def has_ctrl_def list_ex_iff)

lemma safe_lines:
  assumes "env_lines repr passthrough receivers c = Inr ls"
  shows "filter (\<lambda>l. \<not> unsafe_env_line l) ls \<noteq> []"
    and "split_on newline (join_on [newline] (filter (\<lambda>l. \<not> unsafe_env_line l) ls))
      = filter (\<lambda>l. \<not> unsafe_env_line l) ls"
proof -
  have "[] \<in> set ls"
    using assms by (auto simp: env_lines_def BANNER_def ebind_eq_Inr)
  moreover have "\<not> unsafe_env_line []"
    by (simp add: unsafe_env_line_def has_ctrl_def has_quote_def env_value_def)
  ultimately show *: "filter (\<lambda>l. \<not> unsafe_env_line l) ls \<noteq> []" by (auto simp: filter_empty_conv)
  show "split_on newline (join_on [newline] (filter (\<lambda>l. \<not> unsafe_env_line l) ls))
      = filter (\<lambda>l. \<not> unsafe_env_line l) ls"
    using * by (rule split_on_join) (auto simp: list_all_iff dest: safe_no_newline)
qed

definition env_body :: "string list \<Rightarrow> string" where
  "env_body ls = rstrip (join_on [newline] (filter (\<lambda>l. \<not> unsafe_env_line l) ls))"

lemma env_text_body: "env_text ls = env_body ls @ [newline]"
  by (simp add: env_text_def env_body_def)

lemma body_lines:
  assumes "env_lines repr passthrough receivers c = Inr ls" and "x \<in> set (split_on newline (env_body ls))"
  shows "\<exists>t. x @ t \<in> set ls \<and> \<not> unsafe_env_line (x @ t) \<and> list_all is_space t"
proof -
  let ?s = "join_on [newline] (filter (\<lambda>l. \<not> unsafe_env_line l) ls)"
  obtain w where w: "?s = env_body ls @ w" "list_all is_space w"
    using rstrip_split [of ?s] by (auto simp: env_body_def)
  show ?thesis
    using split_on_cut [OF w(2) assms(2)] safe_lines(2) [OF assms(1)] w(1) by auto
qed

lemma body_keeps:
  assumes "env_lines repr passthrough receivers c = Inr ls" and "v \<in> set ls" and "\<not> unsafe_env_line v"
    and "v \<noteq> []" and "\<not> is_space (last v)"
  shows "v \<in> set (split_on newline (env_body ls))"
proof -
  let ?s = "join_on [newline] (filter (\<lambda>l. \<not> unsafe_env_line l) ls)"
  obtain w where w: "?s = env_body ls @ w" "list_all is_space w"
    using rstrip_split [of ?s] by (auto simp: env_body_def)
  have "v \<in> set (split_on newline (env_body ls @ w))"
    using safe_lines(2) [OF assms(1)] w(1) assms(2,3) by simp
  then have "list_all is_space v
      \<or> (\<exists>x \<in> set (split_on newline (env_body ls)). \<exists>t. v = x @ t \<and> list_all is_space t)"
    by (rule split_on_kept [OF w(2)])
  moreover have "\<not> list_all is_space v" using assms(4,5) by (auto simp: list_all_iff)
  moreover have "t = []" if "v = x @ t" "list_all is_space t" for x t
    using that assms(4,5) by (cases t rule: rev_cases) auto
  ultimately show ?thesis by force
qed

lemma char_0x85: "(of_char c :: nat) = 133 \<Longrightarrow> c = CHR 0x85"
proof -
  assume "(of_char c :: nat) = 133"
  then have "c = char_of (133 :: nat)" by (metis char_of_char)
  also have "\<dots> = CHR 0x85" by code_simp
  finally show ?thesis .
qed

text \<open>A value that a reader gets back as it is: no white space at its ends, no quote.\<close>

definition plain_value :: "string \<Rightarrow> bool" where
  "plain_value v = (v \<noteq> [] \<and> \<not> is_space (hd v) \<and> \<not> is_space (last v) \<and> \<not> has_ctrl v \<and> \<not> has_quote v)"

lemma env_char_not_space: "env_char c \<Longrightarrow> \<not> is_space c"
  by (auto simp: env_char_def is_alnum_def is_space_def is_digit_def is_lower_def is_upper_def Let_def)

lemma env_char_no_ctrl: "env_char c \<Longrightarrow> \<not> (of_char c :: nat) < 32 \<and> (of_char c :: nat) \<noteq> 127 \<and> c \<noteq> CHR ''='' \<and> c \<noteq> CHR ''#''"
  by (auto simp: env_char_def is_alnum_def is_digit_def is_lower_def is_upper_def Let_def)

lemma env_chars_word: "list_all env_char k \<Longrightarrow> \<not> list_ex is_space k"
  using env_char_not_space by (auto simp: list_all_iff list_ex_iff)

lemma lstrip_head: "k @ s \<noteq> [] \<Longrightarrow> \<not> is_space (hd (k @ s)) \<Longrightarrow> lstrip (k @ s) = k @ s"
  by (cases "k @ s") (simp_all add: lstrip_def)

lemma rstrip_keeps: "\<not> is_space c \<Longrightarrow> rstrip (k @ c # v) = k @ c # rstrip v"
  by (simp add: rstrip_def dropWhile_append)

lemma parse_assignment:
  assumes "list_all env_char k"
  shows "parse_env_line (k @ ''='' @ v) out =
    AList.update k (strip_char (CHR 0x27) (strip_char (CHR 0x22) (strip (rstrip v)))) out"
proof -
  have eq: "\<not> is_space (CHR ''='')" by (simp add: is_space_def)
  have "\<not> is_space (hd (k @ ''='' @ v))"
    using assms env_char_not_space eq by (cases k) simp_all
  then have strip: "strip (k @ ''='' @ v) = k @ ''='' @ rstrip v"
    using lstrip_head [of k "''='' @ v"] rstrip_keeps [OF eq, of k v] by (simp add: strip_def)
  have nk: "CHR ''='' \<notin> set k" using assms env_char_no_ctrl by (auto simp: list_all_iff)
  have nc: "\<not> starts_with (k @ ''='' @ rstrip v) ''#''"
    using assms env_char_no_ctrl by (cases k) auto
  show ?thesis
    unfolding parse_env_line_def Let_def strip
    using nk nc env_chars_word [OF assms] split_once_append [OF nk, of "rstrip v"] by simp
qed

lemma strip_char_id: "v \<noteq> [] \<Longrightarrow> hd v \<noteq> c \<Longrightarrow> last v \<noteq> c \<Longrightarrow> strip_char c v = v"
proof -
  assume v: "v \<noteq> []" "hd v \<noteq> c" "last v \<noteq> c"
  have "dropWhile (\<lambda>x. x = c) v = v" using v(2) by (cases v) simp_all
  moreover have "dropWhile (\<lambda>x. x = c) (rev v) = rev v"
    using v(1,3) by (cases "rev v") (simp_all add: hd_rev [symmetric])
  ultimately show ?thesis by (simp add: strip_char_def)
qed

lemma parse_plain:
  assumes "list_all env_char k" and "plain_value v"
  shows "parse_env_line (k @ ''='' @ v) out = AList.update k v out"
proof -
  have v: "v \<noteq> []" "\<not> is_space (hd v)" "\<not> is_space (last v)" using assms(2) by (auto simp: plain_value_def)
  have q: "hd v \<noteq> CHR 0x22" "last v \<noteq> CHR 0x22" "hd v \<noteq> CHR 0x27" "last v \<noteq> CHR 0x27"
    using assms(2) v(1) by (auto simp: plain_value_def has_quote_def list_ex_iff)
  have "rstrip v = v" using v by (cases v rule: rev_cases) (simp_all add: rstrip_def)
  moreover have "strip v = v" using v by (rule strip_ends)
  ultimately show ?thesis
    using q v(1) parse_assignment [OF assms(1), of v out] strip_char_id by simp
qed

lemma parse_other:
  assumes "good_line l" and "\<And>v. l = k @ ''='' @ v \<Longrightarrow> False"
  shows "map_of (parse_env_line l out) k = map_of out k"
proof -
  consider "l = [] \<or> starts_with l ''#''" | k' v where "l = k' @ ''='' @ v" "list_all env_char k'"
    using assms(1) by (auto simp: good_line_def assigns_def)
  then show ?thesis
  proof cases
    case 1
    have "strip l = [] \<or> starts_with (strip l) ''#''"
    proof (cases l)
      case Nil
      then show ?thesis by (simp add: strip_def lstrip_def rstrip_def)
    next
      case (Cons a u)
      moreover obtain t where "strip (CHR ''#'' # u) = CHR ''#'' # t"
        using strip_head [of "CHR ''#''" u] by (auto simp: is_space_def)
      ultimately show ?thesis using 1 by auto
    qed
    then show ?thesis by (auto simp: parse_env_line_def Let_def)
  next
    case 2
    then have "k' \<noteq> k" using assms(2) by blast
    then show ?thesis using 2 parse_assignment [OF 2(2), of v out] by (simp add: update_conv)
  qed
qed

lemma plain_line_safe:
  assumes "list_all env_char k" and "plain_value v"
  shows "\<not> unsafe_env_line (k @ ''='' @ v)"
proof -
  have "CHR ''='' \<notin> set k" using assms(1) env_char_no_ctrl by (auto simp: list_all_iff)
  then have "env_value (k @ ''='' @ v) = v \<or> env_value (k @ ''='' @ v) = []"
    using split_once_append [of "CHR ''=''" k v] by (simp add: env_value_def)
  then have "\<not> has_quote (env_value (k @ ''='' @ v))"
    using assms(2) by (auto simp: plain_value_def has_quote_def)
  moreover have "\<not> has_ctrl k"
    using assms(1) env_char_no_ctrl by (auto simp: has_ctrl_def list_all_iff list_ex_iff dest!: bspec)
  then have "\<not> has_ctrl (k @ ''='' @ v)"
    using assms(2) by (simp add: plain_value_def has_ctrl_def)
  ultimately show ?thesis by (simp add: unsafe_env_line_def)
qed

lemma good_safe_line:
  assumes "good_line l \<and> \<not> unsafe_env_line l"
  shows "(l = [] \<or> starts_with l ''#''
      \<or> (\<exists>k v. l = k @ ''='' @ v \<and> list_all env_char k \<and> set v \<inter> {CHR 0x5C, CHR 0x22, CHR 0x27} = {}))
    \<and> (\<forall>x \<in> set l. 32 \<le> (of_char x :: nat) \<and> (of_char x :: nat) \<noteq> 127)"
proof (intro conjI)
  show "\<forall>x \<in> set l. 32 \<le> (of_char x :: nat) \<and> (of_char x :: nat) \<noteq> 127"
    using assms by (auto simp: unsafe_env_line_def has_ctrl_def list_ex_iff not_less)
  have "set v \<inter> {CHR 0x5C, CHR 0x22, CHR 0x27} = {}" if "l = k @ ''='' @ v" "list_all env_char k" for k v
  proof -
    have "CHR ''='' \<notin> set k" using that(2) env_char_no_ctrl by (auto simp: list_all_iff)
    moreover have "\<not> starts_with l ''#''" using that env_char_no_ctrl by (cases k) auto
    ultimately have "env_value l = v"
      using that(1) split_once_append [of "CHR ''=''" k v] by (simp add: env_value_def)
    then show ?thesis using assms by (auto simp: unsafe_env_line_def has_quote_def list_ex_iff)
  qed
  then show "l = [] \<or> starts_with l ''#''
      \<or> (\<exists>k v. l = k @ ''='' @ v \<and> list_all env_char k \<and> set v \<inter> {CHR 0x5C, CHR 0x22, CHR 0x27} = {})"
    using assms by (auto simp: good_line_def assigns_def)
qed

text \<open>A call sign with a line feed in it, one with the control character 0x85, and one radiod with a
  client bound to it.\<close>

definition with_call :: "string \<Rightarrow> coordination" where
  "with_call s = empty_coordination\<lparr>co_host := (co_host empty_coordination)\<lparr>ho_call := PStr s\<rparr>\<rparr>"

abbreviation bad_call :: coordination where
  "bad_call \<equiv> with_call (''AC0G'' @ [newline] @ ''LD_PRELOAD=/tmp/x.so'')"

definition one_binding :: coordination where
  "one_binding = (with_call ''AC0G'')
     \<lparr>co_clients := [\<lparr> ci_type = ''psk-recorder'', ci_instance = PStr ''AC0G=B1'',
        ci_radiod_id = PStr ''bee1-status.local'', ci_extras = [] \<rparr>]\<rparr>"



text \<open>Reading the file back.  A plain value that the coordination assigns to a variable, and that no
  other line assigns, is what a reader of the file finds under that name, provided no line holds
  the control character 0x85 (which the guard lets through although the reader breaks lines at
  it).\<close>

theorem env_round_trip:
  assumes "env_lines repr passthrough receivers c = Inr ls"
    and "render_env repr passthrough receivers c = Inr (text, ws)"
    and "k @ ''='' @ v \<in> set ls" and "list_all env_char k" and "plain_value v"
    and "\<forall>w. k @ ''='' @ w \<in> set ls \<longrightarrow> w = v"
    and "list_all (\<lambda>l. CHR 0x85 \<notin> set l) ls"
  shows "map_of (parse_env_text text) k = Some v"
proof -
  let ?xs = "split_on newline (env_body ls)"
  have "text = env_body ls @ [newline]" using assms(1,2) by (auto simp: render_env_def env_text_body)
  also have "\<dots> = unlines ?xs"
    using join_split [of newline "env_body ls"] join_unlines [OF split_on_not_Nil, of newline] by metis
  finally have eq: "text = unlines ?xs" .
  have one: "list_all one_line ?xs"
  proof -
    have "one_line x" if x: "x \<in> set ?xs" for x
    proof -
      obtain t where t: "x @ t \<in> set ls" "\<not> unsafe_env_line (x @ t)" using body_lines [OF assms(1) x] by blast
      have "CHR 0x85 \<notin> set x" using t(1) assms(7) by (auto simp: list_all_iff)
      then have "\<forall>c \<in> set x. (of_char c :: nat) \<noteq> 133"
        using char_0x85 by blast
      moreover have "\<forall>c \<in> set x. \<not> (of_char c :: nat) < 32"
        using t(2) by (simp add: unsafe_env_line_def has_ctrl_def list_ex_iff)
      ultimately have "\<not> is_break c" if "c \<in> set x" for c
        using that by (auto simp: is_break_def Let_def dest!: bspec [OF _ that])
      then show ?thesis by (simp add: one_line_def list_ex_iff)
    qed
    then show ?thesis by (simp add: list_all_iff)
  qed
  have line: "k @ ''='' @ v \<in> set ?xs"
  proof (rule body_keeps [OF assms(1,3)])
    show "\<not> unsafe_env_line (k @ ''='' @ v)" by (rule plain_line_safe [OF assms(4,5)])
    show "\<not> is_space (last (k @ ''='' @ v))" using assms(5) by (simp add: plain_value_def)
  qed simp
  show ?thesis
    unfolding eq parse_env_text_def splitlines_unlines [OF one]
  proof (rule fold_reaches [OF line])
    fix u
    show "map_of (parse_env_line (k @ ''='' @ v) u) k = Some v"
      using parse_plain [OF assms(4,5), of u] by (simp add: update_conv)
  next
    fix y u
    assume y: "y \<in> set ?xs" and u: "map_of u k = Some v"
    obtain t where t: "y @ t \<in> set ls" "\<not> unsafe_env_line (y @ t)" "list_all is_space t"
      using body_lines [OF assms(1) y] by blast
    show "map_of (parse_env_line y u) k = Some v"
    proof (cases "\<exists>w. y = k @ ''='' @ w")
      case True
      then obtain w where w: "y = k @ ''='' @ w" by blast
      with t(1) assms(6) have "w @ t = v" by simp
      moreover have "t = []" using calculation t(3) assms(5)
        by (cases t rule: rev_cases) (auto simp: plain_value_def)
      ultimately show ?thesis using w parse_plain [OF assms(4,5), of u] by (simp add: update_conv)
    next
      case False
      moreover have "good_line y" using good_prefix [OF _ t(3)] t(1) env_lines_good [OF assms(1)]
        by (auto simp: list_all_iff)
      ultimately show ?thesis using parse_other u by metis
    qed
  qed
qed

theorem env_round_trip_witness:
  "map_of (parse_env_text (fst (projr (render_env (\<lambda>_. []) (\<lambda>_. Inr []) [] one_binding))))
     ''PSK_RECORDER_AC0G_B1_RADIOD'' = Some ''bee1-status.local''"
proof -
  let ?lines = "env_lines (\<lambda>_. []) (\<lambda>_. Inr []) [] one_binding"
  let ?k = "''PSK_RECORDER_AC0G_B1_RADIOD''" and ?v = "''bee1-status.local''"
  have "\<not> isl ?lines" by code_simp
  then obtain ls where ls: "?lines = Inr ls" by (cases ?lines) auto
  then have eq: "ls = projr ?lines" by simp
  have facts: "?k @ ''='' @ ?v \<in> set ls" "list_all env_char ?k" "plain_value ?v"
    "list_all (\<lambda>l. starts_with l (?k @ ''='') \<longrightarrow> l = ?k @ ''='' @ ?v) ls"
    "list_all (\<lambda>l. CHR 0x85 \<notin> set l) ls"
    unfolding eq by code_simp+
  have "\<forall>w. ?k @ ''='' @ w \<in> set ls \<longrightarrow> w = ?v"
    using facts(4) by (fastforce simp: list_all_iff dest: bspec)
  moreover obtain t ws where "render_env (\<lambda>_. []) (\<lambda>_. Inr []) [] one_binding = Inr (t, ws)"
    using ls by (auto simp: render_env_def)
  ultimately show ?thesis
    using env_round_trip [OF ls _ facts(1-3) _ facts(5)] by simp
qed

text \<open>The guard does not look for 0x85: a value that holds it starts a variable for this repository's
  own reader.  Two ids that differ only in punctuation render to the same variables.\<close>

lemma next_line_starts_variable:
  "map_of (parse_env_text (fst (projr (render_env (\<lambda>_. []) (\<lambda>_. Inr []) []
     (with_call (''AC0G'' @ [CHR 0x85] @ ''LD_PRELOAD=/tmp/x.so'')))))) ''LD_PRELOAD'' = Some ''/tmp/x.so''"
  by code_simp

lemma ids_collide:
  "env_key repr [PStr ''RADIOD'', PStr ''bee-1''] = env_key repr [PStr ''RADIOD'', PStr ''bee_1'']"
  by code_simp

text \<open>An empty file gives what an absent one gives.\<close>

lemma parse_empty: "parse_coordination repr [] = Inr empty_coordination"
  by (simp add: parse_coordination_def empty_coordination_def sub_table_def or_dict_def parse_host_def
      float_or_zero_def parse_station_def text_field_def or_empty_def flag_of_def parse_cpu_def int_or_def
      parse_authority_def parse_heartbeat_def parse_uploads_def lower_def new_uploads_def strip_def
      lstrip_def rstrip_def)

end
