(* ===== verification/CoordEdit.thy ===== *)
theory CoordEdit
  imports CoordEnv
begin

text \<open>
  The line-based edits of the coordination file (\<open>src/lib/sigmond/coordination.py\<close>): the identity
  sections and the bindings of clients to radiods.  The parser of the file's text (\<open>tomllib\<close>) is the
  parameter \<open>toml\<close>; the new text is the result, \<open>None\<close> when the call leaves the file alone.  The
  host name test is that of \<open>src/lib/sigmond/sources.py\<close>.
\<close>

section \<open>Lines with their ends\<close>

text \<open>\<open>s.splitlines(keepends=True)\<close>.\<close>

fun lines_keep_acc :: "string \<Rightarrow> string \<Rightarrow> string list" where
  "lines_keep_acc acc [] = (if acc = [] then [] else [rev acc])"
| "lines_keep_acc acc (x # xs) =
     (if is_break x \<and> \<not> (x = CHR 0x0D \<and> starts_with xs [newline])
      then rev (x # acc) # lines_keep_acc [] xs else lines_keep_acc (x # acc) xs)"

definition lines_keep :: "string \<Rightarrow> string list" where
  "lines_keep s = lines_keep_acc [] s"

text \<open>A line that opens a table.\<close>

definition opens :: "string \<Rightarrow> bool" where
  "opens l = starts_with (lstrip l) ''[''"

section \<open>The identity sections\<close>

definition merge_section :: "string \<Rightarrow> string \<Rightarrow> string \<Rightarrow> string" where
  "merge_section header block existing =
     (let ls = lines_keep existing; rest = dropWhile (\<lambda>l. strip l \<noteq> header) ls in
      case rest of
        [] \<Rightarrow> block @ (if strip existing \<noteq> [] then newline # existing else [])
      | _ # after \<Rightarrow> concat (takeWhile (\<lambda>l. strip l \<noteq> header) ls) @ block
          @ concat (dropWhile (\<lambda>l. \<not> opens l) after))"

definition section_text :: "string \<Rightarrow> string list \<Rightarrow> string" where
  "section_text header fs = header @ [newline] @ join_on [newline] fs @ [newline]"

definition write_section ::
  "string \<Rightarrow> string list \<Rightarrow> string option \<Rightarrow> string option" where
  "write_section header fs file =
     (if fs = [] then None
      else let existing = (case file of None \<Rightarrow> [] | Some t \<Rightarrow> t);
               new = merge_section header (section_text header fs) existing in
           if new = existing then None else Some new)"

definition load_text ::
  "(pyval \<Rightarrow> string) \<Rightarrow> (string \<Rightarrow> py_error + (string, pyval) dict) \<Rightarrow> string option \<Rightarrow>
   py_error + coordination" where
  "load_text repr toml file = (case file of None \<Rightarrow> load_coordination repr None
     | Some t \<Rightarrow> ebind (toml t) (\<lambda>raw. load_coordination repr (Some raw)))"

definition quoted_field :: "string \<Rightarrow> string \<Rightarrow> string" where
  "quoted_field k v = k @ '' = \"'' @ v @ ''\"''"

definition host_fields ::
  "(pyval \<Rightarrow> string) \<Rightarrow> string \<Rightarrow> string \<Rightarrow> pyfloat \<Rightarrow> pyfloat \<Rightarrow> host \<Rightarrow> string list" where
  "host_fields repr call grid lat lon cur =
     (let call = (if call = [] then ho_call cur else PStr call);
          grid = (if grid = [] then ho_grid cur else PStr grid);
          lat = (if lat = Fin 0 then ho_lat cur else lat);
          lon = (if lon = Fin 0 then ho_lon cur else lon) in
      (if py_truthy call then [quoted_field ''call'' (py_str repr call)] else [])
      @ (if py_truthy grid then [quoted_field ''grid'' (py_str repr grid)] else [])
      @ (if lat \<noteq> Fin 0 then [''lat = '' @ repr (PFloat lat)] else [])
      @ (if lon \<noteq> Fin 0 then [''lon = '' @ repr (PFloat lon)] else []))"

definition write_host_identity ::
  "(pyval \<Rightarrow> string) \<Rightarrow> (string \<Rightarrow> py_error + (string, pyval) dict) \<Rightarrow>
   string \<Rightarrow> string \<Rightarrow> pyfloat \<Rightarrow> pyfloat \<Rightarrow> string option \<Rightarrow> py_error + string option" where
  "write_host_identity repr toml call grid lat lon file =
     ebind (load_text repr toml file) (\<lambda>c.
     Inr (write_section ''[host]'' (host_fields repr call grid lat lon (co_host c)) file))"

definition station_fields :: "string \<Rightarrow> station \<Rightarrow> string list" where
  "station_fields reporter cur =
     (let reporter = (if strip reporter = [] then sn_reporter_id cur else strip reporter) in
      map (\<lambda>(k, v). quoted_field k v) (filter (\<lambda>(k, v). v \<noteq> [])
        [(''reporter_id'', reporter), (''psws_id'', sn_psws_id cur), (''instrument_id'', sn_instrument_id cur),
         (''wsprnet_call'', sn_wsprnet_call cur), (''pskreporter_call'', sn_pskreporter_call cur)]))"

definition write_station_identity ::
  "(pyval \<Rightarrow> string) \<Rightarrow> (string \<Rightarrow> py_error + (string, pyval) dict) \<Rightarrow> string \<Rightarrow> string option \<Rightarrow>
   py_error + string option" where
  "write_station_identity repr toml reporter file =
     ebind (load_text repr toml file) (\<lambda>c.
     Inr (write_section ''[station]'' (station_fields reporter (co_station c)) file))"

section \<open>Names\<close>

definition basic_string :: "string \<Rightarrow> py_error + string" where
  "basic_string v =
     (if list_ex (\<lambda>c. let n = of_char c :: nat in n < 32 \<or> 127 \<le> n \<and> n \<le> 159) v
      then Inl (ValueError ''control character'')
      else Inr (''\"'' @ concat (map (\<lambda>c. if c = CHR 0x5C \<or> c = CHR 0x22 then [CHR 0x5C, c] else [c]) v) @ ''\"''))"

definition ascii_alnum :: "char \<Rightarrow> bool" where
  "ascii_alnum c = (is_digit c \<or> is_upper c \<or> is_lower c)"

definition mdns_label :: "string \<Rightarrow> bool" where
  "mdns_label l = (l \<noteq> [] \<and> length l \<le> 63 \<and> ascii_alnum (hd l) \<and> ascii_alnum (last l)
     \<and> list_all (\<lambda>c. ascii_alnum c \<or> c = CHR ''-'') l)"

definition valid_mdns_hostname :: "string \<Rightarrow> bool" where
  "valid_mdns_hostname name =
     (0 < length name \<and> length name \<le> 253 \<and> list_all mdns_label (split_on (CHR ''.'') name))"

definition RADIOD_ID :: "string \<Rightarrow> bool" where
  "RADIOD_ID s = (case s of [] \<Rightarrow> False | c # cs \<Rightarrow> ascii_alnum c \<and> length cs \<le> 252
     \<and> list_all (\<lambda>c. ascii_alnum c \<or> c \<in> {CHR ''.'', CHR ''_'', CHR ''-''}) cs)"

definition name_bare :: "char \<Rightarrow> bool" where
  "name_bare c = (ascii_alnum c \<or> c \<in> {CHR ''_'', CHR ''-''})"

definition BARE_NAME :: "string \<Rightarrow> bool" where
  "BARE_NAME s = (s \<noteq> [] \<and> list_all name_bare s)"

definition INSTANCE_NAME :: "string \<Rightarrow> bool" where
  "INSTANCE_NAME s = list_all (\<lambda>c. ascii_alnum c \<or> c \<in> {CHR ''='', CHR ''-''}) s"

section \<open>Radiod blocks\<close>

text \<open>\<open>(r.effective_status_dns or '').lower()\<close> raises when the field is no string.\<close>

definition status_is :: "string \<Rightarrow> string \<times> radiod \<Rightarrow> py_error + bool" where
  "status_is want entry = (case entry of (rid, r) \<Rightarrow>
     if lower rid = want then Inr True
     else case effective_status_dns r of PStr s \<Rightarrow> Inr (lower s = want) | _ \<Rightarrow> Inl AttributeError)"

fun radiod_for :: "string \<Rightarrow> (string, radiod) dict \<Rightarrow> py_error + string option" where
  "radiod_for want [] = Inr None"
| "radiod_for want (e # es) = ebind (status_is want e) (\<lambda>hit.
     if hit then Inr (Some (fst e)) else radiod_for want es)"

definition radiod_id_for_status :: "coordination \<Rightarrow> string \<Rightarrow> py_error + string option" where
  "radiod_id_for_status c status = radiod_for (lower status) (co_radiods c)"

definition require_hostname :: "string \<Rightarrow> string \<Rightarrow> py_error + unit" where
  "require_hostname what v = (if valid_mdns_hostname v then Inr () else Inl (ValueError what))"

definition append_block :: "string \<Rightarrow> string \<Rightarrow> string" where
  "append_block existing block =
     (let e = (if existing \<noteq> [] \<and> \<not> ends_with existing [newline] then existing @ [newline] else existing) in
      e @ (if strip e \<noteq> [] then [newline] else []) @ block)"

definition ensure_radiod_block ::
  "(pyval \<Rightarrow> string) \<Rightarrow> (string \<Rightarrow> py_error + (string, pyval) dict) \<Rightarrow> string \<Rightarrow> string \<Rightarrow> string option \<Rightarrow>
   py_error + string option" where
  "ensure_radiod_block repr toml status host file =
     (let host = (if host = [] then status else host) in
      ebind (require_hostname ''radiod status name'' status) (\<lambda>_.
      ebind (require_hostname ''radiod host'' host) (\<lambda>_.
      ebind (load_text repr toml file) (\<lambda>c.
      ebind (radiod_id_for_status c status) (\<lambda>found.
      if found \<noteq> None \<and> found \<noteq> Some [] then Inr None
      else
        ebind (basic_string status) (\<lambda>s. ebind (basic_string host) (\<lambda>h.
        Inr (Some (append_block (case file of None \<Rightarrow> [] | Some t \<Rightarrow> t)
          (''[radiod.'' @ s @ '']'' @ [newline] @ ''host       = '' @ h @ [newline]
            @ ''status_dns = '' @ s @ [newline]))))))))))"

section \<open>Bindings\<close>

text \<open>The header of a \<open>[[clients.NAME]]\<close> table and the lines \<open>key = "..."\<close>, as the patterns match
  them.\<close>

definition after :: "string \<Rightarrow> string \<Rightarrow> string option" where
  "after p s = (if starts_with s p then Some (drop (length p) s) else None)"

definition rstrip_crlf :: "string \<Rightarrow> string" where
  "rstrip_crlf s = rev (dropWhile (\<lambda>c. c \<in> {CHR 0x0D, newline}) (rev s))"

definition closes_header :: "string \<Rightarrow> bool" where
  "closes_header s = (case after '']]'' (lstrip s) of None \<Rightarrow> False
     | Some t \<Rightarrow> lstrip t = [] \<or> starts_with (lstrip t) ''#'')"

definition clients_header :: "string \<Rightarrow> string option" where
  "clients_header l =
     (case after ''[['' (lstrip l) of None \<Rightarrow> None | Some s \<Rightarrow>
      case after ''clients.'' (lstrip s) of None \<Rightarrow> None | Some s \<Rightarrow>
      if starts_with s ''\"'' then
        (let (name, rest) = (takeWhile (\<lambda>c. c \<noteq> CHR 0x22) (tl s), dropWhile (\<lambda>c. c \<noteq> CHR 0x22) (tl s)) in
         if name \<noteq> [] \<and> rest \<noteq> [] \<and> closes_header (tl rest) then Some name else None)
      else
        (let (name, rest) = (takeWhile name_bare s, dropWhile name_bare s) in
         if name \<noteq> [] \<and> closes_header rest then Some name else None))"

definition header_name :: "string \<Rightarrow> string option" where
  "header_name l = clients_header (rstrip_crlf l)"

definition kv_line :: "string \<Rightarrow> string \<Rightarrow> string option" where
  "kv_line key l =
     (case after key (lstrip l) of None \<Rightarrow> None | Some s \<Rightarrow>
      case after ''='' (lstrip s) of None \<Rightarrow> None | Some s \<Rightarrow>
      case lstrip s of [] \<Rightarrow> None | q # s \<Rightarrow>
      if q \<in> {CHR 0x22, CHR 0x27} \<and> q \<in> set s \<and> newline \<notin> set (takeWhile (\<lambda>c. c \<noteq> q) s)
      then Some (takeWhile (\<lambda>c. c \<noteq> q) s) else None)"

text \<open>The lines of a table are those up to the next line that opens one; of several \<open>instance\<close> lines
  the last counts, and \<open>default\<close> when there is none.\<close>

definition instance_of :: "string list \<Rightarrow> string" where
  "instance_of body = fold (\<lambda>l i. case kv_line ''instance'' l of None \<Rightarrow> i | Some v \<Rightarrow> v) body ''default''"

fun rad_at :: "nat \<Rightarrow> string list \<Rightarrow> nat option" where
  "rad_at j [] = None"
| "rad_at j (l # ls) = (case rad_at (Suc j) ls of Some k \<Rightarrow> Some k
     | None \<Rightarrow> if kv_line ''radiod_id'' l \<noteq> None then Some j else None)"

datatype rebound = Missing | Same | Changed "string list"

definition rebind_body :: "string \<Rightarrow> string \<Rightarrow> string list \<Rightarrow> rebound" where
  "rebind_body rid new_line body =
     (case rad_at 0 body of
        Some j \<Rightarrow> if kv_line ''radiod_id'' (body ! j) = Some rid then Same else Changed (body[j := new_line])
      | None \<Rightarrow> Changed (new_line # body))"

definition prepend :: "string \<Rightarrow> rebound \<Rightarrow> rebound" where
  "prepend l r = (case r of Changed ls \<Rightarrow> Changed (l # ls) | _ \<Rightarrow> r)"

fun rebind :: "string \<Rightarrow> string \<Rightarrow> string \<Rightarrow> string \<Rightarrow> string list \<Rightarrow> rebound" where
  "rebind client inst rid new_line [] = Missing"
| "rebind client inst rid new_line (l # ls) =
     (let body = takeWhile (\<lambda>l. \<not> opens l) ls in
      if header_name l = Some client \<and> instance_of body = inst then
        (case rebind_body rid new_line body of
           Changed b \<Rightarrow> Changed (l # b @ dropWhile (\<lambda>l. \<not> opens l) ls) | r \<Rightarrow> r)
      else prepend l (rebind client inst rid new_line ls))"

definition ensure_client_binding ::
  "string \<Rightarrow> string \<Rightarrow> string \<Rightarrow> string option \<Rightarrow> py_error + string option" where
  "ensure_client_binding client inst rid file =
     (if \<not> RADIOD_ID rid then Inl (ValueError ''radiod id'')
      else if \<not> BARE_NAME client then Inl (ValueError ''client name'')
      else if \<not> INSTANCE_NAME inst then Inl (ValueError ''instance'')
      else let existing = (case file of None \<Rightarrow> [] | Some t \<Rightarrow> t) in
        ebind (basic_string rid) (\<lambda>r. ebind (basic_string inst) (\<lambda>i.
        let new_line = ''radiod_id = '' @ r @ [newline] in
        Inr (case rebind client inst rid new_line (lines_keep existing) of
            Same \<Rightarrow> None
          | Changed ls \<Rightarrow> Some (concat ls)
          | Missing \<Rightarrow> Some (append_block existing
              (''[[clients.'' @ client @ '']]'' @ [newline] @ ''instance  = '' @ i @ [newline]
                @ ''radiod_id = '' @ r @ [newline]))))))"

section \<open>What a binding edit does\<close>

text \<open>The file seen as the list of its client tables: the client, the instance and the radiod it
  names.  The edit as it should be: the first table of the client and instance names the radiod,
  and there is a new table at the end when there was none.\<close>

definition radiod_of :: "string list \<Rightarrow> string option" where
  "radiod_of body = (case rad_at 0 body of None \<Rightarrow> None | Some j \<Rightarrow> kv_line ''radiod_id'' (body ! j))"

fun entries :: "string list \<Rightarrow> (string \<times> string \<times> string option) list" where
  "entries [] = []"
| "entries (l # ls) =
     (case header_name l of None \<Rightarrow> entries ls
      | Some c \<Rightarrow> (let body = takeWhile (\<lambda>l. \<not> opens l) ls in (c, instance_of body, radiod_of body)) # entries ls)"

fun rebind_entries ::
  "string \<Rightarrow> string \<Rightarrow> string \<Rightarrow> (string \<times> string \<times> string option) list \<Rightarrow>
   (string \<times> string \<times> string option) list" where
  "rebind_entries client inst rid [] = [(client, inst, Some rid)]"
| "rebind_entries client inst rid ((c, i, r) # es) =
     (if c = client \<and> i = inst then (c, i, Some rid) # es else (c, i, r) # rebind_entries client inst rid es)"

lemma lstrip_append: "lstrip p \<noteq> [] \<Longrightarrow> lstrip (p @ t) = lstrip p @ t"
  by (auto simp: lstrip_def dropWhile_append)

lemma starts_with_longer: "starts_with s p \<Longrightarrow> starts_with (s @ t) p"
  by (auto simp: starts_with_iff)

lemma header_opens: "header_name l = Some c \<Longrightarrow> opens l"
proof -
  assume "header_name l = Some c"
  then have h: "starts_with (lstrip (rstrip_crlf l)) ''[[''"
    by (auto simp: header_name_def clients_header_def after_def split: if_splits)
  obtain t where "l = rstrip_crlf l @ t"
    unfolding rstrip_crlf_def by (metis rev_append rev_rev_ident takeWhile_dropWhile_id)
  moreover have "lstrip (rstrip_crlf l) \<noteq> []" using h by auto
  ultimately have "lstrip l = lstrip (rstrip_crlf l) @ t" using lstrip_append by metis
  then show "opens l" using h by (auto simp: opens_def starts_with_iff)
qed

lemma not_opens_header: "\<not> opens l \<Longrightarrow> header_name l = None"
  using header_opens by (cases "header_name l") auto

lemma entries_skip: "list_all (\<lambda>l. \<not> opens l) body \<Longrightarrow> entries (body @ rest) = entries rest"
  by (induction body) (simp_all add: not_opens_header)

lemma entries_table:
  "header_name l = Some c \<Longrightarrow> list_all (\<lambda>l. \<not> opens l) body \<Longrightarrow> rest = [] \<or> opens (hd rest) \<Longrightarrow>
   entries (l # body @ rest) = (c, instance_of body, radiod_of body) # entries rest"
proof -
  assume h: "header_name l = Some c" and body: "list_all (\<lambda>l. \<not> opens l) body"
    and rest: "rest = [] \<or> opens (hd rest)"
  have "takeWhile (\<lambda>l. \<not> opens l) rest = []" using rest by (cases rest) simp_all
  then have "takeWhile (\<lambda>l. \<not> opens l) (body @ rest) = body"
    using body by (simp add: list_all_iff takeWhile_append2)
  with h body show ?thesis by (simp add: entries_skip Let_def)
qed

lemma kv_exclusive: "kv_line ''radiod_id'' l \<noteq> None \<Longrightarrow> kv_line ''instance'' l = None"
  by (cases "lstrip l") (auto simp: kv_line_def after_def)

lemma rad_at_None: "rad_at n ls = None \<longleftrightarrow> list_all (\<lambda>l. kv_line ''radiod_id'' l = None) ls"
  by (induction ls arbitrary: n) (auto split: option.splits)

lemma rad_at_Some:
  "rad_at n ls = Some k \<Longrightarrow> n \<le> k \<and> k < n + length ls \<and> kv_line ''radiod_id'' (ls ! (k - n)) \<noteq> None"
proof (induction ls arbitrary: n)
  case (Cons l ls)
  show ?case
  proof (cases "rad_at (Suc n) ls")
    case None
    with Cons.prems show ?thesis by (auto split: if_splits)
  next
    case (Some j)
    with Cons.prems Cons.IH [of "Suc n"] show ?thesis by (auto simp: nth_Cons' Suc_diff_le)
  qed
qed simp

lemma rad_at_update:
  "rad_at n ls = Some k \<Longrightarrow> kv_line ''radiod_id'' x \<noteq> None \<Longrightarrow> rad_at n (ls[k - n := x]) = Some k"
proof (induction ls arbitrary: n)
  case (Cons l ls)
  show ?case
  proof (cases "rad_at (Suc n) ls")
    case None
    with Cons.prems show ?thesis by (auto split: if_splits)
  next
    case (Some j)
    then have "Suc n \<le> k" using Cons.prems rad_at_Some [OF Some] by simp
    then have "k - n = Suc (k - Suc n)" by (metis Suc_diff_Suc Suc_le_lessD)
    with Some Cons.prems Cons.IH [of "Suc n"] show ?thesis by simp
  qed
qed simp

lemma instance_of_update:
  assumes "j < length body" and "kv_line ''instance'' (body ! j) = None" and "kv_line ''instance'' x = None"
  shows "instance_of (body[j := x]) = instance_of body"
proof -
  have "body = take j body @ body ! j # drop (Suc j) body" using assms(1) by (rule id_take_nth_drop)
  moreover have "body[j := x] = take j body @ x # drop (Suc j) body"
    using assms(1) by (rule upd_conv_take_nth_drop)
  moreover have "instance_of (xs @ y # ys) = instance_of (xs @ ys)" if "kv_line ''instance'' y = None" for xs y ys
    using that by (simp add: instance_of_def)
  ultimately show ?thesis using assms(2,3) by metis
qed

text \<open>A line the edit writes.\<close>

definition binding_line :: "string \<Rightarrow> string \<Rightarrow> bool" where
  "binding_line rid l = (kv_line ''radiod_id'' l = Some rid \<and> kv_line ''instance'' l = None \<and> \<not> opens l)"

lemma rebind_body_changed:
  assumes "rebind_body rid new_line body = Changed b" and "binding_line rid new_line"
    and "list_all (\<lambda>l. \<not> opens l) body"
  shows "instance_of b = instance_of body" "radiod_of b = Some rid" "list_all (\<lambda>l. \<not> opens l) b"
    "radiod_of body \<noteq> Some rid"
proof -
  have new: "kv_line ''radiod_id'' new_line = Some rid" "kv_line ''instance'' new_line = None" "\<not> opens new_line"
    using assms(2) by (simp_all add: binding_line_def)
  consider j where "rad_at 0 body = Some j" "b = body[j := new_line]" "kv_line ''radiod_id'' (body ! j) \<noteq> Some rid"
    | "rad_at 0 body = None" "b = new_line # body"
    using assms(1) by (auto simp: rebind_body_def split: option.splits if_splits)
  then have "instance_of b = instance_of body \<and> radiod_of b = Some rid \<and> list_all (\<lambda>l. \<not> opens l) b
    \<and> radiod_of body \<noteq> Some rid"
  proof (cases, intro conjI)
    case (1 j)
    note at = rad_at_Some [OF 1(1)]
    have "rad_at 0 b = Some j" using rad_at_update [OF 1(1), of new_line] new(1) 1(2) by simp
    with at new(1) 1(2) show "radiod_of b = Some rid" by (simp add: radiod_of_def)
    show "radiod_of body \<noteq> Some rid" using 1(1,3) by (simp add: radiod_of_def)
    show "instance_of b = instance_of body"
      unfolding 1(2) by (rule instance_of_update) (use at new kv_exclusive in auto)
    show "list_all (\<lambda>l. \<not> opens l) b"
      using assms(3) new(3) set_update_subset_insert [of body j new_line] unfolding 1(2) list_all_iff by blast
  next
    assume 2: "rad_at 0 body = None" "b = new_line # body"
    then have none: "list_all (\<lambda>l. kv_line ''radiod_id'' l = None) body" by (simp add: rad_at_None)
    have "rad_at 1 body = None" using none by (simp add: rad_at_None)
    then have "rad_at 0 b = Some 0" using new(1) by (simp add: 2(2))
    then have "radiod_of b = Some rid" using new(1) by (simp add: radiod_of_def 2(2))
    then show "instance_of b = instance_of body \<and> radiod_of b = Some rid \<and> list_all (\<lambda>l. \<not> opens l) b
      \<and> radiod_of body \<noteq> Some rid"
      using 2 new(2,3) assms(3) by (simp add: radiod_of_def instance_of_def)
  qed
  then show "instance_of b = instance_of body" "radiod_of b = Some rid" "list_all (\<lambda>l. \<not> opens l) b"
    "radiod_of body \<noteq> Some rid" by simp_all
qed

lemma rebind_body_same: "rebind_body rid new_line body = Same \<Longrightarrow> radiod_of body = Some rid"
  by (auto simp: rebind_body_def radiod_of_def split: option.splits if_splits)

lemma rebind_body_cases: "rebind_body rid new_line body \<noteq> Missing"
  by (simp add: rebind_body_def split: option.split)

lemma split_table:
  "ls = takeWhile (\<lambda>l. \<not> opens l) ls @ dropWhile (\<lambda>l. \<not> opens l) ls"
  "list_all (\<lambda>l. \<not> opens l) (takeWhile (\<lambda>l. \<not> opens l) ls)"
  "dropWhile (\<lambda>l. \<not> opens l) ls = [] \<or> opens (hd (dropWhile (\<lambda>l. \<not> opens l) ls))"
  using hd_dropWhile [of "\<lambda>l. \<not> opens l" ls] by (auto simp: list_all_iff dest: set_takeWhileD)

lemma entries_own:
  "header_name l = Some c \<Longrightarrow> entries (l # ls) =
   (c, instance_of (takeWhile (\<lambda>l. \<not> opens l) ls), radiod_of (takeWhile (\<lambda>l. \<not> opens l) ls))
     # entries (dropWhile (\<lambda>l. \<not> opens l) ls)"
  using entries_table [of l c "takeWhile (\<lambda>l. \<not> opens l) ls" "dropWhile (\<lambda>l. \<not> opens l) ls"] split_table [of ls]
  by simp

lemma prepend_eq:
  "prepend l r = Changed ls \<longleftrightarrow> (\<exists>ls'. r = Changed ls' \<and> ls = l # ls')"
  "prepend l r = Same \<longleftrightarrow> r = Same" "prepend l r = Missing \<longleftrightarrow> r = Missing"
  by (cases r; auto simp: prepend_def)+

text \<open>The own table of the client and instance, met at \<open>l\<close>.\<close>

lemma rebind_own:
  assumes "header_name l = Some client" and "instance_of (takeWhile (\<lambda>l. \<not> opens l) ls) = inst"
    and "binding_line rid new_line"
  shows "rebind client inst rid new_line (l # ls) = Same \<and> radiod_of (takeWhile (\<lambda>l. \<not> opens l) ls) = Some rid
    \<or> (\<exists>b. rebind client inst rid new_line (l # ls) = Changed (l # b @ dropWhile (\<lambda>l. \<not> opens l) ls)
        \<and> entries (l # b @ dropWhile (\<lambda>l. \<not> opens l) ls)
            = (client, inst, Some rid) # entries (dropWhile (\<lambda>l. \<not> opens l) ls)
        \<and> radiod_of (takeWhile (\<lambda>l. \<not> opens l) ls) \<noteq> Some rid)"
proof (cases "rebind_body rid new_line (takeWhile (\<lambda>l. \<not> opens l) ls)")
  case Missing
  then show ?thesis using rebind_body_cases by blast
next
  case Same
  then show ?thesis using assms rebind_body_same [OF Same] by (simp add: Let_def)
next
  case (Changed b)
  note b = rebind_body_changed [OF Changed assms(3) split_table(2)]
  have "entries (l # b @ dropWhile (\<lambda>l. \<not> opens l) ls)
      = (client, inst, Some rid) # entries (dropWhile (\<lambda>l. \<not> opens l) ls)"
    using entries_table [OF assms(1) b(3) split_table(3)] b(1,2) assms(2) by simp
  with Changed assms b(4) show ?thesis by (simp add: Let_def)
qed

lemma rebind_before:
  assumes "rebind client inst rid new_line ls = Changed ls'"
  shows "takeWhile (\<lambda>l. \<not> opens l) ls' = takeWhile (\<lambda>l. \<not> opens l) ls"
  using assms
proof (induction ls arbitrary: ls')
  case (Cons l ls)
  show ?case
  proof (cases "header_name l = Some client \<and> instance_of (takeWhile (\<lambda>l. \<not> opens l) ls) = inst")
    case True
    then show ?thesis using Cons.prems header_opens [of l client]
      by (auto simp: Let_def split: rebound.splits)
  next
    case False
    then obtain l2 where "rebind client inst rid new_line ls = Changed l2" "ls' = l # l2"
      using Cons.prems by (auto simp: Let_def prepend_eq)
    then show ?thesis using Cons.IH by simp
  qed
qed simp

lemma rebind_entries_correct:
  assumes "binding_line rid new_line"
  shows "(case rebind client inst rid new_line ls of
      Missing \<Rightarrow> rebind_entries client inst rid (entries ls) = entries ls @ [(client, inst, Some rid)]
    | Same \<Rightarrow> rebind_entries client inst rid (entries ls) = entries ls
    | Changed ls' \<Rightarrow> entries ls' = rebind_entries client inst rid (entries ls) \<and> entries ls' \<noteq> entries ls)"
proof (induction ls)
  case (Cons l ls)
  let ?body = "takeWhile (\<lambda>l. \<not> opens l) ls"
  show ?case
  proof (cases "header_name l = Some client \<and> instance_of ?body = inst")
    case True
    then show ?thesis
      using rebind_own [of l client ls inst rid new_line] assms entries_own [of l client ls]
      by (auto simp del: rebind.simps entries.simps)
  next
    case False
    then have step: "rebind client inst rid new_line (l # ls) = prepend l (rebind client inst rid new_line ls)"
      by (auto simp: Let_def)
    show ?thesis
    proof (cases "header_name l")
      case None
      then show ?thesis using Cons.IH
        by (cases "rebind client inst rid new_line ls") (auto simp: step prepend_def)
    next
      case (Some c)
      let ?e = "(c, instance_of ?body, radiod_of ?body)"
      have whole: "entries (l # ls) = ?e # entries ls" using Some by (simp add: Let_def)
      have spec: "rebind_entries client inst rid (?e # entries ls) = ?e # rebind_entries client inst rid (entries ls)"
        using False Some by auto
      have part: "entries (l # l2) = ?e # entries l2" if "rebind client inst rid new_line ls = Changed l2" for l2
        using Some rebind_before [OF that] by (simp add: Let_def)
      show ?thesis
        unfolding step whole spec
        using Cons.IH part
        by (cases "rebind client inst rid new_line ls")
          (auto simp: prepend_def simp del: entries.simps rebind_entries.simps rebind.simps)
    qed
  qed
qed simp

lemma rebind_lines:
  assumes "rebind client inst rid new_line ls = Changed ls'" and "list_all P ls" and "P new_line"
  shows "list_all P ls'"
  using assms(1,2)
proof (induction ls arbitrary: ls')
  case (Cons l ls)
  have P: "\<forall>x \<in> set ls. P x" using Cons.prems(2) by (simp add: list_all_iff)
  show ?case
  proof (cases "header_name l = Some client \<and> instance_of (takeWhile (\<lambda>l. \<not> opens l) ls) = inst")
    case True
    then obtain b where b: "rebind_body rid new_line (takeWhile (\<lambda>l. \<not> opens l) ls) = Changed b"
      and ls': "ls' = l # b @ dropWhile (\<lambda>l. \<not> opens l) ls"
      using Cons.prems(1) by (auto simp: Let_def split: rebound.splits)
    have "\<forall>x \<in> set b. P x"
      using b P assms(3) set_update_subset_insert
      by (fastforce simp: rebind_body_def split: option.splits if_splits dest: set_takeWhileD)
    then show ?thesis using P Cons.prems(2) by (auto simp: ls' list_all_iff dest: set_dropWhileD)
  next
    case False
    then obtain l2 where "rebind client inst rid new_line ls = Changed l2" "ls' = l # l2"
      using Cons.prems(1) by (auto simp: Let_def prepend_eq)
    then show ?thesis using Cons.IH Cons.prems(2) by simp
  qed
qed simp

text \<open>A file of lines that each end in a line feed.\<close>

definition proper :: "string \<Rightarrow> bool" where
  "proper l = (\<exists>b. l = b @ [newline] \<and> one_line b)"

lemma lines_keep_line: "one_line b \<Longrightarrow> lines_keep_acc acc (b @ newline # s) = (rev acc @ b @ [newline]) # lines_keep_acc [] s"
  by (induction b arbitrary: acc) simp_all

lemma lines_keep_concat: "list_all proper ls \<Longrightarrow> lines_keep (concat ls) = ls"
proof -
  assume ok: "list_all proper ls"
  have "lines_keep_acc [] (concat ls) = ls"
    using ok
  proof (induction ls)
    case (Cons l ls)
    then obtain b where b: "l = b @ [newline]" "one_line b" by (auto simp: proper_def)
    then have "lines_keep_acc [] (concat (l # ls)) = l # lines_keep_acc [] (concat ls)"
      using lines_keep_line [of b "[]" "concat ls"] by simp
    with Cons show ?case by simp
  qed simp
  then show ?thesis by (simp add: lines_keep_def)
qed

lemma append_block_lines:
  assumes "list_all proper ls" and "list_all proper new"
  shows "\<exists>ws. append_block (concat ls) (concat new) = concat (ls @ ws @ new)
    \<and> set ws \<subseteq> {[newline]}"
proof -
  have "concat ls = [] \<or> ends_with (concat ls) [newline]"
  proof (cases ls rule: rev_cases)
    case (snoc ys y)
    then have "proper y" using assms(1) by simp
    then show ?thesis using snoc by (auto simp: proper_def ends_with_def)
  qed simp
  then have "append_block (concat ls) (concat new)
      = concat (ls @ (if strip (concat ls) \<noteq> [] then [[newline]] else []) @ new)"
    by (auto simp: append_block_def Let_def)
  moreover have "set (if strip (concat ls) \<noteq> [] then [[newline]] else []) \<subseteq> {[newline]}"
    by auto
  ultimately show ?thesis by blast
qed

lemma blank_line: "kv_line k [newline] = None" "\<not> opens [newline]"
  by (cases k; simp add: kv_line_def after_def lstrip_def is_space_def opens_def split: option.split)+

lemma rad_at_blank: "set ws \<subseteq> {[newline]} \<Longrightarrow> rad_at n (ls @ ws) = rad_at n ls"
proof (induction ls arbitrary: n)
  case Nil
  then show ?case using blank_line(1) by (auto simp: rad_at_None list_all_iff)
qed simp

lemma body_blank:
  assumes "set ws \<subseteq> {[newline]}"
  shows "instance_of (body @ ws) = instance_of body" "radiod_of (body @ ws) = radiod_of body"
proof -
  have "fold (\<lambda>l i. case kv_line ''instance'' l of None \<Rightarrow> i | Some v \<Rightarrow> v) ws d = d" for d
    using assms blank_line(1) by (induction ws) auto
  then show "instance_of (body @ ws) = instance_of body" by (simp add: instance_of_def)
  show "radiod_of (body @ ws) = radiod_of body"
    using rad_at_Some [of 0 body] by (auto simp: radiod_of_def rad_at_blank [OF assms] nth_append split: option.split)
qed

lemma entries_append:
  assumes "set ws \<subseteq> {[newline]}" and "opens hdr"
  shows "entries (ls @ ws @ hdr # rest) = entries ls @ entries (hdr # rest)"
proof (induction ls)
  case Nil
  have "list_all (\<lambda>l. \<not> opens l) ws" using assms(1) blank_line(2) by (auto simp: list_all_iff)
  then show ?case by (simp add: entries_skip)
next
  case (Cons l ls)
  show ?case
  proof (cases "header_name l")
    case None
    then show ?thesis using Cons.IH by simp
  next
    case (Some c)
    let ?n = "\<lambda>l. \<not> opens l"
    have ws: "takeWhile ?n (ws @ hdr # rest) = ws"
      using assms blank_line(2) by (subst takeWhile_append2) auto
    have "instance_of (takeWhile ?n (ls @ ws @ hdr # rest)) = instance_of (takeWhile ?n ls)
        \<and> radiod_of (takeWhile ?n (ls @ ws @ hdr # rest)) = radiod_of (takeWhile ?n ls)"
    proof (cases "list_all ?n ls")
      case True
      then have all: "\<forall>x \<in> set ls. ?n x" by (simp add: list_all_iff)
      then have "takeWhile ?n (ls @ ws @ hdr # rest) = ls @ ws" by (simp add: takeWhile_append2 ws)
      moreover have "takeWhile ?n ls = ls" using all by (simp only: takeWhile_eq_all_conv)
      ultimately have "takeWhile ?n (ls @ ws @ hdr # rest) = ls @ ws" "takeWhile ?n ls = ls" by (simp_all only:)
      then show ?thesis using body_blank [OF assms(1)] by (simp only: simp_thms)
    next
      case False
      then obtain x where "x \<in> set ls" "\<not> ?n x" by (auto simp: list_all_iff)
      then have "takeWhile ?n (ls @ ws @ hdr # rest) = takeWhile ?n ls" by (rule takeWhile_append1)
      then show ?thesis by simp
    qed
    then show ?thesis using Some Cons.IH by (simp add: Let_def)
  qed
qed

text \<open>The lines the edit writes read back as what was asked.\<close>

definition name_char :: "char \<Rightarrow> bool" where
  "name_char c = (ascii_alnum c \<or> c \<in> {CHR ''.'', CHR ''_'', CHR ''-'', CHR ''=''})"

lemma name_char_plain:
  assumes "name_char c"
  shows "c \<noteq> CHR 0x22" "c \<noteq> CHR 0x5C" "c \<noteq> newline" "\<not> is_break c" "\<not> (of_char c :: nat) < 32"
    "\<not> (127 \<le> (of_char c :: nat) \<and> (of_char c :: nat) \<le> 159)" "c \<noteq> CHR 0x0D" "c \<noteq> CHR '']''"
  using assms
  by (auto simp: name_char_def ascii_alnum_def is_digit_def is_upper_def is_lower_def is_break_def Let_def)

lemma names_plain:
  "RADIOD_ID s \<Longrightarrow> list_all name_char s" "INSTANCE_NAME s \<Longrightarrow> list_all name_char s"
  "BARE_NAME s \<Longrightarrow> list_all name_char s"
  by (auto simp: RADIOD_ID_def INSTANCE_NAME_def BARE_NAME_def name_bare_def name_char_def list_all_iff split: list.splits)

lemma basic_string_plain:
  assumes "list_all name_char v"
  shows "basic_string v = Inr (''\"'' @ v @ ''\"'')"
proof -
  have "concat (map (\<lambda>c. if c = CHR 0x5C \<or> c = CHR 0x22 then [CHR 0x5C, c] else [c]) v) = v"
    using assms name_char_plain(1,2) by (induction v) auto
  moreover have "\<not> list_ex (\<lambda>c. let n = of_char c :: nat in n < 32 \<or> 127 \<le> n \<and> n \<le> 159) v"
    using assms name_char_plain(5,6) by (fastforce simp: list_all_iff list_ex_iff Let_def)
  ultimately show ?thesis by (simp add: basic_string_def)
qed

lemma takeWhile_quoted: "q \<notin> set v \<Longrightarrow> takeWhile (\<lambda>c. c \<noteq> q) (v @ q # s) = v"
  by (induction v) auto

lemma kv_quoted:
  assumes "list_all name_char v"
  shows "kv_line ''radiod_id'' (''radiod_id = \"'' @ v @ ''\"'' @ [newline]) = Some v"
    and "kv_line ''instance'' (''instance  = \"'' @ v @ ''\"'' @ [newline]) = Some v"
    and "kv_line ''instance'' (''radiod_id = \"'' @ v @ ''\"'' @ [newline]) = None"
    and "kv_line ''radiod_id'' (''instance  = \"'' @ v @ ''\"'' @ [newline]) = None"
proof -
  have q: "CHR 0x22 \<notin> set v" "newline \<notin> set v"
    using assms name_char_plain(1,3) by (auto simp: list_all_iff)
  show "kv_line ''radiod_id'' (''radiod_id = \"'' @ v @ ''\"'' @ [newline]) = Some v"
    "kv_line ''instance'' (''instance  = \"'' @ v @ ''\"'' @ [newline]) = Some v"
    "kv_line ''instance'' (''radiod_id = \"'' @ v @ ''\"'' @ [newline]) = None"
    "kv_line ''radiod_id'' (''instance  = \"'' @ v @ ''\"'' @ [newline]) = None"
    using q takeWhile_quoted [OF q(1), of "[newline]"]
    by (simp_all add: kv_line_def after_def lstrip_def is_space_def)
qed

lemma binding_line_written:
  "list_all name_char rid \<Longrightarrow> binding_line rid (''radiod_id = \"'' @ rid @ ''\"'' @ [newline])"
  using kv_quoted(1,3) [of rid] by (simp add: binding_line_def opens_def lstrip_def is_space_def)

lemma rstrip_crlf_line: "c \<notin> {CHR 0x0D, newline} \<Longrightarrow> rstrip_crlf (s @ [c, newline]) = s @ [c]"
  by (simp add: rstrip_crlf_def)

lemma header_written:
  assumes "BARE_NAME c"
  shows "header_name (''[[clients.'' @ c @ '']]'' @ [newline]) = Some c"
proof -
  have bare: "list_all name_bare c" "c \<noteq> []" using assms by (simp_all add: BARE_NAME_def)
  have "takeWhile name_bare (c @ '']]'') = c" "dropWhile name_bare (c @ '']]'') = '']]''"
    using bare(1) by (simp_all add: list_all_iff takeWhile_append2 dropWhile_append2 name_bare_def
        ascii_alnum_def is_digit_def is_upper_def is_lower_def)
  moreover have "\<not> starts_with (c @ '']]'') ''\"''"
    using bare name_char_plain(1) names_plain(3) [OF assms] by (cases c) auto
  moreover have "rstrip_crlf (''[[clients.'' @ c @ '']]'' @ [newline]) = ''[[clients.'' @ c @ '']]''"
    using rstrip_crlf_line [of "CHR '']''" "''[[clients.'' @ c @ '']''"] by simp
  ultimately show ?thesis
    using bare(2)
    by (simp add: header_name_def clients_header_def after_def lstrip_def is_space_def closes_header_def Let_def)
qed

lemma proper_written:
  "list_all name_char v \<Longrightarrow> proper (''radiod_id = \"'' @ v @ ''\"'' @ [newline])"
  "list_all name_char v \<Longrightarrow> proper (''instance  = \"'' @ v @ ''\"'' @ [newline])"
  "list_all name_char v \<Longrightarrow> proper (''[[clients.'' @ v @ '']]'' @ [newline])"
proof -
  assume v: "list_all name_char v"
  have "one_line v" using v name_char_plain(4) by (auto simp: one_line_def list_ex_iff list_all_iff)
  then have "one_line (''radiod_id = \"'' @ v @ ''\"'')" "one_line (''instance  = \"'' @ v @ ''\"'')"
    "one_line (''[[clients.'' @ v @ '']]'')"
    by (simp_all add: is_break_def)
  then show "proper (''radiod_id = \"'' @ v @ ''\"'' @ [newline])"
    "proper (''instance  = \"'' @ v @ ''\"'' @ [newline])"
    "proper (''[[clients.'' @ v @ '']]'' @ [newline])"
    unfolding proper_def by (metis append.assoc)+
qed

definition text_after :: "string option \<Rightarrow> string option \<Rightarrow> string" where
  "text_after file out = (case out of Some t \<Rightarrow> t | None \<Rightarrow> case file of Some t \<Rightarrow> t | None \<Rightarrow> [])"

text \<open>C24. Binding a client instance to a radiod, in a file of whole lines or in no file.  Seen as its
  client tables, the file afterwards is the file before with the first table of the client and
  instance naming the radiod, or with one such table added at the end; every other table is what
  it was, in place.  The call leaves the file alone exactly when that changes nothing.\<close>

theorem client_binding_refines:
  assumes "ensure_client_binding client inst rid file = Inr out"
    and "text_after file None = concat ls" and "list_all proper ls"
  shows "entries (lines_keep (text_after file out)) = rebind_entries client inst rid (entries ls)
    \<and> (out = None \<longleftrightarrow> rebind_entries client inst rid (entries ls) = entries ls)"
proof -
  let ?rad = "''radiod_id = \"'' @ rid @ ''\"'' @ [newline]"
  let ?inst = "''instance  = \"'' @ inst @ ''\"'' @ [newline]"
  let ?hdr = "''[[clients.'' @ client @ '']]'' @ [newline]"
  have names: "RADIOD_ID rid" "BARE_NAME client" "INSTANCE_NAME inst"
    using assms(1) by (auto simp: ensure_client_binding_def split: if_splits)
  note plain = names_plain(1) [OF names(1)] names_plain(3) [OF names(2)] names_plain(2) [OF names(3)]
  have existing: "(case file of None \<Rightarrow> [] | Some t \<Rightarrow> t) = concat ls"
    using assms(2) by (simp add: text_after_def split: option.splits)
  have out: "out = (case rebind client inst rid ?rad ls of
      Same \<Rightarrow> None | Changed ls' \<Rightarrow> Some (concat ls')
    | Missing \<Rightarrow> Some (append_block (concat ls) (concat [?hdr, ?inst, ?rad])))"
    using assms(1) names
    by (auto simp: ensure_client_binding_def existing basic_string_plain plain lines_keep_concat [OF assms(3)]
        split: rebound.split)
  note spec = rebind_entries_correct [OF binding_line_written [OF plain(1)], of client inst ls]
  show ?thesis
  proof (cases "rebind client inst rid ?rad ls")
    case Same
    with out spec show ?thesis
      by (simp add: assms(2) lines_keep_concat [OF assms(3)])
  next
    case (Changed ls')
    have "list_all proper ls'"
      by (rule rebind_lines [OF Changed assms(3) proper_written(1) [OF plain(1)]])
    with Changed out spec show ?thesis by (auto simp: text_after_def lines_keep_concat)
  next
    case Missing
    obtain new where new_eq: "new = [?hdr, ?inst, ?rad]" by blast
    have new: "list_all proper new" using proper_written plain by (simp add: new_eq)
    obtain ws where ws: "append_block (concat ls) (concat new) = concat (ls @ ws @ new)"
      "set ws \<subseteq> {[newline]}" using append_block_lines [OF assms(3) new] by blast
    have "proper [newline]" by (simp add: proper_def)
    then have proper: "list_all proper (ls @ ws @ new)"
      using assms(3) new ws(2) by (auto simp: list_all_iff)
    have out_new: "out = Some (append_block (concat ls) (concat new))"
      using Missing out unfolding new_eq by simp
    have "lines_keep (text_after file out) = ls @ ws @ new"
      unfolding out_new text_after_def option.case ws(1) by (rule lines_keep_concat [OF proper])
    moreover have "entries [?hdr, ?inst, ?rad] = [(client, inst, Some rid)]"
    proof -
      have "list_all (\<lambda>l. \<not> opens l) [?inst, ?rad]" by (simp add: opens_def lstrip_def is_space_def)
      then have "entries (?hdr # [?inst, ?rad] @ []) = [(client, instance_of [?inst, ?rad], radiod_of [?inst, ?rad])]"
        using entries_table [OF header_written [OF names(2)], of "[?inst, ?rad]" "[]"] by simp
      moreover have "instance_of [?inst, ?rad] = inst" "radiod_of [?inst, ?rad] = Some rid"
        using kv_quoted [OF plain(1)] kv_quoted [OF plain(3)] by (simp_all add: instance_of_def radiod_of_def)
      ultimately show ?thesis by simp
    qed
    ultimately show ?thesis
      using Missing out_new spec
        entries_append [OF ws(2) header_opens [OF header_written [OF names(2)]], of ls "[?inst, ?rad]"]
      by (simp del: entries.simps add: new_eq)
  qed
qed

definition example_bindings :: "string list" where
  "example_bindings = [''[[clients.psk-recorder]]'' @ [newline], ''instance = \"AC0G=B1\"'' @ [newline],
     ''radiod_id = \"old.local\"'' @ [newline], ''[cpu]'' @ [newline]]"

theorem client_binding_refines_witness:
  "entries (lines_keep (text_after (Some (concat example_bindings))
     (projr (ensure_client_binding ''psk-recorder'' ''AC0G=B1'' ''new.local'' (Some (concat example_bindings))))))
   = [(''psk-recorder'', ''AC0G=B1'', Some ''new.local'')]"
proof -
  let ?call = "ensure_client_binding ''psk-recorder'' ''AC0G=B1'' ''new.local'' (Some (concat example_bindings))"
  have "\<not> isl ?call" by code_simp
  then obtain out where out: "?call = Inr out" by (cases ?call) auto
  have "list_all proper example_bindings"
    by (auto simp: example_bindings_def proper_def is_break_def)
  moreover have "text_after (Some (concat example_bindings)) None = concat example_bindings"
    by (simp add: text_after_def)
  ultimately have "entries (lines_keep (text_after (Some (concat example_bindings)) out))
      = rebind_entries ''psk-recorder'' ''AC0G=B1'' ''new.local'' (entries example_bindings)"
    using client_binding_refines [OF out] by blast
  also have "\<dots> = [(''psk-recorder'', ''AC0G=B1'', Some ''new.local'')]" by code_simp
  finally show ?thesis using out by simp
qed

section \<open>Where the edits lose text\<close>

text \<open>The lines between the \<open>[host]\<close> section and the next table are dropped by the next identity
  edit, a comment above that table among them, so a second call with the same identity writes
  again.\<close>

lemma second_identity_edit_drops_comment:
  "write_section ''[host]'' [''call = \"AC0G\"''] (Some (unlines [''# cores'', ''[cpu]'']))
     = Some (unlines [''[host]'', ''call = \"AC0G\"'', [], ''# cores'', ''[cpu]''])"
  "write_section ''[host]'' [''call = \"AC0G\"''] (Some (unlines [''[host]'', ''call = \"AC0G\"'', [], ''# cores'', ''[cpu]'']))
     = Some (unlines [''[host]'', ''call = \"AC0G\"'', ''[cpu]''])"
  by code_simp+

text \<open>The station edit keeps every field of the section but one: the operator's \<open>wsprnet_proxy\<close> is
  gone after it.\<close>

lemma station_edit_loses_proxy:
  assumes "toml (unlines [''[station]'', ''reporter_id = \"AC0G/S\"'', ''wsprnet_proxy = true''])
    = Inr [(''station'', PDict [(''reporter_id'', PStr ''AC0G/S''), (''wsprnet_proxy'', PBool True)])]"
  shows "write_station_identity repr toml []
      (Some (unlines [''[station]'', ''reporter_id = \"AC0G/S\"'', ''wsprnet_proxy = true'']))
    = Inr (Some (unlines [''[station]'', ''reporter_id = \"AC0G/S\"'']))"
proof -
  have proxy: "\<exists>c. parse_coordination repr
      [(''station'', PDict [(''reporter_id'', PStr ''AC0G/S''), (''wsprnet_proxy'', PBool True)])] = Inr c
    \<and> co_station c = (co_station empty_coordination)\<lparr>sn_reporter_id := ''AC0G/S'', sn_wsprnet_proxy := True\<rparr>"
    by (simp add: parse_coordination_def empty_coordination_def sub_table_def or_dict_def parse_host_def
        float_or_zero_def parse_station_def text_field_def or_empty_def flag_of_def int_or_def parse_heartbeat_def dget_def)
  have "write_section ''[station]'' (station_fields []
      ((co_station empty_coordination)\<lparr>sn_reporter_id := ''AC0G/S'', sn_wsprnet_proxy := True\<rparr>))
      (Some (unlines [''[station]'', ''reporter_id = \"AC0G/S\"'', ''wsprnet_proxy = true'']))
    = Some (unlines [''[station]'', ''reporter_id = \"AC0G/S\"''])"
    by code_simp
  then show ?thesis
    using proxy assms by (auto simp: write_station_identity_def load_text_def load_coordination_def)
qed

text \<open>A table header without a line feed, at the end of the file, is joined with the line inserted
  after it.\<close>

lemma unterminated_header_joined:
  "ensure_client_binding ''hf-timestd'' ''default'' ''a.local'' (Some ''[[clients.hf-timestd]]'')
     = Inr (Some (unlines [''[[clients.hf-timestd]]radiod_id = \"a.local\"'']))"
  by code_simp

end
