(* ===== verification/Instances.thy ===== *)
theory Instances
  imports PyText "HOL-Library.Multiset"
begin

text \<open>
  Reporter ids and instances (\<open>src/lib/sigmond/instance.py\<close>): the three spellings of an id (what the
  operator types, the path-safe storage form, systemd's escaped form), the files of an instance,
  and the migration of a legacy instance.  A string is a list of code points below 256; the file
  system is the map from paths to nodes that the operations test and change (making the parents of
  a path is left out), and whether a command or a write succeeds is a parameter.
\<close>

section \<open>Reporter ids\<close>

definition hex_val :: "char \<Rightarrow> nat option" where
  "hex_val c = (let n = of_char c :: nat in
     if 48 \<le> n \<and> n \<le> 57 then Some (n - 48)
     else if 97 \<le> n \<and> n \<le> 102 then Some (n - 87)
     else if 65 \<le> n \<and> n \<le> 70 then Some (n - 55) else None)"

text \<open>An escape \<open>\xHH\<close> at the head of a text: its character and what follows.\<close>

definition escape_at :: "string \<Rightarrow> (char \<times> string) option" where
  "escape_at s = (case s of
       b # x # h # l # rest \<Rightarrow>
         if b = CHR 0x5C \<and> x = CHR ''x'' then
           (case (hex_val h, hex_val l) of
              (Some m, Some n) \<Rightarrow> Some (char_of (16 * m + n), rest) | _ \<Rightarrow> None)
         else None
     | _ \<Rightarrow> None)"

lemma escape_at_shorter: "escape_at s = Some (c, rest) \<Longrightarrow> length rest < length s"
  by (auto simp: escape_at_def split: list.splits if_splits option.splits)

function unescape_systemd_instance :: "string \<Rightarrow> string" where
  "unescape_systemd_instance s = (case escape_at s of
       Some (c, rest) \<Rightarrow> c # unescape_systemd_instance rest
     | None \<Rightarrow> (case s of [] \<Rightarrow> [] | c # cs \<Rightarrow> c # unescape_systemd_instance cs))"
  by pat_completeness auto
termination by (relation "measure length") (auto dest: escape_at_shorter)

declare unescape_systemd_instance.simps [simp del]

definition id_end :: "char \<Rightarrow> bool" where
  "id_end c = (is_upper c \<or> is_digit c)"

definition REPORTER_ID :: "string \<Rightarrow> bool" where
  "REPORTER_ID s = (2 \<le> length s \<and> id_end (hd s) \<and> id_end (last s)
     \<and> list_all (\<lambda>c. id_end c \<or> c = CHR ''='' \<or> c = CHR ''-'') s)"

datatype instance_error = InvalidReporterId | BadClient | InstanceExists "string list" | NotText
  | Raised py_error

definition validate_reporter_id :: "string \<Rightarrow> instance_error + unit" where
  "validate_reporter_id s = (if REPORTER_ID s then Inr () else Inl InvalidReporterId)"

definition parse_user_reporter_id :: "string \<Rightarrow> instance_error + string" where
  "parse_user_reporter_id u =
     (let storage = replace_char (CHR ''/'') (CHR ''='') (upper (unescape_systemd_instance (strip u))) in
      ebind (validate_reporter_id storage) (\<lambda>_. Inr storage))"

lemma unescape_Nil [simp]: "unescape_systemd_instance [] = []"
  by (simp add: unescape_systemd_instance.simps [of "[]"] escape_at_def)

lemma unescape_hit: "escape_at s = Some (c, rest) \<Longrightarrow> unescape_systemd_instance s = c # unescape_systemd_instance rest"
  by (simp add: unescape_systemd_instance.simps [of s])

lemma unescape_miss: "escape_at (c # cs) = None \<Longrightarrow> unescape_systemd_instance (c # cs) = c # unescape_systemd_instance cs"
  by (simp add: unescape_systemd_instance.simps [of "c # cs"])

lemma escape_at_length: "escape_at s = Some (c, rest) \<Longrightarrow> length s = length rest + 4"
  by (auto simp: escape_at_def split: list.splits if_splits option.splits)

lemma unescape_length: "length (unescape_systemd_instance s) \<le> length s"
proof (induction s rule: length_induct)
  case (1 s)
  show ?case
  proof (cases "escape_at s")
    case None
    with 1 show ?thesis by (cases s) (simp_all add: unescape_miss)
  next
    case (Some p)
    then obtain c rest where p: "escape_at s = Some (c, rest)" by (cases p) simp
    have "length (unescape_systemd_instance rest) \<le> length rest" using 1 escape_at_length [OF p] by simp
    with p escape_at_length [OF p] show ?thesis by (simp add: unescape_hit)
  qed
qed

lemma unescape_changes: "unescape_systemd_instance s \<noteq> s \<Longrightarrow> length (unescape_systemd_instance s) < length s"
proof (induction s rule: length_induct)
  case (1 s)
  show ?case
  proof (cases "escape_at s")
    case None
    with 1 show ?thesis by (cases s) (simp_all add: unescape_miss)
  next
    case (Some p)
    then obtain c rest where p: "escape_at s = Some (c, rest)" by (cases p) simp
    with escape_at_length [OF p] unescape_length [of rest] show ?thesis by (simp add: unescape_hit)
  qed
qed

text \<open>The loop that unescapes until nothing changes ends, since a change makes the name shorter.\<close>

function unescape_fully :: "string \<Rightarrow> string" where
  "unescape_fully name =
     (let next = unescape_systemd_instance name in if next = name then name else unescape_fully next)"
  by pat_completeness auto
termination by (relation "measure length") (auto dest: unescape_changes)

declare unescape_fully.simps [simp del]

definition display_reporter_id :: "string \<Rightarrow> string" where
  "display_reporter_id r = replace_char (CHR ''='') (CHR ''/'') (unescape_fully r)"

section \<open>Unit names\<close>

definition unit_char :: "char \<Rightarrow> bool" where
  "unit_char c = (is_upper c \<or> is_lower c \<or> is_digit c \<or> c \<in> set '':-_.'')"

definition UNIT_NAME_SUFFIXES :: "string list" where
  "UNIT_NAME_SUFFIXES = [''.service'', ''.timer'', ''.target'', ''.socket'', ''.path'']"

definition hex_char :: "nat \<Rightarrow> char" where
  "hex_char n = char_of (if n < 10 then 48 + n else 87 + n)"

definition escape_byte :: "nat \<Rightarrow> string" where
  "escape_byte n = [CHR 0x5C, CHR ''x'', hex_char (n div 16), hex_char (n mod 16)]"

definition utf8 :: "char \<Rightarrow> nat list" where
  "utf8 c = (let n = of_char c :: nat in
     if n < 128 then [n] else [192 + n div 64, 128 + n mod 64])"

definition systemd_escape :: "string \<Rightarrow> string" where
  "systemd_escape s = concat (map (\<lambda>c. if unit_char c then [c] else concat (map escape_byte (utf8 c))) s)"

definition systemd_instance :: "string \<Rightarrow> instance_error + string" where
  "systemd_instance r = ebind (validate_reporter_id r) (\<lambda>_. Inr (systemd_escape r))"

definition instance_unit :: "string \<Rightarrow> string \<Rightarrow> string \<Rightarrow> instance_error + string" where
  "instance_unit client r suffix = ebind (systemd_instance r) (\<lambda>i. Inr (client @ ''@'' @ i @ suffix))"

definition display_unit_name :: "string \<Rightarrow> string" where
  "display_unit_name unit =
     (if CHR ''@'' \<notin> set unit then unit
      else case split_once (CHR ''@'') unit of (client, rest) \<Rightarrow>
        (case filter (ends_with rest) UNIT_NAME_SUFFIXES of
           suffix # _ \<Rightarrow> client @ ''@'' @ display_reporter_id (take (length rest - length suffix) rest) @ suffix
         | [] \<Rightarrow> client @ ''@'' @ display_reporter_id rest))"

section \<open>The files of an instance\<close>

record inst_paths =
  ip_client :: string
  ip_reporter_id :: string
  ip_config :: string
  ip_env :: string
  ip_sources :: string
  ip_state_dir :: string
  ip_log_dir :: string
  ip_run_dir :: string
  ip_unit_name :: string
  ip_unit_template :: string

definition instance_paths :: "string \<Rightarrow> string \<Rightarrow> instance_error + inst_paths" where
  "instance_paths client r =
     ebind (validate_reporter_id r) (\<lambda>_.
     if client = [] \<or> CHR ''/'' \<in> set client \<or> starts_with client ''.'' then Inl BadClient
     else ebind (instance_unit client r ''.service'') (\<lambda>unit.
       Inr \<lparr> ip_client = client, ip_reporter_id = r,
         ip_config = ''/etc/'' @ client @ ''/'' @ r @ ''.toml'',
         ip_env = ''/etc/'' @ client @ ''/env/'' @ r @ ''.env'',
         ip_sources = ''/etc/sigmond/clients/'' @ client @ ''@'' @ r @ ''.sources.toml'',
         ip_state_dir = ''/var/lib/'' @ client @ ''/'' @ r, ip_log_dir = ''/var/log/'' @ client @ ''/'' @ r,
         ip_run_dir = ''/run/'' @ client @ ''/'' @ r, ip_unit_name = unit,
         ip_unit_template = client @ ''@.service'' \<rparr>))"

text \<open>The reporter ids in the listing of one \<open>systemctl\<close> call; a call that fails gives nothing.\<close>

definition listed_rid :: "string \<Rightarrow> string \<Rightarrow> string list" where
  "listed_rid client line =
     (case split_ws line of [] \<Rightarrow> []
      | unit # _ \<Rightarrow>
          if \<not> ends_with unit ''.service'' then []
          else let base = take (length unit - 8) unit in
            if CHR ''@'' \<notin> set base then []
            else case split_once (CHR ''@'') base of (cli, rid) \<Rightarrow>
              if cli \<noteq> client \<or> rid = [] then []
              else let r = unescape_systemd_instance rid in if REPORTER_ID r then [r] else [])"

definition list_units_for_client :: "string \<Rightarrow> string option list \<Rightarrow> string list" where
  "list_units_for_client client outs =
     sorted_set (concat (map (\<lambda>r. case r of None \<Rightarrow> []
       | Some out \<Rightarrow> concat (map (listed_rid client) (splitlines out))) outs))"

section \<open>The spellings agree\<close>

lemma escape_at_no_backslash: "c \<noteq> CHR 0x5C \<Longrightarrow> escape_at (c # s) = None"
  by (simp add: escape_at_def split: list.split)

lemma unescape_plain: "CHR 0x5C \<notin> set s \<Longrightarrow> unescape_systemd_instance s = s"
  by (induction s) (auto simp: unescape_miss escape_at_no_backslash)

lemma hex_val_char: "n < 16 \<Longrightarrow> hex_val (hex_char n) = Some n"
  by (cases "n < 10") (simp_all add: hex_val_def hex_char_def Let_def)

lemma escape_at_byte: "n < 256 \<Longrightarrow> escape_at (escape_byte n @ t) = Some (char_of n, t)"
  by (simp add: escape_byte_def escape_at_def hex_val_char)

lemma unit_char_no_backslash: "unit_char c \<Longrightarrow> c \<noteq> CHR 0x5C"
  by (auto simp: unit_char_def is_upper_def is_lower_def is_digit_def)

lemma unescape_escape:
  "list_all (\<lambda>c. (of_char c :: nat) < 128) s \<Longrightarrow> unescape_systemd_instance (systemd_escape s) = s"
proof (induction s)
  case (Cons c s)
  then have IH: "unescape_systemd_instance (systemd_escape s) = s" by simp
  show ?case
  proof (cases "unit_char c")
    case True
    then have "systemd_escape (c # s) = c # systemd_escape s" by (simp add: systemd_escape_def)
    with IH True show ?thesis by (simp add: unescape_miss escape_at_no_backslash unit_char_no_backslash)
  next
    case False
    then have "systemd_escape (c # s) = escape_byte (of_char c) @ systemd_escape s"
      using Cons.prems by (simp add: systemd_escape_def utf8_def)
    then show ?thesis
      using IH Cons.prems unescape_hit [OF escape_at_byte [of "of_char c" "systemd_escape s"]] by simp
  qed
qed (simp add: systemd_escape_def)

text \<open>A character of a stored id.\<close>

lemma id_char_facts:
  assumes "id_end c \<or> c = CHR ''='' \<or> c = CHR ''-''"
  shows "c \<noteq> CHR 0x5C" "c \<noteq> CHR ''/''" "\<not> is_space c" "(of_char c :: nat) < 128" "upper_char c = [c]"
  using assms
  by (auto simp: id_end_def is_upper_def is_lower_def is_digit_def is_space_def upper_char_def Let_def)

lemma reporter_id_chars:
  assumes "REPORTER_ID r"
  shows "CHR 0x5C \<notin> set r" "CHR ''/'' \<notin> set r" "\<not> list_ex is_space r"
    "list_all (\<lambda>c. (of_char c :: nat) < 128) r"
proof -
  have ok: "id_end c \<or> c = CHR ''='' \<or> c = CHR ''-''" if "c \<in> set r" for c
    using assms that by (simp add: REPORTER_ID_def list_all_iff)
  show "CHR 0x5C \<notin> set r" using ok id_char_facts(1) by blast
  show "CHR ''/'' \<notin> set r" using ok id_char_facts(2) by blast
  show "\<not> list_ex is_space r" unfolding list_ex_iff using ok id_char_facts(3) by blast
  show "list_all (\<lambda>c. (of_char c :: nat) < 128) r" unfolding list_all_iff using ok id_char_facts(4) by blast
qed

lemma replace_back: "CHR ''/'' \<notin> set r \<Longrightarrow>
  replace_char (CHR ''/'') (CHR ''='') (replace_char (CHR ''='') (CHR ''/'') r) = r"
  by (induction r) (auto simp: replace_char_def)

lemma upper_display:
  assumes "REPORTER_ID r"
  shows "upper (replace_char (CHR ''='') (CHR ''/'') r) = replace_char (CHR ''='') (CHR ''/'') r"
    and "upper r = r"
proof -
  have slash: "upper_char (CHR ''/'') = ''/''" by (simp add: upper_char_def is_lower_def)
  have "\<forall>c \<in> set r. upper_char c = [c]"
    using assms id_char_facts(5) by (auto simp: REPORTER_ID_def list_all_iff)
  then show "upper r = r" by (induction r) (auto simp: upper_def)
  show "upper (replace_char (CHR ''='') (CHR ''/'') r) = replace_char (CHR ''='') (CHR ''/'') r"
    using \<open>\<forall>c \<in> set r. upper_char c = [c]\<close> slash
    by (induction r) (auto simp: upper_def replace_char_def)
qed

lemma unescape_fully_fixed: "unescape_systemd_instance s = s \<Longrightarrow> unescape_fully s = s"
  by (simp add: unescape_fully.simps [of s])

lemma unescape_fully_step: "unescape_fully (unescape_systemd_instance s) = unescape_fully s"
  by (cases "unescape_systemd_instance s = s") (simp_all add: unescape_fully.simps [of s] Let_def)

lemma display_id: "REPORTER_ID r \<Longrightarrow> display_reporter_id r = replace_char (CHR ''='') (CHR ''/'') r"
  by (simp add: display_reporter_id_def unescape_fully_fixed unescape_plain reporter_id_chars)

lemma escape_no_space:
  assumes "REPORTER_ID r"
  shows "\<not> list_ex is_space (systemd_escape r)"
proof -
  have "\<not> is_space c" if "unit_char c" for c
    using that by (auto simp: unit_char_def is_upper_def is_lower_def is_digit_def is_space_def Let_def)
  moreover have "\<not> list_ex is_space (escape_byte (of_char (CHR ''='')))" by code_simp
  moreover have "unit_char c \<or> c = CHR ''=''" if "c \<in> set r" for c
    using assms that by (auto simp: REPORTER_ID_def list_all_iff unit_char_def id_end_def)
  ultimately show ?thesis by (fastforce simp: systemd_escape_def list_ex_iff utf8_def)
qed

lemma parse_id:
  assumes "REPORTER_ID r"
  shows "parse_user_reporter_id (display_reporter_id r) = Inr r"
    "parse_user_reporter_id (systemd_escape r) = Inr r" "parse_user_reporter_id r = Inr r"
proof -
  let ?d = "replace_char (CHR ''='') (CHR ''/'') r"
  have slash: "\<not> is_space (CHR ''/'')" by (simp add: is_space_def)
  have d: "CHR 0x5C \<notin> set ?d" "\<not> list_ex is_space ?d"
    using reporter_id_chars [OF assms] slash by (auto simp: replace_char_def list_ex_iff)
  show "parse_user_reporter_id (display_reporter_id r) = Inr r"
    using assms d reporter_id_chars(2) [OF assms]
    by (simp add: display_id parse_user_reporter_id_def unescape_plain upper_display replace_back validate_reporter_id_def)
  have id: "replace_char (CHR ''/'') (CHR ''='') r = r"
    using reporter_id_chars(2) [OF assms] by (induction r) (auto simp: replace_char_def)
  have "\<not> list_ex is_space (systemd_escape r)" by (rule escape_no_space [OF assms])
  then show "parse_user_reporter_id (systemd_escape r) = Inr r"
    using assms reporter_id_chars(4) [OF assms] id
    by (simp add: parse_user_reporter_id_def unescape_escape upper_display validate_reporter_id_def)
  show "parse_user_reporter_id r = Inr r"
    using assms reporter_id_chars [OF assms] id
    by (simp add: parse_user_reporter_id_def unescape_plain upper_display validate_reporter_id_def)
qed

text \<open>C21. The three spellings of a stored id name one instance: typed in any of them it is the same id,
  shown from any of them it is the same text, and two ids never share a unit.\<close>

theorem reporter_spellings:
  assumes "REPORTER_ID r"
  shows "parse_user_reporter_id r = Inr r \<and> parse_user_reporter_id (display_reporter_id r) = Inr r
    \<and> parse_user_reporter_id (systemd_escape r) = Inr r
    \<and> display_reporter_id (systemd_escape r) = display_reporter_id r
    \<and> display_reporter_id (display_reporter_id r) = display_reporter_id r
    \<and> (\<forall>client suffix q. instance_unit client q suffix = instance_unit client r suffix \<longrightarrow> q = r)"
proof (intro conjI allI impI)
  have esc: "unescape_systemd_instance (systemd_escape r) = r"
    by (rule unescape_escape [OF reporter_id_chars(4) [OF assms]])
  show "display_reporter_id (systemd_escape r) = display_reporter_id r"
    using unescape_fully_step [of "systemd_escape r"] esc by (simp add: display_reporter_id_def)
  have "CHR 0x5C \<notin> set (replace_char (CHR ''='') (CHR ''/'') r)"
    using reporter_id_chars(1) [OF assms] by (auto simp: replace_char_def)
  then show "display_reporter_id (display_reporter_id r) = display_reporter_id r"
    using assms by (auto simp: display_id display_reporter_id_def unescape_fully_fixed unescape_plain replace_char_def)
  fix client suffix q
  assume eq: "instance_unit client q suffix = instance_unit client r suffix"
  then have "REPORTER_ID q"
    using assms by (auto simp: instance_unit_def systemd_instance_def validate_reporter_id_def split: if_splits)
  moreover from this have "systemd_escape q = systemd_escape r"
    using eq assms by (simp add: instance_unit_def systemd_instance_def validate_reporter_id_def)
  ultimately show "q = r" using esc unescape_escape [OF reporter_id_chars(4)] by metis
qed (use assms parse_id in auto)

theorem reporter_spellings_witness:
  "parse_user_reporter_id ''AC0G/B4'' = Inr ''AC0G=B4'' \<and> display_reporter_id ''AC0G=B4'' = ''AC0G/B4''"
proof -
  have "REPORTER_ID ''AC0G=B4''" by code_simp
  from reporter_spellings [OF this] have "parse_user_reporter_id (display_reporter_id ''AC0G=B4'') = Inr ''AC0G=B4''"
    by simp
  moreover have "display_reporter_id ''AC0G=B4'' = ''AC0G/B4''" by code_simp
  ultimately show ?thesis by simp
qed

text \<open>No escape is left: no suffix of the text starts with one.\<close>

definition escape_free :: "string \<Rightarrow> bool" where
  "escape_free s = list_all (\<lambda>n. escape_at (drop n s) = None) [0..<length s]"

lemma escape_free_Cons: "escape_free (c # s) \<longleftrightarrow> escape_at (c # s) = None \<and> escape_free s"
proof -
  have "[0..<length (c # s)] = 0 # map Suc [0..<length s]"
    by (simp add: upt_conv_Cons map_Suc_upt del: upt_Suc)
  then have "escape_free (c # s) = list_all (\<lambda>n. escape_at (drop n (c # s)) = None) (0 # map Suc [0..<length s])"
    unfolding escape_free_def by (simp only:)
  then show ?thesis by (simp add: list.pred_map comp_def escape_free_def)
qed

lemma unescape_fixed_free: "unescape_systemd_instance s = s \<Longrightarrow> escape_free s"
proof (induction s)
  case (Cons c s)
  have "escape_at (c # s) = None"
  proof (rule ccontr)
    assume "escape_at (c # s) \<noteq> None"
    then obtain d rest where p: "escape_at (c # s) = Some (d, rest)" by auto
    then have "length (unescape_systemd_instance (c # s)) < length (c # s)"
      using escape_at_length [OF p] unescape_length [of rest] by (simp add: unescape_hit)
    with Cons.prems show False by simp
  qed
  then show ?case using Cons by (simp add: escape_free_Cons unescape_miss)
qed (simp add: escape_free_def)

lemma unescape_fully_fix: "unescape_systemd_instance (unescape_fully s) = unescape_fully s"
proof (induction s rule: unescape_fully.induct)
  case (1 s)
  then show ?case by (cases "unescape_systemd_instance s = s") (simp_all add: unescape_fully.simps [of s] Let_def)
qed

lemma escape_at_replace:
  "escape_at (replace_char (CHR ''='') (CHR ''/'') s)
     = map_option (\<lambda>(c, rest). (c, replace_char (CHR ''='') (CHR ''/'') rest)) (escape_at s)"
proof -
  obtain g where g: "g = (\<lambda>c. if c = CHR ''='' then CHR ''/'' else c)" by blast
  have rep: "replace_char (CHR ''='') (CHR ''/'') s = map g s" for s by (simp add: replace_char_def g)
  have hex: "hex_val (g c) = hex_val c" for c by (simp add: hex_val_def g)
  have gs: "g b = CHR 0x5C \<longleftrightarrow> b = CHR 0x5C" "g x = CHR ''x'' \<longleftrightarrow> x = CHR ''x''" for b x
    by (simp_all add: g)
  show ?thesis
  proof (cases "\<exists>b x h l rest. s = b # x # h # l # rest")
    case True
    then obtain b x h l rest where s: "s = b # x # h # l # rest" by blast
    show ?thesis by (auto simp: rep s escape_at_def hex gs split: option.split)
  next
    case False
    then have "escape_at s = None" "escape_at (map g s) = None"
      by (auto simp: escape_at_def split: list.split)
    then show ?thesis by (simp add: rep)
  qed
qed

lemma escape_free_replace:
  "escape_free s \<Longrightarrow> escape_free (replace_char (CHR ''='') (CHR ''/'') s)"
proof (induction s)
  case (Cons c s)
  then show ?case
    using escape_at_replace [of "c # s"] by (simp add: escape_free_Cons replace_char_def)
qed (simp add: escape_free_def replace_char_def)

text \<open>Whatever name is shown, plain, escaped once or many times, no escape is on the screen.\<close>

theorem display_shows_no_escape: "escape_free (display_reporter_id name)"
  unfolding display_reporter_id_def
  by (intro escape_free_replace unescape_fixed_free unescape_fully_fix)

text \<open>Escaping is the inverse of unescaping on ASCII names only: another character becomes two.\<close>

lemma escape_not_inverse: "unescape_systemd_instance (systemd_escape [CHR 0xE9]) = [CHR 0xC3, CHR 0xA9]"
proof -
  have e: "systemd_escape [CHR 0xE9] = escape_byte 195 @ escape_byte 169"
    by (simp add: systemd_escape_def utf8_def unit_char_def is_upper_def is_lower_def is_digit_def)
  have "char_of (195 :: nat) = CHR 0xC3" "char_of (169 :: nat) = CHR 0xA9" by code_simp+
  then show ?thesis
    unfolding e
    using unescape_hit [OF escape_at_byte [of 195 "escape_byte 169"]]
      unescape_hit [OF escape_at_byte [of 169 "[]"]] by simp
qed

section \<open>Creating, removing and migrating\<close>

text \<open>A node is a file with its text or a directory with whatever it holds.\<close>

datatype 'd node = File string | Folder 'd

type_synonym 'd fs = "(string, 'd node) dict"

definition exists_at :: "'d fs \<Rightarrow> string \<Rightarrow> bool" where
  "exists_at fs p = (map_of fs p \<noteq> None)"

definition write_missing :: "string \<Rightarrow> string \<Rightarrow> 'd fs \<Rightarrow> 'd fs" where
  "write_missing p body fs = (if exists_at fs p then fs else AList.update p (File body) fs)"

text \<open>\<open>_LEGACY_SHARED_CONFIG\<close> and the shared configuration of a client.\<close>

definition LEGACY_SHARED_CONFIG :: "(string, string) dict" where
  "LEGACY_SHARED_CONFIG =
     [(''psk-recorder'', ''/etc/psk-recorder/psk-recorder-config.toml''),
      (''wspr-recorder'', ''/etc/wspr-recorder/config.toml''),
      (''hfdl-recorder'', ''/etc/hfdl-recorder/hfdl-recorder-config.toml''),
      (''codar-sounder'', ''/etc/codar-sounder/codar-sounder-config.toml''),
      (''meteor-scatter'', ''/etc/meteor-scatter/meteor-scatter-config.toml'')]"

definition shared_config_path :: "string \<Rightarrow> string" where
  "shared_config_path client = dget LEGACY_SHARED_CONFIG client (''/etc/'' @ client @ ''/config.toml'')"

definition text_at :: "'d fs \<Rightarrow> string \<Rightarrow> string option" where
  "text_at fs p = (case map_of fs p of Some (File t) \<Rightarrow> Some t | _ \<Rightarrow> None)"

definition contains_text :: "string \<Rightarrow> string \<Rightarrow> bool" where
  "contains_text s p = list_ex (\<lambda>n. starts_with (drop n s) p) [0..<Suc (length s)]"

definition instance_block :: "string \<Rightarrow> string" where
  "instance_block r = unlines [''[instance]'', ''reporter_id = \"'' @ display_reporter_id r @ ''\"'', ''sources = []'', []]"

definition stub_header :: "string \<Rightarrow> string \<Rightarrow> string \<Rightarrow> string \<Rightarrow> string" where
  "stub_header ts client r kind = unlines
     [''# '' @ kind @ '' for '' @ client @ ''@'' @ display_reporter_id r,
      ''# Created by `smd admin instance add` on '' @ ts @ ''.'',
      ''# See docs/MULTI-INSTANCE-ARCHITECTURE.md for the canonical layout.'']"

definition config_from_shared :: "string \<Rightarrow> string \<Rightarrow> string \<Rightarrow> string \<Rightarrow> string" where
  "config_from_shared ts client r body =
     (if contains_text body ''[instance]'' then body
      else stub_header ts client r ''Per-instance config''
        @ unlines [''# Seeded from the client'' @ [CHR 0x27] @ ''s shared config.'', []] @ instance_block r @ body)"

definition config_stub :: "string \<Rightarrow> string \<Rightarrow> string \<Rightarrow> string" where
  "config_stub ts client r =
     stub_header ts client r ''Per-instance config'' @ unlines
       [[], ''[instance]'', ''reporter_id = \"'' @ display_reporter_id r @ ''\"'', [],
        ''# Source-keys this instance consumes from.  Use'',
        ''#   smd admin sources add '' @ client @ ''@'' @ display_reporter_id r @ '' <kind>:<id>'',
        ''# to populate.  See `smd admin sources list` for what'' @ [CHR 0x27] @ ''s discoverable.'',
        ''sources = []'', [], ''[instance.metadata]'',
        ''# antenna  = \"loop\"            # operator description'',
        ''# sdr      = \"rx888-mk2\"       # SDR model / serial / friendly name'', [],
        ''# Client-specific sections follow.  Run `smd admin instance edit'',
        ''# '' @ client @ '' '' @ display_reporter_id r @ ''` to invoke the client'' @ [CHR 0x27] @ ''s config flow.'']"

text \<open>\<open>[contract.instance_env]\<close> of the client's deploy file, with the two placeholders filled in.\<close>

definition env_default :: "(pyval \<Rightarrow> string) \<Rightarrow> string \<Rightarrow> pyval \<Rightarrow> string" where
  "env_default repr r v =
     (let s = (case v of PBool b \<Rightarrow> if b then ''1'' else ''0'' | _ \<Rightarrow> py_str repr v) in
      replace_all ''{reporter_call}'' (display_reporter_id r) (replace_all ''{reporter_id}'' r s))"

definition instance_env_defaults ::
  "(pyval \<Rightarrow> string) \<Rightarrow> (string, pyval) dict option \<Rightarrow> string \<Rightarrow> py_error + (string, string) dict" where
  "instance_env_defaults repr deploy r = (case deploy of None \<Rightarrow> Inr []
     | Some data \<Rightarrow>
         ebind (or_dict (dget data ''contract'' PNone)) (\<lambda>contract.
         ebind (or_dict (dget contract ''instance_env'' PNone)) (\<lambda>raw.
         Inr (map (\<lambda>(k, v). (k, env_default repr r v)) raw))))"

definition env_stub :: "string \<Rightarrow> string \<Rightarrow> string \<Rightarrow> (string, string) dict \<Rightarrow> string" where
  "env_stub ts client r defaults =
     stub_header ts client r ''Per-instance env'' @ unlines
       [[], ''# Loaded by the '' @ client @ '' unit for '' @ display_reporter_id r @ '' via'',
        ''#   EnvironmentFile=-/etc/'' @ client @ ''/env/'' @ r @ ''.env'']
     @ (if defaults = [] then unlines [''# Empty by default; add KEY=VALUE lines as the client requires.'']
        else unlines ([''# Seeded from the client'' @ [CHR 0x27] @ ''s deploy.toml [contract.instance_env]'',
            ''# (greenfield defaults '' @ [CHR 0xE2, CHR 0x80, CHR 0x94] @ '' safe to edit).'']
          @ map (\<lambda>(k, v). k @ ''='' @ v) defaults))"

definition sources_stub :: "string \<Rightarrow> string \<Rightarrow> string \<Rightarrow> string" where
  "sources_stub ts client r =
     stub_header ts client r ''Per-instance sources selection'' @ unlines
       [[], ''# Rendered by `smd admin sources apply` from the instance config'' @ [CHR 0x27] @ ''s'',
        ''# `sources = [...]` list.  Don'' @ [CHR 0x27] @ ''t hand-edit; use'',
        ''#   smd admin sources add '' @ client @ ''@'' @ display_reporter_id r @ '' <kind>:<id>'',
        ''#   smd admin sources remove '' @ client @ ''@'' @ display_reporter_id r @ '' <kind>:<id>'',
        ''selected = []'']"

definition config_of :: "string \<Rightarrow> string \<Rightarrow> string \<Rightarrow> 'd fs \<Rightarrow> instance_error + string" where
  "config_of ts client r fs =
     (if \<not> exists_at fs (shared_config_path client) then Inr (config_stub ts client r)
      else case text_at fs (shared_config_path client) of
          Some body \<Rightarrow> Inr (config_from_shared ts client r body)
        | None \<Rightarrow> if exists_at fs (''/etc/'' @ client @ ''/'' @ r @ ''.toml'') then Inr [] else Inl NotText)"

text \<open>An error leaves the files already written; the model returns the error alone.\<close>

definition create_instance ::
  "(pyval \<Rightarrow> string) \<Rightarrow> string \<Rightarrow> (string, pyval) dict option \<Rightarrow> string \<Rightarrow> string \<Rightarrow> bool \<Rightarrow> bool \<Rightarrow> 'd fs \<Rightarrow>
   instance_error + 'd fs" where
  "create_instance repr ts deploy client r force dry_run fs =
     ebind (instance_paths client r) (\<lambda>p.
     let existing = filter (exists_at fs) [ip_config p, ip_env p, ip_sources p] in
     if existing \<noteq> [] \<and> \<not> force then Inl (InstanceExists existing)
     else if dry_run then Inr fs
     else
       ebind (config_of ts client r fs) (\<lambda>config.
       let fs1 = write_missing (ip_config p) config fs in
       if exists_at fs1 (ip_env p) then Inr (write_missing (ip_sources p) (sources_stub ts client r) fs1)
       else (case instance_env_defaults repr deploy r of
           Inl e \<Rightarrow> Inl (Raised e)
         | Inr defaults \<Rightarrow> Inr (write_missing (ip_sources p) (sources_stub ts client r)
             (write_missing (ip_env p) (env_stub ts client r defaults) fs1)))))"

text \<open>\<open>remove_instance\<close>: the paths it reports and the file system after it; \<open>ok\<close> says which removals
  succeed (the others are passed over).\<close>

definition is_folder :: "'d fs \<Rightarrow> string \<Rightarrow> bool" where
  "is_folder fs p = (case map_of fs p of Some (Folder d) \<Rightarrow> True | _ \<Rightarrow> False)"

definition remove_instance ::
  "(string \<Rightarrow> bool) \<Rightarrow> string \<Rightarrow> string \<Rightarrow> bool \<Rightarrow> bool \<Rightarrow> 'd fs \<Rightarrow> instance_error + string list \<times> 'd fs" where
  "remove_instance ok client r purge dry_run fs =
     ebind (instance_paths client r) (\<lambda>p.
     let removed = filter (\<lambda>f. exists_at fs f \<and> \<not> is_folder fs f) [ip_config p, ip_env p, ip_sources p]
           @ (if purge then filter (is_folder fs) [ip_state_dir p, ip_log_dir p, ip_run_dir p] else []) in
     Inr (removed, if dry_run then fs else filter (\<lambda>(f, n). \<not> (f \<in> set removed \<and> ok f)) fs))"

section \<open>Migration\<close>

datatype migration_step =
    StopUnit string
  | DisableUnit string
  | CreateConfig string string
  | MovePath string string
  | DaemonReload
  | EnableNow string

datatype migration_note =
    Planned migration_step
  | Carried migration_step
  | StepFailed migration_step
  | ConfigPresent string
  | NoSharedConfig "string option" string
  | NotMoved string string

type_synonym 'd migration = "'d fs \<times> migration_note list"

text \<open>\<open>ok\<close> says which commands and writes succeed; one that fails leaves things as they are.\<close>

definition do_step ::
  "(migration_step \<Rightarrow> bool) \<Rightarrow> bool \<Rightarrow> migration_step \<Rightarrow> ('d fs \<Rightarrow> 'd fs option) \<Rightarrow> 'd migration \<Rightarrow> 'd migration" where
  "do_step ok dry_run c act s = (case s of (fs, nts) \<Rightarrow>
     if dry_run then (fs, nts @ [Planned c])
     else (case (if ok c then act fs else None) of
         None \<Rightarrow> (fs, nts @ [Carried c, StepFailed c])
       | Some fs' \<Rightarrow> (fs', nts @ [Carried c])))"

definition run_command :: "(migration_step \<Rightarrow> bool) \<Rightarrow> bool \<Rightarrow> migration_step \<Rightarrow> 'd migration \<Rightarrow> 'd migration" where
  "run_command ok dry_run c = do_step ok dry_run c Some"

definition mv ::
  "(migration_step \<Rightarrow> bool) \<Rightarrow> bool \<Rightarrow> string \<times> string \<Rightarrow> 'd migration \<Rightarrow> 'd migration" where
  "mv ok dry_run move s = (case (move, s) of ((src, dst), (fs, nts)) \<Rightarrow>
     if \<not> exists_at fs src then s
     else if exists_at fs dst then (fs, nts @ [NotMoved dst src])
     else do_step ok dry_run (MovePath src dst) (\<lambda>fs.
         if exists_at fs dst then None
         else map_option (\<lambda>n. AList.update dst n (AList.delete src fs)) (map_of fs src)) s)"

definition migration_header :: "string \<Rightarrow> string \<Rightarrow> string \<Rightarrow> string \<Rightarrow> string" where
  "migration_header ts client old r = unlines
     [''# Per-instance config for '' @ client @ ''@'' @ display_reporter_id r,
      ''# Created by `smd admin instance migrate` on '' @ ts,
      ''# (migrated from legacy unit '' @ client @ ''@'' @ old @ ''.service).'', ''#'',
      ''# This file is a copy of '' @ dget LEGACY_SHARED_CONFIG client ''(unknown legacy path)''
        @ '' with an [instance]'',
      ''# block prepended.  Per-instance config currently contains the'',
      ''# FULL shared content; operators may trim unrelated'',
      ''# [[radiod]] / [[band]] / [[source]] blocks that don'' @ [CHR 0x27] @ ''t apply'',
      ''# to this reporter.  See docs/MULTI-INSTANCE-ARCHITECTURE.md'',
      ''# for the canonical layout.'', [], ''[instance]'',
      ''reporter_id = \"'' @ display_reporter_id r @ ''\"'', [], ''[instance.metadata]'',
      ''# antenna  = \"loop\"            # operator description'',
      ''# sdr      = \"rx888-mk2\"       # SDR model / serial / friendly name'', [],
      ''# --- Original shared-config content follows ---'', []]"

definition migrate_config ::
  "(migration_step \<Rightarrow> bool) \<Rightarrow> bool \<Rightarrow> string \<Rightarrow> string \<Rightarrow> string \<Rightarrow> inst_paths \<Rightarrow> 'd migration \<Rightarrow> 'd migration" where
  "migrate_config ok dry_run ts client old p s = (case s of (fs, nts) \<Rightarrow>
     if exists_at fs (ip_config p) then (fs, nts @ [ConfigPresent (ip_config p)])
     else (case map_of LEGACY_SHARED_CONFIG client of
         None \<Rightarrow> (fs, nts @ [NoSharedConfig None (ip_config p)])
       | Some shared \<Rightarrow>
           if \<not> exists_at fs shared then (fs, nts @ [NoSharedConfig (Some shared) (ip_config p)])
           else do_step ok dry_run (CreateConfig (ip_config p) shared) (\<lambda>fs.
               map_option (\<lambda>body. AList.update (ip_config p)
                 (File (migration_header ts client old (ip_reporter_id p) @ body)) fs) (text_at fs shared)) s))"

definition migration_moves :: "string \<Rightarrow> string \<Rightarrow> string \<Rightarrow> inst_paths \<Rightarrow> (string \<times> string) list" where
  "migration_moves client old old_unit p =
     [(''/etc/'' @ client @ ''/env/'' @ old @ ''.env'', ip_env p),
      (''/var/lib/'' @ client @ ''/'' @ old, ip_state_dir p),
      (''/var/log/'' @ client @ ''/'' @ old, ip_log_dir p),
      (''/etc/systemd/system/'' @ old_unit @ ''.d'', ''/etc/systemd/system/'' @ ip_unit_name p @ ''.d'')]"

definition migrate_one_instance ::
  "(migration_step \<Rightarrow> bool) \<Rightarrow> bool \<Rightarrow> string \<Rightarrow> string \<Rightarrow> string \<Rightarrow> string \<Rightarrow> 'd fs \<Rightarrow>
   instance_error + 'd migration" where
  "migrate_one_instance ok dry_run ts client old r fs =
     ebind (validate_reporter_id r) (\<lambda>_. ebind (instance_paths client r) (\<lambda>p.
     let old_unit = client @ ''@'' @ systemd_escape old @ ''.service'';
         run = run_command ok dry_run in
     Inr (run (EnableNow (ip_unit_name p)) (run DaemonReload
       (fold (mv ok dry_run) (migration_moves client old old_unit p)
       (migrate_config ok dry_run ts client old p
       (run (DisableUnit old_unit) (run (StopUnit old_unit) (fs, [])))))))))"

text \<open>\<open>g\<close> keeps what \<open>f\<close> has: every node, none of them twice under one path, and everything outside
  the paths \<open>S\<close> where it was.\<close>

definition keeps :: "string set \<Rightarrow> 'd fs \<Rightarrow> 'd fs \<Rightarrow> bool" where
  "keeps S f g \<longleftrightarrow> distinct (map fst g) \<and> mset (map snd f) \<subseteq># mset (map snd g)
     \<and> (\<forall>p n. p \<notin> S \<longrightarrow> map_of f p = Some n \<longrightarrow> map_of g p = Some n)"

lemma keeps_refl: "distinct (map fst f) \<Longrightarrow> keeps S f f"
  by (simp add: keeps_def)

lemma keeps_trans: "keeps S f g \<Longrightarrow> keeps S g h \<Longrightarrow> keeps S f h"
  by (auto simp: keeps_def intro: subset_mset.order_trans)

lemma keeps_add: "distinct (map fst f) \<Longrightarrow> map_of f p = None \<Longrightarrow> keeps S f (AList.update p n f)"
  by (auto simp: keeps_def update_new map_of_eq_None_iff)

lemma delete_absent: "p \<notin> fst ` set f \<Longrightarrow> AList.delete p f = f"
  by (induction f) (auto simp: AList.delete_eq)

lemma mset_delete:
  "distinct (map fst f) \<Longrightarrow> map_of f p = Some n \<Longrightarrow>
   mset (map snd f) = add_mset n (mset (map snd (AList.delete p f)))"
proof (induction f)
  case (Cons x f)
  obtain k v where x: "x = (k, v)" by (cases x)
  show ?case
  proof (cases "k = p")
    case True
    with Cons.prems have "AList.delete p f = f" by (auto simp: x intro: delete_absent)
    then have "AList.delete p (x # f) = f" by (simp add: x True)
    with Cons.prems True show ?thesis by (simp add: x)
  next
    case False
    then have "AList.delete p (x # f) = x # AList.delete p f" by (simp add: x)
    with Cons False show ?thesis by (simp add: x)
  qed
qed simp

lemma keeps_move:
  assumes "distinct (map fst f)" and "map_of f src = Some n" and "map_of f dst = None" and "src \<in> S"
  shows "keeps S f (AList.update dst n (AList.delete src f))"
proof -
  have none: "map_of (AList.delete src f) dst = None" using assms(3) by (simp add: delete_conv')
  have "distinct (map fst (AList.delete src f))" using assms(1) by (simp add: distinct_delete)
  moreover have "mset (map snd f) = mset (map snd (AList.update dst n (AList.delete src f)))"
    using mset_delete [OF assms(1,2)] by (simp add: update_new [OF none])
  ultimately show ?thesis
    using assms(3,4) none by (auto simp: keeps_def distinct_update delete_conv' update_conv split: if_splits)
qed

lemma do_step_keeps:
  assumes "keeps S f0 (fst s)" and "\<And>f g. keeps S f0 f \<Longrightarrow> act f = Some g \<Longrightarrow> keeps S f0 g"
  shows "keeps S f0 (fst (do_step ok dry_run c act s)) \<and> (dry_run \<longrightarrow> fst (do_step ok dry_run c act s) = fst s)"
  using assms by (cases s) (auto simp: do_step_def split: option.splits)

lemma mv_keeps:
  fixes s :: "'d migration"
  assumes "keeps S f0 (fst s)" and "fst move \<in> S"
  shows "keeps S f0 (fst (mv ok dry_run move s)) \<and> (dry_run \<longrightarrow> fst (mv ok dry_run move s) = fst s)"
proof -
  obtain src dst where m: "move = (src, dst)" by (cases move)
  obtain fs nts where s: "s = (fs, nts)" by (cases s)
  obtain act :: "'d fs \<Rightarrow> 'd fs option" where act: "act = (\<lambda>fs. if exists_at fs dst then None
       else map_option (\<lambda>n. AList.update dst n (AList.delete src fs)) (map_of fs src))" by blast
  have "keeps S f0 g" if f: "keeps S f0 f" and g: "act f = Some g" for f g
  proof -
    from g obtain n where n: "map_of f dst = None" "map_of f src = Some n"
      "g = AList.update dst n (AList.delete src f)" by (auto simp: act exists_at_def split: if_splits)
    moreover have "distinct (map fst f)" "src \<in> S" using f assms(2) by (simp_all add: keeps_def m)
    ultimately have "keeps S f g" using keeps_move [of f src n dst S] by simp
    with f show ?thesis by (rule keeps_trans)
  qed
  then have "keeps S f0 (fst (do_step ok dry_run (MovePath src dst) act s))
    \<and> (dry_run \<longrightarrow> fst (do_step ok dry_run (MovePath src dst) act s) = fst s)"
    by (intro do_step_keeps assms(1)) blast
  with assms(1) show ?thesis by (simp add: mv_def m s act [symmetric])
qed

lemma fold_mv_keeps:
  assumes "keeps S f0 (fst s)" and "list_all (\<lambda>m. fst m \<in> S) moves"
  shows "keeps S f0 (fst (fold (mv ok dry_run) moves s))
    \<and> (dry_run \<longrightarrow> fst (fold (mv ok dry_run) moves s) = fst s)"
  using assms
proof (induction moves arbitrary: s)
  case (Cons m moves)
  then show ?case using mv_keeps [of S f0 s m ok dry_run] by simp
qed simp

lemma migrate_config_keeps:
  assumes "keeps S f0 (fst s)"
  shows "keeps S f0 (fst (migrate_config ok dry_run ts client old p s))
    \<and> (dry_run \<longrightarrow> fst (migrate_config ok dry_run ts client old p s) = fst s)"
proof (cases s)
  case (Pair fs nts)
  show ?thesis
  proof (cases "\<exists>shared. \<not> exists_at fs (ip_config p) \<and> map_of LEGACY_SHARED_CONFIG client = Some shared \<and> exists_at fs shared")
    case True
    then obtain shared where t: "\<not> exists_at fs (ip_config p)" "map_of LEGACY_SHARED_CONFIG client = Some shared"
      "exists_at fs shared" by blast
    have step: "migrate_config ok dry_run ts client old p s = do_step ok dry_run (CreateConfig (ip_config p) shared) (\<lambda>fs.
               map_option (\<lambda>body. AList.update (ip_config p)
                 (File (migration_header ts client old (ip_reporter_id p) @ body)) fs) (text_at fs shared)) s"
      using t by (simp add: migrate_config_def Pair)
    have "map_of fs (ip_config p) = None" "distinct (map fst fs)"
      using t(1) assms by (auto simp: exists_at_def keeps_def Pair)
    then have "keeps S f0 (AList.update (ip_config p) x fs)" for x
      using keeps_trans [of S f0 fs, OF _ keeps_add] assms by (simp add: Pair)
    then show ?thesis using assms unfolding step by (auto simp: do_step_def Pair split: option.splits)
  next
    case False
    then show ?thesis using assms by (auto simp: migrate_config_def Pair split: option.splits)
  qed
qed

lemma run_command_fs: "fst (run_command ok dry_run c s) = fst s"
  by (cases s) (simp add: run_command_def do_step_def)

text \<open>C22. Migrating a legacy instance, whichever of its steps fail.  Every file and directory that was
  there is still there: what is not one of the legacy instance's own four paths is where it was,
  no two nodes end under one path, and nothing is overwritten; a dry run changes nothing.\<close>

theorem migration_loses_nothing:
  assumes "migrate_one_instance ok dry_run ts client old r fs = Inr (fs', nts)" and "distinct (map fst fs)"
    and "instance_paths client r = Inr p"
  shows "mset (map snd fs) \<subseteq># mset (map snd fs') \<and> distinct (map fst fs')
    \<and> (\<forall>q n. q \<notin> fst ` set (migration_moves client old (client @ ''@'' @ systemd_escape old @ ''.service'') p) \<longrightarrow>
         map_of fs q = Some n \<longrightarrow> map_of fs' q = Some n)
    \<and> (dry_run \<longrightarrow> fs' = fs)"
proof -
  let ?moves = "migration_moves client old (client @ ''@'' @ systemd_escape old @ ''.service'') p"
  let ?S = "fst ` set ?moves"
  let ?run = "run_command ok dry_run"
  let ?s = "migrate_config ok dry_run ts client old p
    (?run (DisableUnit (client @ ''@'' @ systemd_escape old @ ''.service''))
      (?run (StopUnit (client @ ''@'' @ systemd_escape old @ ''.service'')) (fs, [])))"
  have eq: "fs' = fst (fold (mv ok dry_run) ?moves ?s)"
    using assms(1,3)
    by (auto simp: migrate_one_instance_def Let_def ebind_eq_Inr run_command_fs dest!: arg_cong [of _ _ fst])
  have "keeps ?S fs (fst ?s) \<and> (dry_run \<longrightarrow> fst ?s = fs)"
    using migrate_config_keeps [of ?S fs] keeps_refl [OF assms(2)] by (simp add: run_command_fs)
  moreover have "list_all (\<lambda>m. fst m \<in> ?S) ?moves" by (simp add: list_all_iff)
  ultimately have "keeps ?S fs fs' \<and> (dry_run \<longrightarrow> fs' = fs)"
    unfolding eq using fold_mv_keeps [of ?S fs ?s ?moves ok dry_run] by simp
  then show ?thesis by (auto simp: keeps_def)
qed


lemma migrate_runs:
  assumes "REPORTER_ID r" and "instance_paths client r = Inr p"
  shows "\<exists>fs' nts. migrate_one_instance ok dry_run ts client old r fs = Inr (fs', nts)"
  using assms by (simp add: migrate_one_instance_def validate_reporter_id_def Let_def)

theorem migration_loses_nothing_witness:
  "\<exists>fs' nts. migrate_one_instance (\<lambda>_. True) False ''now'' ''wspr-recorder'' ''default'' ''AC0G=B4''
       [(''/var/lib/wspr-recorder/default'', Folder (7 :: nat))] = Inr (fs', nts)
     \<and> add_mset (Folder 7) {#} \<subseteq># mset (map snd fs')"
proof -
  let ?fs = "[(''/var/lib/wspr-recorder/default'', Folder (7 :: nat))]"
  have id: "REPORTER_ID ''AC0G=B4''" by code_simp
  obtain p where p: "instance_paths ''wspr-recorder'' ''AC0G=B4'' = Inr p"
    using id by (auto simp: instance_paths_def instance_unit_def systemd_instance_def validate_reporter_id_def)
  obtain fs' nts where m: "migrate_one_instance (\<lambda>_. True) False ''now'' ''wspr-recorder'' ''default'' ''AC0G=B4'' ?fs
      = Inr (fs', nts)"
    using migrate_runs [OF id p] by blast
  from migration_loses_nothing [OF m _ p] have "add_mset (Folder 7) {#} \<subseteq># mset (map snd fs')" by simp
  with m show ?thesis by blast
qed

end
