(* ===== verification/UploadFlags.thy ===== *)
theory UploadFlags
  imports CoordEnv Instances
begin

text \<open>
  The upload flag of a client instance (\<open>src/lib/sigmond/upload.py\<close>): the environment file of an
  instance, setting and reading a variable in it, and switching the upload of an instance on or off.
  A file is its text; whether it can be rewritten (\<open>safe_write.rewrite_owned\<close>) is a parameter.
\<close>

section \<open>One variable of an environment file\<close>

definition UPLOAD_ENABLE :: "(string, string \<times> string list) dict" where
  "UPLOAD_ENABLE =
     [(''wspr-recorder'', ''WSPR_USE_HS_UPLOADER'', [''wsprnet.org'', ''wsprdaemon.org'']),
      (''psk-recorder'', ''PSK_USE_HS_UPLOADER'', [''pskreporter.info'']),
      (''meteor-scatter'', ''METEOR_SCATTER_USE_HS_UPLOADER'', [''pskreporter.info''])]"

definition DELIVERY_ON_ENABLE :: "(string, string \<times> string \<times> string list) dict" where
  "DELIVERY_ON_ENABLE =
     [(''psk-recorder'', ''PSK_DELIVERY_PIPELINES'', ''direct'', [''direct'', ''server-merge'', ''server-raw''])]"

text \<open>The line assigns the variable \<open>key\<close>.\<close>

definition assigns_key :: "string \<Rightarrow> string \<Rightarrow> bool" where
  "assigns_key key l =
     (let s = strip l in s \<noteq> [] \<and> \<not> starts_with s ''#'' \<and> CHR ''='' \<in> set s
        \<and> strip (fst (split_once (CHR ''='') s)) = key)"

text \<open>\<open>set_env_flag\<close>: the new text of the file; \<open>None\<close> is a file that is not there.\<close>

definition set_env_flag :: "string \<Rightarrow> string \<Rightarrow> string option \<Rightarrow> string" where
  "set_env_flag key v old =
     (let lines = (case old of Some t \<Rightarrow> splitlines t | None \<Rightarrow> []);
          out = map (\<lambda>l. if assigns_key key l then key @ ''='' @ v else l) lines;
          out = (if list_ex (assigns_key key) lines then out else out @ [key @ ''='' @ v])
      in join_on [newline] out @ [newline])"

fun first_flag :: "string \<Rightarrow> string list \<Rightarrow> string option" where
  "first_flag key [] = None"
| "first_flag key (l # ls) =
     (if assigns_key key l
      then Some (strip_char (CHR 0x27) (strip_char (CHR 0x22) (strip (snd (split_once (CHR ''='') (strip l))))))
      else first_flag key ls)"

definition read_flag :: "string option \<Rightarrow> string \<Rightarrow> string option" where
  "read_flag file_text key = (case file_text of None \<Rightarrow> None | Some t \<Rightarrow> first_flag key (splitlines t))"

definition flag_truthy :: "string option \<Rightarrow> bool" where
  "flag_truthy v = (case v of None \<Rightarrow> False
     | Some s \<Rightarrow> lower (strip s) \<notin> set [[], ''0'', ''false'', ''no'', ''off''])"

section \<open>The file of an instance and switching it\<close>

datatype upload_error = UnknownClient | BadReporter instance_error | NotRewritten string
  | BadDelivery string string | NoDelivery string | DeliveryWhenOff

type_synonym env_files = "string \<Rightarrow> string option"

definition env_path_for :: "env_files \<Rightarrow> string \<Rightarrow> string \<Rightarrow> string \<Rightarrow> upload_error + string" where
  "env_path_for files client inst base =
     (let dir = base @ ''/'' @ client @ ''/env/'';
          exact = unescape_systemd_instance (strip inst);
          legacy = (if exact \<noteq> [] \<and> CHR ''/'' \<notin> set exact then Some (dir @ exact @ ''.env'') else None);
          standing = (case legacy of Some l \<Rightarrow> if files l \<noteq> None then Some l else None | None \<Rightarrow> None) in
      case parse_user_reporter_id inst of
        Inl e \<Rightarrow> (case standing of Some l \<Rightarrow> Inr l | None \<Rightarrow> Inl (BadReporter e))
      | Inr storage \<Rightarrow>
          (let canonical = dir @ storage @ ''.env'' in
           case standing of
             Some l \<Rightarrow> if files canonical = None \<and> exact \<noteq> storage then Inr l else Inr canonical
           | None \<Rightarrow> Inr canonical))"

definition write_flag ::
  "(string \<Rightarrow> bool) \<Rightarrow> string \<Rightarrow> string \<Rightarrow> string \<Rightarrow> env_files \<Rightarrow> (upload_error + unit) \<times> env_files" where
  "write_flag writable path key v files =
     (if writable path then (Inr (), files(path \<mapsto> set_env_flag key v (files path)))
      else (Inl (NotRewritten path), files))"

text \<open>What \<open>apply_enable\<close> returns, or raises, and the files after it.\<close>

type_synonym enabled = "string \<times> string \<times> string list \<times> (string \<times> string) option"

definition apply_enable ::
  "(string \<Rightarrow> bool) \<Rightarrow> string \<Rightarrow> string \<Rightarrow> bool \<Rightarrow> string \<Rightarrow> string option \<Rightarrow> env_files \<Rightarrow>
   (upload_error + enabled) \<times> env_files" where
  "apply_enable writable client inst on base delivery files =
     (case map_of UPLOAD_ENABLE client of None \<Rightarrow> (Inl UnknownClient, files)
      | Some (flag, dests) \<Rightarrow>
     (case env_path_for files client inst base of Inl e \<Rightarrow> (Inl e, files)
      | Inr path \<Rightarrow>
     (case write_flag writable path flag (if on then ''1'' else ''0'') files of
        (Inl e, files') \<Rightarrow> (Inl e, files')
      | (Inr _, files') \<Rightarrow>
          (case (if on then map_of DELIVERY_ON_ENABLE client else None) of
             Some (dkey, ddefault, choices) \<Rightarrow>
               (let val = (case delivery of Some d \<Rightarrow> if d \<noteq> [] then d else ddefault | None \<Rightarrow> ddefault) in
                if val \<notin> set choices then (Inl (BadDelivery dkey val), files')
                else case write_flag writable path dkey val files' of
                    (Inl e, files'') \<Rightarrow> (Inl e, files'')
                  | (Inr _, files'') \<Rightarrow> (Inr (path, flag, dests, Some (dkey, val)), files''))
           | None \<Rightarrow>
               if delivery \<noteq> None
               then (Inl (if map_of DELIVERY_ON_ENABLE client = None then NoDelivery client else DeliveryWhenOff), files')
               else (Inr (path, flag, dests, None), files')))))"

section \<open>Both readers and the writer over the list of assignments\<close>

text \<open>The assignment a line makes, and those of a text in order: the reader of environment files takes
  the last one of a variable, \<open>read_flag\<close> the first.\<close>

definition line_pair :: "string \<Rightarrow> (string \<times> string) option" where
  "line_pair l =
     (let s = strip l in
      if s = [] \<or> starts_with s ''#'' \<or> CHR ''='' \<notin> set s then None
      else case split_once (CHR ''='') s of (k, v) \<Rightarrow>
        Some (strip k, strip_char (CHR 0x27) (strip_char (CHR 0x22) (strip v))))"

definition env_pairs :: "string \<Rightarrow> (string \<times> string) list" where
  "env_pairs t = List.map_filter line_pair (splitlines t)"

lemma assigns_key_pair: "assigns_key key l \<longleftrightarrow> (\<exists>v. line_pair l = Some (key, v))"
  by (auto simp: assigns_key_def line_pair_def Let_def split: prod.splits)

lemma parse_line_pair:
  "parse_env_line l out = (case line_pair l of None \<Rightarrow> out | Some (k, v) \<Rightarrow> AList.update k v out)"
  by (auto simp: parse_env_line_def line_pair_def Let_def split: prod.splits)

lemma fold_parse_lines:
  "map_of (fold parse_env_line ls out) = map_of out ++ map_of (rev (List.map_filter line_pair ls))"
proof (induction ls arbitrary: out)
  case (Cons l ls)
  then show ?case
    by (cases "line_pair l")
      (auto simp: parse_line_pair List.map_filter_simps update_conv' map_add_def fun_eq_iff split: option.splits)
qed (simp add: List.map_filter_simps)

lemma parse_env_pairs: "map_of (parse_env_text t) = map_of (rev (env_pairs t))"
  by (simp add: parse_env_text_def env_pairs_def fold_parse_lines)

lemma first_flag_pairs: "first_flag key ls = map_of (List.map_filter line_pair ls) key"
proof (induction ls)
  case (Cons l ls)
  show ?case
  proof (cases "line_pair l")
    case None
    then show ?thesis using Cons by (simp add: List.map_filter_simps assigns_key_pair)
  next
    case (Some p)
    obtain k v where p: "p = (k, v)" by (cases p)
    have "v = strip_char (CHR 0x27) (strip_char (CHR 0x22) (strip (snd (split_once (CHR ''='') (strip l)))))"
      using Some p by (auto simp: line_pair_def Let_def split: if_splits prod.splits)
    then show ?thesis using Some p Cons by (auto simp: List.map_filter_simps assigns_key_pair)
  qed
qed (simp add: List.map_filter_simps)

lemma read_flag_pairs: "read_flag (Some t) key = map_of (env_pairs t) key"
  by (simp add: read_flag_def first_flag_pairs env_pairs_def)

text \<open>A name that a line can assign and a value that is read back as it is written.\<close>

definition flag_name :: "string \<Rightarrow> bool" where
  "flag_name k = (is_word k \<and> one_line k \<and> CHR ''='' \<notin> set k \<and> hd k \<noteq> CHR ''#'')"

definition flag_value :: "string \<Rightarrow> bool" where
  "flag_value v = (one_line v \<and> (v = [] \<or> \<not> is_space (hd v) \<and> \<not> is_space (last v)
     \<and> hd v \<notin> {CHR 0x22, CHR 0x27} \<and> last v \<notin> {CHR 0x22, CHR 0x27}))"

lemma line_pair_assign:
  assumes "flag_name k" and "flag_value v"
  shows "line_pair (k @ ''='' @ v) = Some (k, v)"
proof -
  have k: "k \<noteq> []" "\<not> is_space (hd k)" "CHR ''='' \<notin> set k" "hd k \<noteq> CHR ''#''" "strip k = k"
    using assms(1) by (cases k; auto simp: flag_name_def is_word_def)+
  have eq: "\<not> is_space (CHR ''='')" by (simp add: is_space_def)
  have s: "strip (k @ ''='' @ v) = k @ ''='' @ v"
    using k(1,2) assms(2) eq by (intro strip_ends) (auto simp: flag_value_def)
  have nc: "\<not> starts_with (k @ ''='' @ v) ''#''" using k(1,4) by (cases k) simp_all
  have "strip_char (CHR 0x27) (strip_char (CHR 0x22) (strip v)) = v"
  proof (cases "v = []")
    case True
    then show ?thesis by (simp add: strip_char_def)
  next
    case False
    with assms(2) have "strip v = v" by (intro strip_ends) (simp_all add: flag_value_def)
    with False assms(2) show ?thesis by (simp add: flag_value_def strip_char_id)
  qed
  then show ?thesis unfolding line_pair_def Let_def s using k(1,3,5) nc by simp
qed

lemma splitlines_one_line: "list_all one_line (splitlines s)"
proof -
  have "one_line (rev acc) \<Longrightarrow> list_all one_line (splitlines_acc acc t)" for acc t
    by (induction t arbitrary: acc) (auto simp: one_line_def)
  then show ?thesis by (simp add: splitlines_def)
qed

text \<open>The lines of the file after the edit, and the assignments they make.\<close>

definition flag_lines :: "string \<Rightarrow> string \<Rightarrow> string list \<Rightarrow> string list" where
  "flag_lines key v lines =
     map (\<lambda>l. if assigns_key key l then key @ ''='' @ v else l) lines
       @ (if list_ex (assigns_key key) lines then [] else [key @ ''='' @ v])"

definition old_lines :: "string option \<Rightarrow> string list" where
  "old_lines old = (case old of Some t \<Rightarrow> splitlines t | None \<Rightarrow> [])"

lemma set_flag_lines:
  assumes "flag_name k" and "flag_value v"
  shows "splitlines (set_env_flag k v old) = flag_lines k v (old_lines old)"
proof -
  have ne: "flag_lines k v (old_lines old) \<noteq> []" by (auto simp: flag_lines_def)
  have "set_env_flag k v old = unlines (flag_lines k v (old_lines old))"
    unfolding join_unlines [OF ne] by (simp add: set_env_flag_def flag_lines_def old_lines_def Let_def)
  moreover have "\<not> is_break (CHR ''='')" by (simp add: is_break_def)
  then have "list_all one_line (flag_lines k v (old_lines old))"
    using assms splitlines_one_line
    by (auto simp: flag_lines_def old_lines_def list_all_iff flag_name_def flag_value_def split: option.splits)
  ultimately show ?thesis by (simp add: splitlines_unlines)
qed

definition set_pair :: "string \<Rightarrow> string \<Rightarrow> (string \<times> string) list \<Rightarrow> (string \<times> string) list" where
  "set_pair k v ps = map (\<lambda>(k', v'). if k' = k then (k, v) else (k', v')) ps
     @ (if k \<in> fst ` set ps then [] else [(k, v)])"

lemma flag_lines_pairs:
  assumes "flag_name k" and "flag_value v"
  shows "List.map_filter line_pair (flag_lines k v lines) = set_pair k v (List.map_filter line_pair lines)"
proof -
  have ex: "list_ex (assigns_key k) lines \<longleftrightarrow> k \<in> fst ` set (List.map_filter line_pair lines)" for lines
    by (induction lines) (auto simp: List.map_filter_simps assigns_key_pair split: option.splits)
  have map: "List.map_filter line_pair (map (\<lambda>l. if assigns_key k l then k @ ''='' @ v else l) lines)
    = map (\<lambda>(k', v'). if k' = k then (k, v) else (k', v')) (List.map_filter line_pair lines)" for lines
  proof (induction lines)
    case (Cons l lines)
    then show ?case using line_pair_assign [OF assms]
      by (cases "line_pair l") (auto simp: List.map_filter_simps assigns_key_pair)
  qed (simp add: List.map_filter_simps)
  have app: "List.map_filter line_pair (xs @ ys) = List.map_filter line_pair xs @ List.map_filter line_pair ys" for xs ys
    by (simp add: List.map_filter_def)
  show ?thesis
    using line_pair_assign [OF assms]
    by (simp add: flag_lines_def set_pair_def app map ex List.map_filter_simps)
qed

lemma set_pair_lookup:
  "map_of (set_pair k v ps) = (map_of ps)(k \<mapsto> v)" "map_of (rev (set_pair k v ps)) = (map_of (rev ps))(k \<mapsto> v)"
proof -
  let ?f = "\<lambda>(k', v'). if k' = k then (k, v) else (k', v')"
  have m: "map_of (map ?f qs) k' = (if k' = k then (if k \<in> fst ` set qs then Some v else None) else map_of qs k')"
    for k' and qs :: "(string \<times> string) list"
    by (cases "k' = k"; induction qs; simp add: split_beta)
  show "map_of (set_pair k v ps) = (map_of ps)(k \<mapsto> v)"
    by (auto simp: set_pair_def fun_eq_iff m map_add_def split: option.split)
  have r: "map_of (map ?f (rev ps)) k' = (if k' = k then (if k \<in> fst ` set ps then Some v else None) else map_of (rev ps) k')"
    for k' using m [of "rev ps" k'] by simp
  show "map_of (rev (set_pair k v ps)) = (map_of (rev ps))(k \<mapsto> v)"
    by (cases "k \<in> fst ` set ps") (simp_all add: set_pair_def fun_eq_iff rev_map r)
qed



section \<open>Switching the upload of an instance\<close>

definition env_of :: "string option \<Rightarrow> (string \<rightharpoonup> string)" where
  "env_of file_text = (case file_text of None \<Rightarrow> Map.empty | Some t \<Rightarrow> map_of (parse_env_text t))"

lemma env_of_set_flag:
  assumes "flag_name k" and "flag_value v"
  shows "env_of (Some (set_env_flag k v old)) = (env_of old)(k \<mapsto> v)"
proof -
  have "env_pairs (set_env_flag k v old)
      = set_pair k v (case old of None \<Rightarrow> [] | Some t \<Rightarrow> env_pairs t)"
    using flag_lines_pairs [OF assms, of "old_lines old"]
    by (cases old) (simp_all add: env_pairs_def set_flag_lines [OF assms] old_lines_def List.map_filter_simps)
  then show ?thesis by (cases old) (simp_all add: env_of_def parse_env_pairs set_pair_lookup)
qed

lemma upload_enable_cases:
  assumes "map_of UPLOAD_ENABLE client = Some (flag, dests)"
  shows "flag_name flag" "client \<noteq> ''psk-recorder'' \<Longrightarrow> map_of DELIVERY_ON_ENABLE client = None"
    "client = ''psk-recorder'' \<Longrightarrow> flag = ''PSK_USE_HS_UPLOADER''"
proof -
  have "list_all (\<lambda>(c, f, d). flag_name f) UPLOAD_ENABLE" by code_simp
  then show "flag_name flag" using map_of_SomeD [OF assms] by (auto simp: list_all_iff)
qed (use assms in \<open>simp_all add: DELIVERY_ON_ENABLE_def UPLOAD_ENABLE_def\<close>)

lemma env_path_spelling:
  assumes "REPORTER_ID r" and "s \<in> {r, display_reporter_id r, systemd_escape r}"
  shows "env_path_for files client s base = Inr (base @ ''/'' @ client @ ''/env/'' @ r @ ''.env'')"
proof -
  let ?d = "replace_char (CHR ''='') (CHR ''/'') r"
  have parse: "parse_user_reporter_id s = Inr r" using assms parse_id by auto
  have space: "\<not> list_ex is_space s"
    using assms(2) reporter_id_chars(3) [OF assms(1)] escape_no_space [OF assms(1)]
    by (auto simp: display_id [OF assms(1)] replace_char_def list_ex_iff is_space_def split: if_splits)
  have plain: "CHR 0x5C \<notin> set r" by (rule reporter_id_chars(1) [OF assms(1)])
  then have "CHR 0x5C \<notin> set ?d" by (auto simp: replace_char_def split: if_splits)
  then have "unescape_systemd_instance s \<in> {r, ?d}"
    using assms plain unescape_plain unescape_escape [OF reporter_id_chars(4) [OF assms(1)]] by (auto simp: display_id)
  moreover have "CHR ''/'' \<notin> set ?d \<Longrightarrow> ?d = r"
    unfolding replace_char_def by (induction r) auto
  ultimately show ?thesis
    using parse space by (auto simp: env_path_for_def Let_def split: option.splits)
qed

text \<open>Switching the upload of an instance, whichever spelling names it: its own file gets the flag
  and, when a client with a choice of pipelines is switched on, the pipeline; the other variables of
  the file and all other files stay as they were.\<close>

definition enable_updates :: "string \<Rightarrow> string \<Rightarrow> bool \<Rightarrow> string option \<Rightarrow> (string \<times> string) list" where
  "enable_updates client flag on delivery = (flag, if on then ''1'' else ''0'') #
     (case (if on then map_of DELIVERY_ON_ENABLE client else None) of
        Some (dkey, ddefault, choices) \<Rightarrow> [(dkey, case delivery of Some d \<Rightarrow> d | None \<Rightarrow> ddefault)]
      | None \<Rightarrow> [])"

definition delivery_ok :: "string \<Rightarrow> bool \<Rightarrow> string option \<Rightarrow> bool" where
  "delivery_ok client on delivery = (case delivery of None \<Rightarrow> True
     | Some d \<Rightarrow> on \<and> (case map_of DELIVERY_ON_ENABLE client of
         Some (dkey, ddefault, choices) \<Rightarrow> d \<in> set choices | None \<Rightarrow> False))"

lemma delivery_choice:
  assumes "map_of DELIVERY_ON_ENABLE client = Some (dkey, ddefault, choices)" and "d \<in> set (ddefault # choices)"
  shows "flag_name dkey \<and> flag_value d \<and> d \<noteq> [] \<and> ddefault \<in> set choices"
proof -
  have "list_all (\<lambda>(c, k, dd, cs). flag_name k \<and> list_all (\<lambda>d. flag_value d \<and> d \<noteq> []) (dd # cs) \<and> dd \<in> set cs)
    DELIVERY_ON_ENABLE" by code_simp
  then show ?thesis using map_of_SomeD [OF assms(1)] assms(2) by (auto simp: list_all_iff)
qed

theorem apply_enable_exact:
  assumes "map_of UPLOAD_ENABLE client = Some (flag, dests)" and "REPORTER_ID r"
    and "s \<in> {r, display_reporter_id r, systemd_escape r}" and "delivery_ok client on delivery"
    and "path = base @ ''/'' @ client @ ''/env/'' @ r @ ''.env''" and "writable path"
  shows "\<exists>chosen files'. apply_enable writable client s on base delivery files = (Inr (path, flag, dests, chosen), files')
    \<and> (\<forall>q. q \<noteq> path \<longrightarrow> files' q = files q)
    \<and> env_of (files' path) = env_of (files path) ++ map_of (rev (enable_updates client flag on delivery))"
proof -
  have env: "env_path_for files client s base = Inr path" using env_path_spelling assms(2,3,5) by simp
  have flag: "flag_name flag" by (rule upload_enable_cases(1) [OF assms(1)])
  have val: "flag_value (if on then ''1'' else ''0'')" by (cases on) (simp_all add: flag_value_def is_space_def is_break_def)
  have step: "env_of (Some (set_env_flag flag (if on then ''1'' else ''0'') old))
      = (env_of old)(flag \<mapsto> if on then ''1'' else ''0'')" for old
    by (rule env_of_set_flag [OF flag val])
  show ?thesis
  proof (cases "if on then map_of DELIVERY_ON_ENABLE client else None")
    case None
    then have "delivery = None" using assms(4) by (auto simp: delivery_ok_def split: option.splits if_splits)
    with None show ?thesis using assms(1,6) env step [of "files path"]
      by (auto simp: apply_enable_def write_flag_def enable_updates_def)
  next
    case (Some x)
    then obtain dkey dd choices where x: "on" "map_of DELIVERY_ON_ENABLE client = Some (dkey, dd, choices)"
      by (cases x) (simp split: if_splits)
    obtain d where d: "d = (case delivery of Some d \<Rightarrow> d | None \<Rightarrow> dd)" by blast
    then have "d \<in> set (dd # choices)" using assms(4) x by (auto simp: delivery_ok_def split: option.splits)
    from delivery_choice [OF x(2) this] have ok: "flag_name dkey" "flag_value d" "d \<noteq> []" "d \<in> set choices"
      using d assms(4) x by (auto simp: delivery_ok_def split: option.splits)
    have val: "(case delivery of Some d \<Rightarrow> if d \<noteq> [] then d else dd | None \<Rightarrow> dd) = d"
      using d ok(3) by (cases delivery) auto
    show ?thesis using assms(1,6) env x ok(4) step [of "files path"] env_of_set_flag [OF ok(1,2)]
      by (auto simp: apply_enable_def write_flag_def enable_updates_def val d [symmetric])
  qed
qed

theorem apply_enable_exact_witness:
  "\<exists>chosen files'. apply_enable (\<lambda>_. True) ''psk-recorder'' ''AC0G/S'' True ''/etc'' None (\<lambda>_. None)
      = (Inr (''/etc/psk-recorder/env/AC0G=S.env'', ''PSK_USE_HS_UPLOADER'', [''pskreporter.info''], chosen), files')
    \<and> env_of (files' ''/etc/psk-recorder/env/AC0G=S.env'') ''PSK_DELIVERY_PIPELINES'' = Some ''direct''"
proof -
  have "map_of UPLOAD_ENABLE ''psk-recorder'' = Some (''PSK_USE_HS_UPLOADER'', [''pskreporter.info''])"
    "REPORTER_ID ''AC0G=S''" "display_reporter_id ''AC0G=S'' = ''AC0G/S''" "delivery_ok ''psk-recorder'' True None"
    by code_simp+
  with apply_enable_exact [of "''psk-recorder''" "''PSK_USE_HS_UPLOADER''" "[''pskreporter.info'']" "''AC0G=S''"
      "''AC0G/S''" True None "''/etc/psk-recorder/env/AC0G=S.env''" "''/etc''" "\<lambda>_. True" "\<lambda>_. None"]
  show ?thesis by (auto simp: enable_updates_def DELIVERY_ON_ENABLE_def)
qed

text \<open>A pipeline that is no choice is refused only after the flag is set: the client then uploads over
  its default pipeline.\<close>

lemma refused_pipeline_enables:
  "case apply_enable (\<lambda>_. True) ''psk-recorder'' ''AC0G/S'' True [] (Some ''derect'') (\<lambda>_. None) of (res, files) \<Rightarrow>
     res = Inl (BadDelivery ''PSK_DELIVERY_PIPELINES'' ''derect'')
     \<and> files ''/psk-recorder/env/AC0G=S.env'' = Some (unlines [''PSK_USE_HS_UPLOADER=1''])"
proof -
  have "REPORTER_ID ''AC0G=S''" "display_reporter_id ''AC0G=S'' = ''AC0G/S''" by code_simp+
  then have "env_path_for (\<lambda>_. None) ''psk-recorder'' ''AC0G/S'' [] = Inr ''/psk-recorder/env/AC0G=S.env''"
    using env_path_spelling [of "''AC0G=S''" "''AC0G/S''" "\<lambda>_. None" "''psk-recorder''" "[]"] by simp
  then show ?thesis
    by (simp add: apply_enable_def write_flag_def UPLOAD_ENABLE_def DELIVERY_ON_ENABLE_def set_env_flag_def unlines_def join_on_def)
qed

text \<open>The two readers differ on a variable assigned twice.\<close>

lemma readers_differ:
  "read_flag (Some (unlines [''K=1'', ''K=0''])) ''K'' = Some ''1''
   \<and> map_of (parse_env_text (unlines [''K=1'', ''K=0''])) ''K'' = Some ''0''"
  by code_simp

end
