(* ===== verification/Senders.thy ===== *)
theory Senders
  imports UploadFlags Topology
begin

text \<open>
  Which clients post spots themselves (\<open>src/lib/sigmond/inprocess_senders.py\<close>): the effective
  environment of a unit, read from \<open>systemctl show\<close> and its environment files, and each client's own
  rule.  The output of \<open>systemctl\<close>, the files and the units of a client are arguments.
\<close>

section \<open>The effective environment of a unit\<close>

text \<open>\<open>shlex.split\<close>: between words, in a word, in a quotation, after a backslash in a word or in a
  quotation; \<open>None\<close> is its ValueError.\<close>

datatype shlex_state = Blank | InWord | Quoted char | Escaped "char option"

fun shlex :: "shlex_state \<Rightarrow> string \<Rightarrow> bool \<Rightarrow> string \<Rightarrow> string list option" where
  "shlex Blank tok q [] = Some []"
| "shlex InWord tok q [] = Some (if tok \<noteq> [] \<or> q then [tok] else [])"
| "shlex (Quoted d) tok q [] = None"
| "shlex (Escaped e) tok q [] = None"
| "shlex Blank tok q (c # cs) =
     (if c \<in> set [CHR '' '', CHR 0x09, CHR 0x0D, CHR 0x0A] then shlex Blank [] False cs
      else if c = CHR 0x5C then shlex (Escaped None) [] False cs
      else if c = CHR 0x22 \<or> c = CHR 0x27 then shlex (Quoted c) [] False cs
      else shlex InWord [c] False cs)"
| "shlex InWord tok q (c # cs) =
     (if c \<in> set [CHR '' '', CHR 0x09, CHR 0x0D, CHR 0x0A]
      then if tok \<noteq> [] \<or> q then map_option ((#) tok) (shlex Blank [] False cs) else shlex Blank [] False cs
      else if c = CHR 0x22 \<or> c = CHR 0x27 then shlex (Quoted c) tok q cs
      else if c = CHR 0x5C then shlex (Escaped None) tok q cs
      else shlex InWord (tok @ [c]) q cs)"
| "shlex (Quoted d) tok q (c # cs) =
     (if c = d then shlex InWord tok True cs
      else if c = CHR 0x5C \<and> d = CHR 0x22 then shlex (Escaped (Some d)) tok True cs
      else shlex (Quoted d) (tok @ [c]) True cs)"
| "shlex (Escaped e) tok q (c # cs) =
     (case e of
        None \<Rightarrow> shlex InWord (tok @ [c]) q cs
      | Some d \<Rightarrow> shlex (Quoted d) (tok @ (if c \<noteq> CHR 0x5C \<and> c \<noteq> d then [CHR 0x5C, c] else [c])) q cs)"

definition shlex_split :: "string \<Rightarrow> string list option" where
  "shlex_split s = shlex Blank [] False s"

datatype file_read = Contents string | Missing | Unreadable | Undecodable

datatype show_error = Failed | NotUtf8

definition dict_update :: "('k, 'v) dict \<Rightarrow> ('k, 'v) dict \<Rightarrow> ('k, 'v) dict" where
  "dict_update new old = fold (\<lambda>(k, v). AList.update k v) new old"

datatype show_key = NoKey | Environment | EnvironmentFiles

type_synonym show_state = "(string, string) dict \<times> (string \<times> bool) list \<times> show_key"

definition show_part :: "string \<Rightarrow> (string, string) dict \<Rightarrow> (string, string) dict" where
  "show_part part env =
     (if CHR ''='' \<in> set part then case split_once (CHR ''='') part of (k, v) \<Rightarrow> AList.update k v env else env)"

definition env_show_line :: "string \<Rightarrow> show_state \<Rightarrow> show_error + show_state" where
  "env_show_line line s = (case s of (env, files, key) \<Rightarrow>
     (let (key, line) =
        (if starts_with line ''Environment='' then (Environment, drop 12 line)
         else if starts_with line ''EnvironmentFiles='' then (EnvironmentFiles, drop 17 line)
         else (key, line)) in
      case key of
        Environment \<Rightarrow> (case shlex_split line of None \<Rightarrow> Inl Failed
          | Some parts \<Rightarrow> Inr (fold show_part parts env, files, key))
      | EnvironmentFiles \<Rightarrow>
          if strip line = [] then Inr (env, files, key)
          else (case cut_at '' ('' (strip line) of (path, opts) \<Rightarrow>
            Inr (env, files @ [(path, contains_text opts ''ignore_errors=yes'')], key))
      | NoKey \<Rightarrow> Inr (env, files, key)))"

definition read_env_path ::
  "(string \<Rightarrow> file_read) \<Rightarrow> string \<times> bool \<Rightarrow> (string, string) dict \<Rightarrow> show_error + (string, string) dict" where
  "read_env_path files p env = (case p of (path, ignore) \<Rightarrow>
     (case files path of
        Contents t \<Rightarrow> Inr (dict_update (parse_env_text t) env)
      | Missing \<Rightarrow> if ignore then Inr env else Inl Failed
      | Unreadable \<Rightarrow> Inl Failed
      | Undecodable \<Rightarrow> Inl NotUtf8))"

text \<open>\<open>_systemctl_show\<close>; \<open>None\<close> is a call that fails or exits with another code than 0.\<close>

definition unit_env :: "(string \<Rightarrow> file_read) \<Rightarrow> string option \<Rightarrow> show_error + (string, string) dict" where
  "unit_env files envs = (case envs of None \<Rightarrow> Inl Failed
     | Some out \<Rightarrow> ebind (efold env_show_line (splitlines out) ([], [], NoKey)) (\<lambda>(env, paths, key).
         efold (read_env_path files) paths env))"

section \<open>The rules of the clients\<close>

definition PSK_VALID :: "string list" where
  "PSK_VALID = [''direct'', ''server-merge'', ''server-raw'']"

definition PSK_LEGACY :: "(string, string list) dict" where
  "PSK_LEGACY = [(''server'', [''server-merge'']), (''direct'', [''direct'']), (''both'', [''direct'', ''server-raw''])]"

definition env_word :: "(string, string) dict \<Rightarrow> string \<Rightarrow> string" where
  "env_word env k = lower (strip (dget env k []))"

definition psk_delivery_pipelines :: "(string, string) dict \<Rightarrow> string list" where
  "psk_delivery_pipelines env =
     (let raw = env_word env ''PSK_DELIVERY_PIPELINES'';
          chosen = filter (\<lambda>p. p \<in> set (map strip (split_on (CHR '','') raw))) PSK_VALID;
          mode = env_word env ''PSK_DELIVERY_MODE'' in
      if raw \<noteq> [] \<and> chosen \<noteq> [] then chosen
      else case map_of PSK_LEGACY mode of
          Some ps \<Rightarrow> filter (\<lambda>p. p \<in> set ps) PSK_VALID
        | None \<Rightarrow> [''server-merge''])"

definition psk_recorder_sends :: "(string, string) dict \<Rightarrow> bool" where
  "psk_recorder_sends env = (''direct'' \<in> set (psk_delivery_pipelines env))"

definition unit_instance :: "string \<Rightarrow> string" where
  "unit_instance unit =
     (let i = snd (split_once (CHR ''@'') unit) in
      if ends_with i ''.service'' then take (length i - 8) i else i)"

definition ms_config_path :: "(string \<Rightarrow> bool) \<Rightarrow> (string, string) dict \<Rightarrow> string \<Rightarrow> string" where
  "ms_config_path exists env unit =
     (let override = dget env ''METEOR_SCATTER_CONFIG'' []; inst = unit_instance unit;
          own = ''/etc/meteor-scatter/'' @ unescape_systemd_instance inst @ ''.toml'' in
      if override \<noteq> [] then override
      else if inst \<noteq> [] \<and> exists own then own
      else ''/etc/meteor-scatter/meteor-scatter-config.toml'')"

definition ms_delivery_mode :: "(string, string) dict \<Rightarrow> string" where
  "ms_delivery_mode env =
     (let v = dget env ''METEOR_SCATTER_DELIVERY_MODE'' [] in
      lower (strip (if v = [] then ''direct'' else v)))"

text \<open>\<open>config p\<close> is the parsed configuration file; \<open>None\<close> when it cannot be read or parsed.\<close>

record ms_host =
  ms_exists :: "string \<Rightarrow> bool"
  ms_config :: "string \<Rightarrow> (string, pyval) dict option"

definition meteor_scatter_sends ::
  "ms_host \<Rightarrow> (string, string) dict \<Rightarrow> string \<Rightarrow> show_error + bool" where
  "meteor_scatter_sends h env unit =
     (if ms_delivery_mode env \<in> set [''deposit'', ''off'', ''none'', ''disabled''] then Inr False
      else case ms_config h (ms_config_path (ms_exists h) env unit) of
          None \<Rightarrow> Inl Failed
        | Some config \<Rightarrow> (case dget config ''station'' (PDict []) of
            PDict station \<Rightarrow> Inr (py_truthy (dget station ''callsign'' PNone)
              \<and> py_truthy (dget station ''grid_square'' PNone))
          | _ \<Rightarrow> Inl Failed))"

definition client_sends ::
  "ms_host \<Rightarrow> string \<Rightarrow> (string, string) dict \<Rightarrow> string \<Rightarrow> show_error + bool" where
  "client_sends h client env unit =
     (if client = ''psk-recorder'' then Inr (psk_recorder_sends env) else meteor_scatter_sends h env unit)"

section \<open>The clients that send\<close>

definition PSK_CLIENTS :: "string list" where
  "PSK_CLIENTS = [''psk-recorder'', ''meteor-scatter'']"

text \<open>\<open>units c\<close> are the instance units of the client, \<open>None\<close> when they cannot be listed; \<open>envs u\<close> is
  the effective environment of a unit.\<close>

definition sends_of ::
  "ms_host \<Rightarrow> (string \<Rightarrow> show_error + (string, string) dict) \<Rightarrow> string \<Rightarrow> string \<Rightarrow> show_error + bool" where
  "sends_of h envs client u = ebind (envs u) (\<lambda>env. client_sends h client env u)"

fun senders_loop ::
  "ms_host \<Rightarrow> (string \<Rightarrow> string list option) \<Rightarrow> (string \<Rightarrow> show_error + (string, string) dict) \<Rightarrow>
   string list \<Rightarrow> string list \<Rightarrow> show_error + string list" where
  "senders_loop h units envs enabled [] = Inr []"
| "senders_loop h units envs enabled (client # rest) =
     (if client \<notin> set enabled then senders_loop h units envs enabled rest
      else case units client of
          None \<Rightarrow> senders_loop h units envs enabled rest
        | Some us \<Rightarrow>
            if us = [] then senders_loop h units envs enabled rest
            else (case emap (sends_of h envs client) us of
                Inl NotUtf8 \<Rightarrow> Inl NotUtf8
              | Inl Failed \<Rightarrow> senders_loop h units envs enabled rest
              | Inr sends \<Rightarrow> ebind (senders_loop h units envs enabled rest)
                  (\<lambda>pairs. Inr (if list_all id sends then client # pairs else pairs))))"

definition inprocess_senders ::
  "ms_host \<Rightarrow> (string \<Rightarrow> string list option) \<Rightarrow> (string \<Rightarrow> show_error + (string, string) dict) \<Rightarrow>
   topology \<Rightarrow> show_error + string list" where
  "inprocess_senders h units envs t = senders_loop h units envs (enabled_components t None) PSK_CLIENTS"

section \<open>What the answer means\<close>

definition all_send ::
  "ms_host \<Rightarrow> (string \<Rightarrow> string list option) \<Rightarrow> (string \<Rightarrow> show_error + (string, string) dict) \<Rightarrow> string \<Rightarrow> bool" where
  "all_send h units envs client \<longleftrightarrow> (case units client of None \<Rightarrow> False
     | Some us \<Rightarrow> us \<noteq> [] \<and> list_all (\<lambda>u. sends_of h envs client u = Inr True) us)"

lemma senders_loop_exact:
  "senders_loop h units envs enabled cs = Inr pairs \<Longrightarrow>
   pairs = filter (\<lambda>c. c \<in> set enabled \<and> all_send h units envs c) cs"
proof (induction cs arbitrary: pairs)
  case (Cons c cs)
  show ?case
  proof (cases "c \<in> set enabled \<and> units c \<noteq> None \<and> units c \<noteq> Some []")
    case False
    with Cons show ?thesis by (auto simp: all_send_def split: if_splits option.splits)
  next
    case True
    then obtain us where us: "units c = Some us" "us \<noteq> []" by auto
    show ?thesis
    proof (cases "emap (sends_of h envs c) us")
      case (Inl e)
      then have "\<not> all_send h units envs c" using us emap_all [of "sends_of h envs c" us] by (auto simp: all_send_def)
      with Cons True us Inl show ?thesis by (cases e) auto
    next
      case (Inr sends)
      then have "list_all id sends \<longleftrightarrow> all_send h units envs c" using us emap_all_true by (auto simp: all_send_def)
      with Cons True us Inr show ?thesis by (auto simp: ebind_eq_Inr)
    qed
  qed
qed simp

text \<open>A client is said to send itself exactly when it is one of the two that can, it is enabled, it has
  an instance, and every instance's environment can be read and says so: any doubt is a no.\<close>

theorem inprocess_senders_exact:
  assumes "inprocess_senders h units envs t = Inr pairs"
  shows "set pairs = {c \<in> set PSK_CLIENTS. c \<in> set (enabled_components t None) \<and> all_send h units envs c}"
  using senders_loop_exact [OF assms [unfolded inprocess_senders_def]] by auto

definition psk_station :: topology where
  "psk_station = \<lparr> tp_client_dir = [], tp_smd_bin = [],
     tp_components = [(''psk-recorder'', (new_component ''psk-recorder'' []) \<lparr> cp_enabled := PBool True \<rparr>)],
     tp_cpu_affinity = [], tp_cpu_freq = [], tp_timing = [] \<rparr>"

theorem inprocess_senders_exact_witness:
  "case inprocess_senders \<lparr> ms_exists = (\<lambda>_. False), ms_config = (\<lambda>_. None) \<rparr> (\<lambda>_. Some [''psk-recorder@A1=B.service''])
     (\<lambda>_. Inr [(''PSK_DELIVERY_PIPELINES'', ''server-raw, Direct'')]) psk_station of
     Inl e \<Rightarrow> False | Inr pairs \<Rightarrow> set pairs = {''psk-recorder''}"
proof -
  let ?h = "\<lparr> ms_exists = (\<lambda>_. False), ms_config = (\<lambda>_. None) \<rparr>"
  let ?e = "\<lambda>_ :: string. Inr [(''PSK_DELIVERY_PIPELINES'', ''server-raw, Direct'')] :: show_error + (string, string) dict"
  have run: "inprocess_senders ?h (\<lambda>_. Some [''psk-recorder@A1=B.service'']) ?e psk_station = Inr [''psk-recorder'']"
    by code_simp
  have "set [''psk-recorder''] = {c \<in> set PSK_CLIENTS. c \<in> set (enabled_components psk_station None)
      \<and> all_send ?h (\<lambda>_. Some [''psk-recorder@A1=B.service'']) ?e c}"
    by (rule inprocess_senders_exact [OF run])
  with run show ?thesis by simp
qed

end
