(* ===== verification/Harmonize.thy ===== *)
theory Harmonize
  imports Senders Coordination CpuMask
begin

text \<open>
  The harmonization rules over one view of the station (\<open>src/lib/sigmond/harmonize.py\<close>, with the view of
  \<open>sysview.py\<close> and the catalog lookup of \<open>catalog.py\<close>): the rules that read the two configuration files and
  the clients' own views.  The rules that read the running host are in \<open>HostRules\<close>.  The fields of a
  client's view have the types their classes declare.  What a rule probes (the disk, the catalog, a
  source checkout, the addresses of the interfaces) is a record of answers.  A message is a value.
\<close>

section \<open>Severities and results\<close>

datatype rule_severity = Pass | Warn | Fail

definition severity_rank :: "rule_severity \<Rightarrow> nat" where
  "severity_rank s = (case s of Pass \<Rightarrow> 0 | Warn \<Rightarrow> 1 | Fail \<Rightarrow> 2)"

lemma severity_rank_eq: "severity_rank a = severity_rank b \<Longrightarrow> a = b"
  by (cases a; cases b) (simp_all add: severity_rank_def)

instantiation rule_severity :: linorder
begin

definition less_eq_rule_severity :: "rule_severity \<Rightarrow> rule_severity \<Rightarrow> bool" where
  "less_eq_rule_severity a b \<longleftrightarrow> severity_rank a \<le> severity_rank b"

definition less_rule_severity :: "rule_severity \<Rightarrow> rule_severity \<Rightarrow> bool" where
  "less_rule_severity a b \<longleftrightarrow> severity_rank a < severity_rank b"

instance
  by standard (auto simp: less_eq_rule_severity_def less_rule_severity_def severity_rank_eq)

end

lemma severity_order [simp]: "Pass \<le> s" "s \<le> Fail" "s \<le> Pass \<longleftrightarrow> s = Pass" "Fail \<le> s \<longleftrightarrow> s = Fail"
  "s < Warn \<longleftrightarrow> s = Pass" "Warn < s \<longleftrightarrow> s = Fail" "Pass < s \<longleftrightarrow> s \<noteq> Pass"
  by (cases s; simp add: less_eq_rule_severity_def less_rule_severity_def severity_rank_def)+

datatype core_overlap = Overlap string bool "int list"

datatype rule_message =
    Text string
  | Unresolved "(string \<times> pyval \<times> pyval) list"
  | AllResolve nat
  | PlaceholderIn "string list"
  | OverSamprate "(string \<times> string \<times> int \<times> int) list"
  | WithinSamprate nat
  | CoresOverlap "core_overlap list"
  | NoOverlap nat
  | Paired nat
  | CannotStat pyval
  | DiskAt pyval int int
  | ChannelDemand "(string \<times> int) list"
  | PinMatches string
  | PinDiffers string string string
  | NoHead string
  | GuardProbeFailed
  | Public "(string \<times> string) list"
  | UnknownUpstream "(string \<times> string \<times> pyval) list"
  | UpstreamsResolve nat

record 'm rule_result =
  rr_rule :: string
  rr_severity :: rule_severity
  rr_message :: 'm
  rr_affected :: "string list"

definition result :: "string \<Rightarrow> rule_severity \<Rightarrow> 'm \<Rightarrow> string list \<Rightarrow> 'm rule_result" where
  "result r s m a = \<lparr> rr_rule = r, rr_severity = s, rr_message = m, rr_affected = a \<rparr>"

lemma result_fields [simp]:
  "rr_rule (result r s m a) = r" "rr_severity (result r s m a) = s" "rr_message (result r s m a) = m"
  "rr_affected (result r s m a) = a"
  by (simp_all add: result_def)

lemma result_eq [simp]: "result r s m a = result r' s' m' a' \<longleftrightarrow> r = r' \<and> s = s' \<and> m = m' \<and> a = a'"
  by (simp add: result_def)

section \<open>The view\<close>

record instance_view =
  iv_instance :: string
  iv_radiod_id :: "string option"
  iv_frequencies_hz :: "int list"
  iv_ka9q_channels :: int
  iv_data_path :: "(string, pyval) dict option"

record adapter_view =
  cv_client_type :: string
  cv_instances :: "instance_view list"

record system_view =
  sv_coordination :: coordination
  sv_topology :: topology
  sv_client_views :: "(string, adapter_view) dict"

text \<open>\<open>all_instances\<close>, the order in which every rule walks the views.\<close>

definition all_instances :: "system_view \<Rightarrow> (string \<times> instance_view) list" where
  "all_instances v = concat (map (\<lambda>cv. map (Pair (cv_client_type cv)) (cv_instances cv))
     (map snd (sv_client_views v)))"

definition consumers_of :: "system_view \<Rightarrow> string \<Rightarrow> (string \<times> instance_view) list" where
  "consumers_of v rid = filter (\<lambda>(t, iv). iv_radiod_id iv = Some rid) (all_instances v)"

definition build_system_view ::
  "topology \<Rightarrow> coordination \<Rightarrow> (string \<Rightarrow> adapter_view option) \<Rightarrow> system_view" where
  "build_system_view t c adapter =
     \<lparr> sv_coordination = c, sv_topology = t,
       sv_client_views = List.map_filter (\<lambda>n. map_option (Pair n) (adapter n)) (enabled_components t None) \<rparr>"

section \<open>References to radiods\<close>

text \<open>\<open>radiod_id not in coord.radiods\<close>, a set test that a list or a table raises; the instances whose
  reference does not resolve.\<close>

definition is_key :: "pyval \<Rightarrow> ('k \<Rightarrow> string) \<Rightarrow> 'k list \<Rightarrow> py_error + bool" where
  "is_key v key ks = (if hashable v then Inr (v \<in> PStr ` key ` set ks) else Inl TypeError)"

definition unresolved_client :: "coordination \<Rightarrow> client_instance \<Rightarrow> py_error + client_instance list" where
  "unresolved_client c i = (if ci_radiod_id i = PNone then Inr []
     else ebind (is_key (ci_radiod_id i) fst (co_radiods c)) (\<lambda>known. Inr (if known then [] else [i])))"

definition rule_radiod_resolution :: "system_view \<Rightarrow> py_error + rule_message rule_result" where
  "rule_radiod_resolution v =
     (let c = sv_coordination v; r = ''radiod_resolution'' in
      if co_clients c = [] then Inr (result r Pass (Text ''no client instances declared'') [])
      else ebind (emap (unresolved_client c) (co_clients c)) (\<lambda>bad.
        let bad = concat bad in
        Inr (if bad \<noteq> [] then result r Fail
               (Unresolved (map (\<lambda>i. (ci_type i, ci_instance i, ci_radiod_id i)) bad))
               (sorted_set (map ci_type bad))
             else result r Pass (AllResolve (length (co_clients c))) [])))"

definition RADIOD_STATUS_PLACEHOLDER :: string where
  "RADIOD_STATUS_PLACEHOLDER = ''<configure-via-config-init>''"

definition placeholder_status :: "instance_view \<Rightarrow> bool" where
  "placeholder_status iv = (case iv_radiod_id iv of None \<Rightarrow> False
     | Some s \<Rightarrow> s \<noteq> [] \<and> contains_text s RADIOD_STATUS_PLACEHOLDER)"

definition rule_radiod_status_configured :: "system_view \<Rightarrow> py_error + rule_message rule_result" where
  "rule_radiod_status_configured v =
     (let bad = filter (placeholder_status \<circ> snd) (all_instances v); r = ''radiod_status_configured'' in
      Inr (if bad \<noteq> [] then result r Fail (PlaceholderIn (sort (map (\<lambda>(t, iv). t @ ''@'' @ iv_instance iv) bad)))
             (sorted_set (map fst bad))
           else result r Pass (Text ''no placeholder radiod addresses'') []))"

section \<open>Frequencies\<close>

text \<open>One claim per frequency a consumer of a local radiod with a declared rate publishes.\<close>

definition rated_radiods :: "coordination \<Rightarrow> (string \<times> radiod) list" where
  "rated_radiods c = filter (\<lambda>(rid, r). is_local r \<and> ra_samprate_hz r \<noteq> 0) (co_radiods c)"

definition frequency_claims :: "system_view \<Rightarrow> (string \<times> string \<times> int \<times> int) list" where
  "frequency_claims v = concat (map (\<lambda>(rid, r). concat (map (\<lambda>(t, iv).
       map (\<lambda>hz. (t, iv_instance iv, hz, ra_samprate_hz r)) (iv_frequencies_hz iv)) (consumers_of v rid)))
     (rated_radiods (sv_coordination v)))"

definition over_samprate :: "string \<times> string \<times> int \<times> int \<Rightarrow> bool" where
  "over_samprate claim = (case claim of (t, i, hz, rate) \<Rightarrow> rate < hz)"

definition rule_frequency_coverage :: "system_view \<Rightarrow> py_error + rule_message rule_result" where
  "rule_frequency_coverage v =
     (let c = sv_coordination v; r = ''frequency_coverage''; claims = frequency_claims v;
          bad = filter over_samprate claims;
          consumers = concat (map (consumers_of v \<circ> fst) (rated_radiods c)) in
      Inr (if bad \<noteq> [] then result r Fail (OverSamprate bad) []
           else if claims \<noteq> [] then result r Pass (WithinSamprate (length claims)) []
           else if local_radiods c = [] then result r Pass (Text ''skipped (no local radiod declared)'') []
           else if rated_radiods c = [] then result r Pass (Text ''skipped (local radiod samprate_hz not declared)'') []
           else if consumers = [] then result r Pass (Text ''skipped (no client instances bound to local radiod)'') []
           else result r Pass (Text ''skipped (no client publishes frequencies_hz via inventory)'') []))"

section \<open>Cores\<close>

text \<open>\<open>_parse_cores\<close> on a text and on a value of the file, of which Python takes \<open>str\<close>.\<close>

definition core_chunk :: "string \<Rightarrow> cpus" where
  "core_chunk chunk = mask_token (strip chunk)"

definition parse_cores :: "(pyval \<Rightarrow> string) \<Rightarrow> pyval \<Rightarrow> cpus" where
  "parse_cores repr spec =
     (if \<not> py_truthy spec then {} else \<Union> (set (map core_chunk (split_on (CHR '','') (py_str repr spec)))))"

definition core_overlaps :: "(pyval \<Rightarrow> string) \<Rightarrow> coordination \<Rightarrow> string \<times> radiod \<Rightarrow> core_overlap list" where
  "core_overlaps repr c entry = (case entry of (rid, r) \<Rightarrow>
     (let cores = parse_cores repr (ra_cores r);
          on = (\<lambda>worker spec. let bad = cores \<inter> parse_cores repr spec in
            if bad = {} then [] else [Overlap rid worker (sorted_list_of_set bad)]) in
      on True (cb_worker_cores (co_cpu c)) @ on False (cb_reserved_cpus (co_cpu c))))"

definition rule_cpu_isolation :: "(pyval \<Rightarrow> string) \<Rightarrow> system_view \<Rightarrow> py_error + rule_message rule_result" where
  "rule_cpu_isolation repr v =
     (let c = sv_coordination v; r = ''cpu_isolation'';
          checked = filter (\<lambda>(rid, rd). is_local rd \<and> parse_cores repr (ra_cores rd) \<noteq> {}) (co_radiods c);
          bad = concat (map (core_overlaps repr c) checked) in
      Inr (if bad \<noteq> [] then result r Fail (CoresOverlap bad) []
           else if checked = [] then result r Pass (Text ''skipped (no local radiod core claims)'') []
           else result r Pass (NoOverlap (length checked)) []))"

section \<open>Timing, disk and channels\<close>

text \<open>The fusion instances that share a radiod with another client.\<close>

definition timing_paired :: "coordination \<Rightarrow> client_instance \<Rightarrow> bool" where
  "timing_paired c ts = (py_truthy (ci_radiod_id ts) \<and>
     filter (\<lambda>i. ci_type i \<noteq> ''hf-timestd'' \<and> ci_radiod_id i = ci_radiod_id ts) (co_clients c) \<noteq> [])"

definition rule_timing_chain :: "system_view \<Rightarrow> py_error + rule_message rule_result" where
  "rule_timing_chain v =
     (let c = sv_coordination v; r = ''timing_chain''; timestd = instances_of c ''hf-timestd'';
          covered = length (filter (timing_paired c) timestd) in
      Inr (if timestd = [] then result r Pass (Text ''skipped (hf-timestd not declared)'') []
           else if covered \<noteq> 0 then result r Pass (Paired covered) []
           else result r Pass (Text ''hf-timestd declared; no other client shares its radiod(s)'') []))"

text \<open>\<open>shutil.disk_usage\<close>: the total and the free bytes, \<open>Inr None\<close> for a missing or forbidden path, any
  other exception on the left.\<close>

type_synonym disk_usage = "py_error + (nat \<times> nat) option"

definition percent_used :: "nat \<Rightarrow> nat \<Rightarrow> int" where
  "percent_used size_b free_b = py_round (of_int (100 * (int size_b - int free_b)) / of_nat (max size_b 1))"

definition rule_disk_budget :: "(pyval \<Rightarrow> disk_usage) \<Rightarrow> system_view \<Rightarrow> py_error + rule_message rule_result" where
  "rule_disk_budget usage v =
     (let b = co_disk_budget (sv_coordination v); r = ''disk_budget''; path = db_root_path b in
      ebind (usage path) (\<lambda>u. Inr (case u of
          None \<Rightarrow> result r Warn (CannotStat path) []
        | Some df \<Rightarrow> (let pct = percent_used (fst df) (snd df) in
            result r (if db_warn_percent b \<le> pct then Warn else Pass) (DiskAt path pct (db_warn_percent b)) []))))"

definition add_demand :: "instance_view \<Rightarrow> (string, int) dict \<Rightarrow> (string, int) dict" where
  "add_demand iv totals = (case iv_radiod_id iv of
       Some rid \<Rightarrow> if rid = [] \<or> iv_ka9q_channels iv = 0 then totals
         else AList.update rid (dget totals rid 0 + iv_ka9q_channels iv) totals
     | None \<Rightarrow> totals)"

definition channel_totals :: "system_view \<Rightarrow> (string, int) dict" where
  "channel_totals v = fold (add_demand \<circ> snd) (all_instances v) []"

definition rule_channel_count :: "system_view \<Rightarrow> py_error + rule_message rule_result" where
  "rule_channel_count v =
     (let totals = channel_totals v; r = ''channel_count'' in
      Inr (if totals = [] then result r Pass (Text ''no channel-count info available'') []
           else result r Pass (ChannelDemand (sort totals)) []))"

section \<open>The source checkout and the pin\<close>

text \<open>\<open>exists\<close> and \<open>read\<close> answer for a path; \<open>None\<close> is an OSError.\<close>

definition source_candidates :: "string \<Rightarrow> string list" where
  "source_candidates home = [''/opt/git/sigmond/ka9q-radio'', ''/opt/git/ka9q-radio'', home @ ''/ka9q-radio'']"

definition ka9q_radio_source_dir :: "(string \<Rightarrow> bool) \<Rightarrow> string \<Rightarrow> string option" where
  "ka9q_radio_source_dir exists home = find (\<lambda>d. exists (d @ ''/.git'')) (source_candidates home)"

definition join_path :: "string \<Rightarrow> string \<Rightarrow> string" where
  "join_path d p = (if starts_with p ''/'' then p else d @ ''/'' @ p)"

definition is_hex :: "char \<Rightarrow> bool" where
  "is_hex c = (c \<in> set ''0123456789abcdef'')"

definition packed_ref :: "string \<Rightarrow> string \<Rightarrow> string option" where
  "packed_ref name packed = map_option (\<lambda>line. strip (fst (split_once (CHR '' '') line)))
     (find (\<lambda>line. ends_with line ('' '' @ name)) (splitlines packed))"

definition git_head :: "(string \<Rightarrow> string option) \<Rightarrow> string \<Rightarrow> string option" where
  "git_head read repo = (case read (repo @ ''/.git/HEAD'') of
       None \<Rightarrow> None
     | Some t \<Rightarrow> (let head = strip t; name = drop 5 head in
         if starts_with head ''ref: '' then
           (case read (join_path (repo @ ''/.git'') name) of
              Some t \<Rightarrow> Some (strip t)
            | None \<Rightarrow> Option.bind (read (repo @ ''/.git/packed-refs'')) (packed_ref name))
         else if 40 \<le> length head \<and> list_all is_hex (take 40 head) then Some head
         else None))"

text \<open>The answers of the host for the rules of this theory: the disk, the pin of ka9q-python (\<open>None\<close> when
  it cannot be imported), files and directories, the home, the public addresses (\<open>None\<close> when their
  probe raises), the override and the catalog (\<open>None\<close> when it cannot be loaded).\<close>

record catalog_entry =
  ce_name :: string
  ce_alias :: "string option"
  ce_hardware_gated :: "string option"
  ce_start_priority :: "int option"

type_synonym catalog = "(string, catalog_entry) dict"

record probes =
  pb_repr :: "pyval \<Rightarrow> string"
  pb_disk :: "pyval \<Rightarrow> disk_usage"
  pb_pin :: "string option"
  pb_exists :: "string \<Rightarrow> bool"
  pb_read :: "string \<Rightarrow> string option"
  pb_home :: string
  pb_public :: "(string \<times> string) list option"
  pb_catalog :: "catalog option"

definition declared_types :: "coordination \<Rightarrow> string list" where
  "declared_types c = sorted_set (map ci_type (co_clients c))"

definition rule_ka9q_python_compat :: "probes \<Rightarrow> system_view \<Rightarrow> py_error + rule_message rule_result" where
  "rule_ka9q_python_compat p v =
     (let r = ''ka9q_python_compat''; skip = (\<lambda>why. Inr (result r Pass (Text why) [])) in
      if \<not> is_enabled (sv_topology v) ''ka9q-radio'' then skip ''skipped (this host builds no ka9q-radio)''
      else case pb_pin p of
          None \<Rightarrow> skip ''skipped: ka9q-python not importable''
        | Some expected \<Rightarrow>
            if expected = [] \<or> expected = ''unknown'' then skip ''skipped: ka9q-python pin is empty/unknown''
            else case ka9q_radio_source_dir (pb_exists p) (pb_home p) of
                None \<Rightarrow> skip ''skipped: no ka9q-radio source checkout found''
              | Some dir \<Rightarrow> (case git_head (pb_read p) dir of
                    None \<Rightarrow> Inr (result r Pass (NoHead dir) [])
                  | Some actual \<Rightarrow> Inr (
                      if starts_with actual expected \<or> starts_with expected actual
                      then result r Pass (PinMatches (take 12 actual)) []
                      else result r Warn (PinDiffers (take 12 expected) dir (take 12 actual))
                        (declared_types (sv_coordination v)))))"

section \<open>Public addresses and upstream clients\<close>

definition rule_public_ip_guard :: "probes \<Rightarrow> system_view \<Rightarrow> py_error + rule_message rule_result" where
  "rule_public_ip_guard p v =
     (let r = ''public_ip_guard'' in
      Inr (case pb_public p of
          None \<Rightarrow> result r Pass GuardProbeFailed []
        | Some v4 \<Rightarrow>
            if v4 = [] then result r Pass (Text ''no public IPv4 on any interface'') []
            else result r (if pb_exists p ''/etc/sigmond/allow-public-ip'' then Warn else Fail) (Public v4) []))"

text \<open>\<open>build_alias_map\<close>, \<open>resolve_name\<close> and \<open>get_entry\<close> of the catalog; the rule passes them whatever the
  client's view holds.\<close>

definition build_alias_map :: "catalog \<Rightarrow> (string, string) dict" where
  "build_alias_map ents = fold (\<lambda>(k, e) out. case ce_alias e of
       Some a \<Rightarrow> if a = [] then out else AList.update a (ce_name e) out | None \<Rightarrow> out) ents []"

definition resolve_name :: "string \<Rightarrow> catalog \<Rightarrow> string" where
  "resolve_name n ents = (if n \<in> fst ` set ents then n else dget (build_alias_map ents) n n)"

definition get_entry :: "string \<Rightarrow> catalog \<Rightarrow> catalog_entry option" where
  "get_entry n ents = map_of ents (resolve_name n ents)"

definition named_upstream :: "(string, pyval) dict option \<Rightarrow> py_error + pyval option" where
  "named_upstream path = (case path of
       None \<Rightarrow> Inr None
     | Some dp \<Rightarrow>
         if dget dp ''kind'' PNone \<noteq> PStr ''file'' then Inr None
         else (let d = dget dp ''details'' PNone in
           if \<not> py_truthy d then Inr None
           else case d of
               PDict d \<Rightarrow> (let u = dget d ''upstream_client'' PNone in Inr (if py_truthy u then Some u else None))
             | _ \<Rightarrow> Inl AttributeError))"

definition upstream_known :: "catalog \<Rightarrow> pyval \<Rightarrow> py_error + bool" where
  "upstream_known ents u = (if \<not> hashable u then Inl TypeError
     else Inr (case u of PStr n \<Rightarrow> get_entry n ents \<noteq> None | _ \<Rightarrow> False))"

definition upstream_of ::
  "catalog \<Rightarrow> string \<times> instance_view \<Rightarrow> py_error + (string \<times> string \<times> pyval \<times> bool) option" where
  "upstream_of ents ti = (case ti of (t, iv) \<Rightarrow>
     ebind (named_upstream (iv_data_path iv)) (\<lambda>u. case u of
         None \<Rightarrow> Inr None
       | Some u \<Rightarrow> ebind (upstream_known ents u) (\<lambda>known. Inr (Some (t, iv_instance iv, u, known)))))"

definition rule_data_path_upstream :: "probes \<Rightarrow> system_view \<Rightarrow> py_error + rule_message rule_result" where
  "rule_data_path_upstream p v =
     (let r = ''data_path_upstream'' in
      case pb_catalog p of
        None \<Rightarrow> Inr (result r Pass (Text ''skipped (catalog unavailable)'') [])
      | Some ents \<Rightarrow> ebind (emap (upstream_of ents) (all_instances v)) (\<lambda>us.
          let checked = List.map_filter id us; bad = filter (\<lambda>(t, i, u, known). \<not> known) checked in
          Inr (if bad \<noteq> [] then result r Warn (UnknownUpstream (map (\<lambda>(t, i, u, known). (t, i, u)) bad))
                 (sorted_set (map fst bad))
               else if checked = [] then
                 result r Pass (Text ''skipped (no meta-client instances declare upstream)'') []
               else result r Pass (UpstreamsResolve (length checked)) [])))"

section \<open>All rules and the worst of them\<close>

definition ALL_RULES :: "probes \<Rightarrow> (system_view \<Rightarrow> py_error + rule_message rule_result) list" where
  "ALL_RULES p = [rule_radiod_resolution, rule_radiod_status_configured, rule_frequency_coverage,
     rule_cpu_isolation (pb_repr p), rule_timing_chain, rule_disk_budget (pb_disk p), rule_channel_count,
     rule_ka9q_python_compat p, rule_public_ip_guard p, rule_data_path_upstream p]"

definition run_rules ::
  "(system_view \<Rightarrow> py_error + 'm rule_result) list \<Rightarrow> system_view \<Rightarrow> py_error + 'm rule_result list" where
  "run_rules rules v = emap (\<lambda>rule. rule v) rules"

text \<open>Every severity that a rule gives is a key of the order, so the default 0 of \<open>order.get\<close> is not used.\<close>

definition worst_severity :: "'m rule_result list \<Rightarrow> rule_severity" where
  "worst_severity rs = fold (\<lambda>r worst. if severity_rank worst < severity_rank (rr_severity r)
     then rr_severity r else worst) rs Pass"

section \<open>What the worst severity is\<close>

lemma worst_fold: "worst_severity rs = fold max (map rr_severity rs) Pass"
proof -
  have "(if severity_rank w < severity_rank u then u else w) = max u w" for u w
    by (auto simp: max_def less_eq_rule_severity_def severity_rank_eq)
  then show ?thesis by (simp add: worst_severity_def fold_map comp_def)
qed

lemma worst_Max: "worst_severity rs = Max (insert Pass (rr_severity ` set rs))"
  using Max.set_eq_fold [of Pass "map rr_severity rs"] by (simp add: worst_fold)

text \<open>The verdict of a run is the greatest severity among its results, and a pass when there are none.\<close>

theorem worst_severity_is_max:
  "worst_severity rs \<in> insert Pass (rr_severity ` set rs) \<and> list_all (\<lambda>r. rr_severity r \<le> worst_severity rs) rs"
  unfolding worst_Max list_all_iff
proof
  show "Max (insert Pass (rr_severity ` set rs)) \<in> insert Pass (rr_severity ` set rs)" by (rule Max_in) simp_all
qed simp

lemma worst_not_Fail: "worst_severity rs \<noteq> Fail \<longleftrightarrow> list_all (\<lambda>r. rr_severity r \<noteq> Fail) rs"
proof -
  have "Max A \<noteq> Fail \<longleftrightarrow> Fail \<notin> A" if "finite A" "A \<noteq> {}" for A
    by (metis Max_in Max_ge severity_order(4) that)
  then show ?thesis by (simp add: worst_Max list_all_iff) (metis imageE image_eqI)
qed

section \<open>Core lists\<close>

lemma split_ws_commas:
  "\<not> list_ex is_space s \<Longrightarrow> split_ws_acc acc (replace_char (CHR '','') (CHR '' '') s)
   = (case split_on (CHR '','') s of [] \<Rightarrow> [] | w # ws \<Rightarrow> filter (\<lambda>w. w \<noteq> []) ((rev acc @ w) # ws))"
proof (induction s arbitrary: acc)
  case (Cons x s)
  obtain w ws where w: "split_on (CHR '','') s = w # ws" by (cases "split_on (CHR '','') s") simp_all
  have "is_space (CHR '' '')" by (simp add: is_space_def)
  then show ?case using Cons.prems Cons.IH [of "[]"] Cons.IH [of "x # acc"]
    by (auto simp: w replace_char_def)
qed (simp add: replace_char_def)

lemma mask_token_Nil [simp]: "mask_token [] = {}"
  by (simp add: mask_token_def) code_simp

lemma split_on_unspaced: "\<not> list_ex is_space s \<Longrightarrow> w \<in> set (split_on c s) \<Longrightarrow> \<not> list_ex is_space w"
proof (induction s arbitrary: w)
  case (Cons x s)
  then show ?case by (cases "split_on c s") (auto split: if_splits)
qed simp

text \<open>On a text without white space the rules read a core list as the CPU planner reads a mask.\<close>

theorem cores_equal_mask:
  assumes "\<not> list_ex is_space s"
  shows "parse_cores repr (PStr s) = parse_cpu_mask s"
proof (cases "s = []")
  case False
  have strip: "core_chunk w = mask_token w" if "w \<in> set (split_on (CHR '','') s)" for w
    using split_on_unspaced [OF assms that] by (simp add: core_chunk_def)
  have "split_ws (replace_char (CHR '','') (CHR '' '') s) = filter (\<lambda>w. w \<noteq> []) (split_on (CHR '','') s)"
    using split_ws_commas [OF assms, of "[]"] by (cases "split_on (CHR '','') s") (simp_all add: split_ws_def)
  then show ?thesis using False strip by (auto simp: parse_cores_def parse_cpu_mask_Union)
qed (simp add: parse_cores_def parse_cpu_mask_Union replace_char_def)

theorem cores_equal_mask_witness: "parse_cores (\<lambda>_. []) (PStr ''0-3,5'') = parse_cpu_mask ''0-3,5''"
  by (rule cores_equal_mask) code_simp

text \<open>With white space the two differ: the list the planner writes is not read at all.\<close>

lemma spaced_cores_unread: "parse_cores repr (PStr ''2 3'') = {}" "parse_cpu_mask ''2 3'' = {2, 3}"
  by (simp add: parse_cores_def) code_simp+

section \<open>What a run without failures says\<close>

definition references_resolve :: "coordination \<Rightarrow> bool" where
  "references_resolve c = list_all (\<lambda>i. ci_radiod_id i = PNone \<or> ci_radiod_id i \<in> PStr ` fst ` set (co_radiods c))
     (co_clients c)"

definition addresses_set :: "system_view \<Rightarrow> bool" where
  "addresses_set v = list_all (\<lambda>(t, iv). \<not> placeholder_status iv) (all_instances v)"

definition frequencies_fit :: "system_view \<Rightarrow> bool" where
  "frequencies_fit v = list_all (\<lambda>(rid, r). is_local r \<and> ra_samprate_hz r \<noteq> 0 \<longrightarrow>
     list_all (\<lambda>(t, iv). iv_radiod_id iv = Some rid \<longrightarrow> list_all (\<lambda>hz. hz \<le> ra_samprate_hz r) (iv_frequencies_hz iv))
       (all_instances v)) (co_radiods (sv_coordination v))"

definition cores_apart :: "(pyval \<Rightarrow> string) \<Rightarrow> coordination \<Rightarrow> bool" where
  "cores_apart repr c = list_all (\<lambda>(rid, r). is_local r \<longrightarrow> parse_cores repr (ra_cores r)
     \<inter> (parse_cores repr (cb_worker_cores (co_cpu c)) \<union> parse_cores repr (cb_reserved_cpus (co_cpu c))) = {})
     (co_radiods c)"

definition network_private :: "probes \<Rightarrow> bool" where
  "network_private p \<longleftrightarrow> (case pb_public p of None \<Rightarrow> True | Some v4 \<Rightarrow> v4 = [])
     \<or> pb_exists p ''/etc/sigmond/allow-public-ip''"

lemma unresolved_client_Nil:
  "unresolved_client c i = Inr bad \<Longrightarrow> bad = [] \<longleftrightarrow> ci_radiod_id i = PNone \<or> ci_radiod_id i \<in> PStr ` fst ` set (co_radiods c)"
  by (auto simp: unresolved_client_def is_key_def ebind_eq_Inr split: if_splits)

lemma resolution_Fail:
  assumes "rule_radiod_resolution v = Inr r"
  shows "rr_severity r \<noteq> Fail \<longleftrightarrow> references_resolve (sv_coordination v)"
proof -
  let ?c = "sv_coordination v"
  have "concat bad = [] \<longleftrightarrow> references_resolve ?c" if "emap (unresolved_client ?c) (co_clients ?c) = Inr bad" for bad
    using that unfolding emap_Inr references_resolve_def
    by (induction rule: list_all2_induct) (auto dest: unresolved_client_Nil)
  then show ?thesis using assms
    by (auto simp: rule_radiod_resolution_def Let_def ebind_eq_Inr references_resolve_def split: if_splits)
qed

lemma status_Fail:
  "rule_radiod_status_configured v = Inr r \<Longrightarrow> rr_severity r \<noteq> Fail \<longleftrightarrow> addresses_set v"
  by (auto simp: rule_radiod_status_configured_def Let_def addresses_set_def list_all_iff filter_empty_conv split: if_splits)

lemma filter_Nil_all:
  "filter P (concat (map f xs)) = [] \<longleftrightarrow> (\<forall>x \<in> set xs. filter P (f x) = [])"
  "filter Q (map g ys) = [] \<longleftrightarrow> (\<forall>y \<in> set ys. \<not> Q (g y))"
  by (induction xs) (auto simp: filter_empty_conv)

lemma claims_fit: "filter over_samprate (frequency_claims v) = [] \<longleftrightarrow> frequencies_fit v"
  by (simp add: frequency_claims_def frequencies_fit_def rated_radiods_def consumers_of_def over_samprate_def
      list_all_iff case_prod_unfold not_less filter_Nil_all) fastforce

lemma frequency_Fail:
  assumes "rule_frequency_coverage v = Inr r"
  shows "rr_severity r \<noteq> Fail \<longleftrightarrow> frequencies_fit v"
proof (cases "filter over_samprate (frequency_claims v) = []")
  case True
  then show ?thesis using assms claims_fit [of v] by (auto simp: rule_frequency_coverage_def Let_def split: if_splits)
next
  case False
  then show ?thesis using assms claims_fit [of v] by (auto simp: rule_frequency_coverage_def Let_def)
qed

lemma overlaps_Nil: "core_overlaps repr c (rid, r) = [] \<longleftrightarrow> parse_cores repr (ra_cores r)
    \<inter> (parse_cores repr (cb_worker_cores (co_cpu c)) \<union> parse_cores repr (cb_reserved_cpus (co_cpu c))) = {}"
  by (simp add: core_overlaps_def Let_def Int_Un_distrib)

lemma isolation_Fail:
  "rule_cpu_isolation repr v = Inr r \<Longrightarrow> rr_severity r \<noteq> Fail \<longleftrightarrow> cores_apart repr (sv_coordination v)"
  by (auto simp: rule_cpu_isolation_def Let_def cores_apart_def overlaps_Nil list_all_iff filter_empty_conv
      simp del: Int_Un_distrib split: if_splits)

lemma never_Fail:
  "rule_timing_chain v = Inr r \<Longrightarrow> rr_severity r \<noteq> Fail"
  "rule_channel_count v = Inr r \<Longrightarrow> rr_severity r \<noteq> Fail"
  "rule_ka9q_python_compat p v = Inr r \<Longrightarrow> rr_severity r \<noteq> Fail"
  "rule_data_path_upstream p v = Inr r \<Longrightarrow> rr_severity r \<noteq> Fail"
  by (auto simp: rule_timing_chain_def rule_channel_count_def rule_ka9q_python_compat_def
      rule_data_path_upstream_def Let_def ebind_eq_Inr split: if_splits option.splits prod.splits)

lemma disk_never_Fail: "rule_disk_budget usage v = Inr r \<Longrightarrow> rr_severity r \<noteq> Fail"
  by (cases "usage (db_root_path (co_disk_budget (sv_coordination v)))")
    (auto simp: rule_disk_budget_def Let_def split: option.splits if_splits)

lemma guard_Fail: "rule_public_ip_guard p v = Inr r \<Longrightarrow> rr_severity r \<noteq> Fail \<longleftrightarrow> network_private p"
  by (auto simp: rule_public_ip_guard_def Let_def network_private_def split: if_splits option.splits)

text \<open>C25. A run of the rules that returns fails exactly when a reference does not resolve, an address is still the
  placeholder, a frequency exceeds its radiod's rate, a local radiod shares a core with the workers or the
  reserved CPUs, or the host has a public address that nobody allowed.\<close>

theorem validate_fails_exact:
  assumes "run_rules (ALL_RULES p) v = Inr rs"
  shows "worst_severity rs \<noteq> Fail \<longleftrightarrow> references_resolve (sv_coordination v) \<and> addresses_set v
    \<and> frequencies_fit v \<and> cores_apart (pb_repr p) (sv_coordination v) \<and> network_private p"
proof -
  from assms obtain r1 r2 r3 r4 r5 r6 r7 r8 r9 r10 where rs: "rs = [r1, r2, r3, r4, r5, r6, r7, r8, r9, r10]"
    and r: "rule_radiod_resolution v = Inr r1" "rule_radiod_status_configured v = Inr r2"
      "rule_frequency_coverage v = Inr r3" "rule_cpu_isolation (pb_repr p) v = Inr r4"
      "rule_timing_chain v = Inr r5" "rule_disk_budget (pb_disk p) v = Inr r6" "rule_channel_count v = Inr r7"
      "rule_ka9q_python_compat p v = Inr r8" "rule_public_ip_guard p v = Inr r9"
      "rule_data_path_upstream p v = Inr r10"
    by (auto simp: run_rules_def ALL_RULES_def ebind_eq_Inr)
  show ?thesis
    unfolding worst_not_Fail rs
    using resolution_Fail [OF r(1)] status_Fail [OF r(2)] frequency_Fail [OF r(3)] isolation_Fail [OF r(4)]
      never_Fail(1) [OF r(5)] disk_never_Fail [OF r(6)] never_Fail(2) [OF r(7)] never_Fail(3) [OF r(8)]
      guard_Fail [OF r(9)] never_Fail(4) [OF r(10)]
    by simp
qed

section \<open>When a run raises\<close>

definition usable_id :: "client_instance \<Rightarrow> bool" where
  "usable_id i = hashable (ci_radiod_id i)"

definition usable_path :: "instance_view \<Rightarrow> bool" where
  "usable_path iv = (case named_upstream (iv_data_path iv) of Inl e \<Rightarrow> False | Inr None \<Rightarrow> True | Inr (Some u) \<Rightarrow> hashable u)"

lemma emap_returns: "(\<exists>ys. emap f xs = Inr ys) \<longleftrightarrow> list_all (\<lambda>x. \<exists>y. f x = Inr y) xs"
  by (induction xs) (auto simp: ebind_eq_Inr)

lemma ebind_returns: "(\<exists>y. ebind m (\<lambda>x. Inr (f x)) = Inr y) \<longleftrightarrow> (\<exists>x. m = Inr x)"
  by (auto simp: ebind_eq_Inr)

lemma unresolved_returns: "(\<exists>bad. unresolved_client c i = Inr bad) \<longleftrightarrow> usable_id i"
  by (auto simp: unresolved_client_def is_key_def usable_id_def)

lemma upstream_returns: "(\<exists>u. upstream_of ents x = Inr u) \<longleftrightarrow> usable_path (snd x)"
  by (cases x; cases "named_upstream (iv_data_path (snd x))")
    (auto simp: upstream_of_def usable_path_def upstream_known_def split: option.split)

lemma run_rules_returns: "(\<exists>rs. run_rules rules v = Inr rs) \<longleftrightarrow> list_all (\<lambda>rule. \<exists>r. rule v = Inr r) rules"
  by (simp add: run_rules_def emap_returns)

lemma rules_return:
  "(\<exists>r. rule_radiod_resolution v = Inr r) \<longleftrightarrow> list_all usable_id (co_clients (sv_coordination v))"
  "(\<exists>r. rule_disk_budget usage v = Inr r)
     \<longleftrightarrow> (case usage (db_root_path (co_disk_budget (sv_coordination v))) of Inl e \<Rightarrow> False | Inr u \<Rightarrow> True)"
  "(\<exists>r. rule_data_path_upstream p v = Inr r)
     \<longleftrightarrow> (case pb_catalog p of None \<Rightarrow> True | Some ents \<Rightarrow> list_all (usable_path \<circ> snd) (all_instances v))"
  using emap_returns [of "unresolved_client (sv_coordination v)" "co_clients (sv_coordination v)"]
  by (auto simp: rule_radiod_resolution_def rule_disk_budget_def rule_data_path_upstream_def Let_def ebind_returns
      emap_returns unresolved_returns upstream_returns list_all_iff split: option.split sum.split)

lemma rules_always_return:
  "\<exists>r. rule_radiod_status_configured v = Inr r" "\<exists>r. rule_frequency_coverage v = Inr r"
  "\<exists>r. rule_cpu_isolation repr v = Inr r" "\<exists>r. rule_timing_chain v = Inr r" "\<exists>r. rule_channel_count v = Inr r"
  "\<exists>r. rule_ka9q_python_compat p v = Inr r" "\<exists>r. rule_public_ip_guard p v = Inr r"
  by (simp_all add: rule_radiod_status_configured_def rule_frequency_coverage_def rule_cpu_isolation_def
      rule_timing_chain_def rule_channel_count_def rule_ka9q_python_compat_def rule_public_ip_guard_def Let_def
      split: option.split)


section \<open>A station that passes\<close>

definition quiet_probes :: probes where
  "quiet_probes = \<lparr> pb_repr = (\<lambda>_. []), pb_disk = (\<lambda>_. Inr (Some (100, 60))), pb_pin = None, pb_exists = (\<lambda>_. False),
     pb_read = (\<lambda>_. None), pb_home = ''/root'', pb_public = Some [], pb_catalog = None \<rparr>"

definition quiet_view :: system_view where
  "quiet_view = \<lparr> sv_coordination = empty_coordination \<lparr> co_clients := [\<lparr> ci_type = ''psk-recorder'',
       ci_instance = PStr ''default'', ci_radiod_id = PNone, ci_extras = [] \<rparr>] \<rparr>,
     sv_topology = psk_station, sv_client_views = [] \<rparr>"

lemma quiet_facts:
  "co_clients (sv_coordination quiet_view) = [\<lparr> ci_type = ''psk-recorder'', ci_instance = PStr ''default'',
     ci_radiod_id = PNone, ci_extras = [] \<rparr>]"
  "co_radiods (sv_coordination quiet_view) = []" "all_instances quiet_view = []"
  "pb_disk quiet_probes x = Inr (Some (100, 60))" "pb_catalog quiet_probes = None" "pb_public quiet_probes = Some []"
  by (simp_all add: quiet_view_def quiet_probes_def empty_coordination_def all_instances_def)

theorem validate_fails_exact_witness:
  "case run_rules (ALL_RULES quiet_probes) quiet_view of Inl e \<Rightarrow> False | Inr rs \<Rightarrow> worst_severity rs \<noteq> Fail"
proof -
  have "list_all (\<lambda>rule. \<exists>r. rule quiet_view = Inr r) (ALL_RULES quiet_probes)"
    unfolding ALL_RULES_def
    by (simp add: rules_return rules_always_return quiet_facts usable_id_def)
  then obtain rs where run: "run_rules (ALL_RULES quiet_probes) quiet_view = Inr rs"
    using run_rules_returns by blast
  show ?thesis
    using validate_fails_exact [OF run]
    by (simp add: run references_resolve_def addresses_set_def frequencies_fit_def cores_apart_def network_private_def
        quiet_facts)
qed

end
