(* ===== verification/Receivers.thy ===== *)
theory Receivers
  imports CoordEdit Instances
begin

text \<open>
  The receivers of a site (\<open>src/lib/sigmond/receivers.py\<close>): the \<open>[[receiver]]\<close> tables of the site profile,
  which say which radiod each reporter id listens to; reading them, checking the list, replacing one
  receiver, and declaring a merge.  The parsed TOML is a value.
\<close>

section \<open>A receiver and its table\<close>

record site_receiver = receiver +
  rc_kiwisdr :: string
  rc_antenna :: string
  rc_clients :: "string list"
  rc_injector :: bool
  rc_same_antenna :: string
  rc_upload :: "bool option"
  rc_merge_into :: string
  rc_merge_grid :: string

definition rc_uploads :: "site_receiver \<Rightarrow> bool" where
  "rc_uploads r = (case rc_upload r of Some b \<Rightarrow> b | None \<Rightarrow> rc_same_antenna r = [])"

datatype receiver_error =
    UnknownKey nat string
  | NoReporterId nat
  | BadReporterId string
  | NotText string string
  | NotFlag string string
  | NotNames string
  | NotTables
  | BadCall string
  | GridAlone
  | BadGrid string
  | NoReceiver string

definition RECEIVER_KEYS :: "string list" where
  "RECEIVER_KEYS = [''reporter_id'', ''clients'', ''radiod'', ''kiwisdr'', ''antenna'', ''same_antenna_as'',
     ''merge_into'', ''merge_grid'', ''injector'', ''upload'']"

definition storage_of :: "string \<Rightarrow> receiver_error + string" where
  "storage_of rid = (case parse_user_reporter_id rid of Inl e \<Rightarrow> Inl (BadReporterId rid) | Inr k \<Rightarrow> Inr k)"

definition display_of :: "string \<Rightarrow> receiver_error + string" where
  "display_of rid = ebind (storage_of rid) (\<lambda>k. Inr (display_reporter_id k))"

definition str_field :: "string \<Rightarrow> (string, pyval) dict \<Rightarrow> string \<Rightarrow> receiver_error + string" where
  "str_field who t key = (case map_of t key of None \<Rightarrow> Inr []
     | Some (PStr s) \<Rightarrow> Inr s | Some _ \<Rightarrow> Inl (NotText who key))"

definition bool_field :: "string \<Rightarrow> (string, pyval) dict \<Rightarrow> string \<Rightarrow> receiver_error + bool option" where
  "bool_field who t key = (case map_of t key of None \<Rightarrow> Inr None
     | Some (PBool b) \<Rightarrow> Inr (Some b) | Some _ \<Rightarrow> Inl (NotFlag who key))"

definition text_of :: "pyval \<Rightarrow> string option" where
  "text_of v = (case v of PStr s \<Rightarrow> Some s | _ \<Rightarrow> None)"

definition names_field :: "string \<Rightarrow> (string, pyval) dict \<Rightarrow> receiver_error + string list" where
  "names_field who t = (case map_of t ''clients'' of None \<Rightarrow> Inr []
     | Some (PList xs) \<Rightarrow>
         if list_all (\<lambda>x. text_of x \<noteq> None) xs then Inr (map (\<lambda>x. the (text_of x)) xs) else Inl (NotNames who)
     | Some _ \<Rightarrow> Inl (NotNames who))"

definition receiver_from_table :: "nat \<Rightarrow> (string, pyval) dict \<Rightarrow> receiver_error + site_receiver" where
  "receiver_from_table i t =
     (case filter (\<lambda>k. k \<notin> set RECEIVER_KEYS) (map fst t) of
        k # _ \<Rightarrow> Inl (UnknownKey i k)
      | [] \<Rightarrow>
     (case dget t ''reporter_id'' PNone of
        PStr s \<Rightarrow>
          if strip s = [] then Inl (NoReporterId i) else
          ebind (display_of s) (\<lambda>rid.
          ebind (str_field rid t ''radiod'') (\<lambda>radiod.
          ebind (str_field rid t ''kiwisdr'') (\<lambda>kiwisdr.
          ebind (str_field rid t ''antenna'') (\<lambda>antenna.
          ebind (str_field rid t ''same_antenna_as'') (\<lambda>same.
          ebind (str_field rid t ''merge_into'') (\<lambda>into.
          ebind (str_field rid t ''merge_grid'') (\<lambda>grid.
          ebind (bool_field rid t ''injector'') (\<lambda>injector.
          ebind (bool_field rid t ''upload'') (\<lambda>upload.
          ebind (names_field rid t) (\<lambda>clients.
          Inr \<lparr> rc_reporter_id = rid, rc_radiod = radiod, rc_kiwisdr = kiwisdr, rc_antenna = antenna,
            rc_clients = clients, rc_injector = (injector = Some True), rc_same_antenna = same,
            rc_upload = upload, rc_merge_into = into, rc_merge_grid = grid \<rparr>))))))))))
      | _ \<Rightarrow> Inl (NoReporterId i)))"

fun receivers_from :: "nat \<Rightarrow> pyval list \<Rightarrow> receiver_error + site_receiver list" where
  "receivers_from i [] = Inr []"
| "receivers_from i (PDict t # ts) =
     ebind (receiver_from_table i t) (\<lambda>r. ebind (receivers_from (Suc i) ts) (\<lambda>rs. Inr (r # rs)))"
| "receivers_from i (_ # ts) = Inl NotTables"

definition is_table :: "pyval \<Rightarrow> bool" where
  "is_table v = (case v of PDict _ \<Rightarrow> True | _ \<Rightarrow> False)"

text \<open>\<open>load_receivers\<close>: \<open>None\<close> is a file that is not there.\<close>

definition load_receivers :: "(string, pyval) dict option \<Rightarrow> receiver_error + site_receiver list" where
  "load_receivers data = (case data of None \<Rightarrow> Inr []
     | Some d \<Rightarrow> (case dget d ''receiver'' (PList []) of
         PList ts \<Rightarrow> if list_all is_table ts then receivers_from 0 ts else Inl NotTables
       | _ \<Rightarrow> Inl NotTables))"

section \<open>Checking the list\<close>

definition REPORTER_KEYED :: "string list" where
  "REPORTER_KEYED = [''wspr-recorder'', ''psk-recorder'', ''meteor-scatter'']"

definition effective_clients :: "site_receiver \<Rightarrow> string list \<Rightarrow> string list" where
  "effective_clients r profile_clients =
     (if rc_clients r \<noteq> [] then rc_clients r
      else sorted_set (filter (\<lambda>c. c \<in> set profile_clients) REPORTER_KEYED))"

datatype receiver_problem =
    IdRefused string
  | IdTwice string
  | BothSources string
  | KiwiLater string
  | NoRadiod string
  | BadRadiod string string
  | NotPerReporter string string
  | NeedsSameAntenna string string string
  | InjectorsOn string
  | SameIsItself string
  | SameUnknown string string
  | SameElsewhere string string string
  | InjectorTwice

definition id_step ::
  "site_receiver \<Rightarrow> (string, site_receiver) dict \<times> receiver_problem list \<Rightarrow>
   (string, site_receiver) dict \<times> receiver_problem list" where
  "id_step r s = (case (s, storage_of (rc_reporter_id r)) of
       ((keys, msgs), Inl e) \<Rightarrow> (keys, msgs @ [IdRefused (rc_reporter_id r)])
     | ((keys, msgs), Inr k) \<Rightarrow>
         if map_of keys k \<noteq> None then (keys, msgs @ [IdTwice (display_reporter_id k)])
         else (AList.update k r keys, msgs))"

definition source_problems :: "site_receiver \<Rightarrow> receiver_problem list" where
  "source_problems r =
     (let who = rc_reporter_id r in
      (if rc_radiod r \<noteq> [] \<and> rc_kiwisdr r \<noteq> [] then [BothSources who]
       else if rc_kiwisdr r \<noteq> [] then [KiwiLater who]
       else if rc_radiod r = [] then [NoRadiod who]
       else if \<not> valid_mdns_hostname (rc_radiod r) then [BadRadiod who (rc_radiod r)] else [])
      @ map (NotPerReporter who) (filter (\<lambda>c. c \<notin> set REPORTER_KEYED) (rc_clients r)))"

definition radiod_key :: "site_receiver \<Rightarrow> string" where
  "radiod_key r = lower_latin (rc_radiod r)"

definition add_group ::
  "site_receiver \<Rightarrow> (string, site_receiver list) dict \<Rightarrow> (string, site_receiver list) dict" where
  "add_group r d =
     (if rc_radiod r \<noteq> [] \<and> rc_kiwisdr r = [] then AList.update (radiod_key r) (dget d (radiod_key r) [] @ [r]) d
      else d)"

definition group_problems :: "site_receiver list \<Rightarrow> receiver_problem list" where
  "group_problems g =
     map (\<lambda>r. NeedsSameAntenna (rc_reporter_id r) (rc_radiod (hd g)) (rc_reporter_id (hd g)))
       (filter (\<lambda>r. rc_same_antenna r = []) (tl g))
     @ (if 1 < length (filter rc_injector g) then [InjectorsOn (rc_radiod (hd g))] else [])"

definition key_or_none :: "string \<Rightarrow> string option" where
  "key_or_none rid = (case storage_of rid of Inl e \<Rightarrow> None | Inr k \<Rightarrow> Some k)"

definition same_problems :: "(string, site_receiver) dict \<Rightarrow> site_receiver \<Rightarrow> receiver_problem list" where
  "same_problems keys r =
     (if rc_same_antenna r = [] then [] else
      let k = key_or_none (rc_same_antenna r); other = (case k of None \<Rightarrow> None | Some k \<Rightarrow> map_of keys k) in
      if k \<noteq> None \<and> k = key_or_none (rc_reporter_id r) then [SameIsItself (rc_reporter_id r)]
      else (case other of None \<Rightarrow> [SameUnknown (rc_reporter_id r) (rc_same_antenna r)]
        | Some o' \<Rightarrow> if radiod_key o' \<noteq> radiod_key r
            then [SameElsewhere (rc_reporter_id r) (rc_same_antenna r) (rc_radiod o')] else []))"

definition validate_receivers :: "site_receiver list \<Rightarrow> receiver_problem list" where
  "validate_receivers rs =
     (case fold id_step rs ([], []) of (keys, msgs) \<Rightarrow>
       msgs @ concat (map source_problems rs)
       @ concat (map (\<lambda>(k, g). group_problems g) (fold add_group rs []))
       @ concat (map (same_problems keys) rs)
       @ (if 1 < length (filter rc_injector rs) then [InjectorTwice] else []))"

section \<open>Changing the list\<close>

definition carry_unset :: "bool \<Rightarrow> site_receiver \<Rightarrow> site_receiver \<Rightarrow> site_receiver" where
  "carry_unset keep old r =
     (if \<not> keep then r else r \<lparr>
        rc_antenna := (if rc_antenna r = [] then rc_antenna old else rc_antenna r),
        rc_same_antenna := (if rc_same_antenna r = [] then rc_same_antenna old else rc_same_antenna r),
        rc_upload := (if rc_upload r = None then rc_upload old else rc_upload r),
        rc_merge_into := (if rc_merge_into r = [] then rc_merge_into old else rc_merge_into r),
        rc_merge_grid := (if rc_merge_grid r = [] then rc_merge_grid old else rc_merge_grid r) \<rparr>)"

fun merge_rows ::
  "bool \<Rightarrow> string \<Rightarrow> site_receiver \<Rightarrow> site_receiver list \<Rightarrow> receiver_error + site_receiver list \<times> bool" where
  "merge_rows keep key r [] = Inr ([], False)"
| "merge_rows keep key r (old # rest) =
     ebind (storage_of (rc_reporter_id old)) (\<lambda>k.
     ebind (merge_rows keep key r rest) (\<lambda>(out, found).
     Inr (if k \<noteq> key then (old # out, found)
       else (carry_unset keep old (r \<lparr> rc_reporter_id := display_reporter_id key \<rparr>) # out, True))))"

definition merged_receivers ::
  "bool \<Rightarrow> site_receiver list \<Rightarrow> site_receiver \<Rightarrow> receiver_error + site_receiver list" where
  "merged_receivers keep current r =
     ebind (storage_of (rc_reporter_id r)) (\<lambda>key.
     ebind (merge_rows keep key r current) (\<lambda>(out, found).
     Inr (if found then out else out @ [r \<lparr> rc_reporter_id := display_reporter_id key \<rparr>])))"

text \<open>\<open>_CALL_RE\<close> and \<open>_GRID_RE\<close>, on stripped texts, so that no line feed is left for the \<open>$\<close> to pass over.\<close>

definition call_ok :: "string \<Rightarrow> bool" where
  "call_ok s = (1 \<le> length s \<and> length s \<le> 16 \<and> list_all (\<lambda>c. is_upper c \<or> is_digit c \<or> c = CHR ''/'') s)"

definition letter_upto :: "char \<Rightarrow> char \<Rightarrow> bool" where
  "letter_upto z c = ((is_upper c \<or> is_lower c) \<and> lower_char c \<le> lower_char z)"

definition grid_ok :: "string \<Rightarrow> bool" where
  "grid_ok s = (case s of
       [a, b, c, d] \<Rightarrow> list_all (letter_upto (CHR ''R'')) [a, b] \<and> list_all is_digit [c, d]
     | [a, b, c, d, e, f] \<Rightarrow> list_all (letter_upto (CHR ''R'')) [a, b] \<and> list_all is_digit [c, d]
         \<and> list_all (letter_upto (CHR ''X'')) [e, f]
     | _ \<Rightarrow> False)"

definition set_merge_one ::
  "site_receiver list \<Rightarrow> string \<Rightarrow> string \<Rightarrow> string \<Rightarrow> site_receiver list \<Rightarrow> receiver_error + site_receiver list" where
  "set_merge_one current into grid rid out =
     ebind (storage_of rid) (\<lambda>k.
     case map_of (rev (map (\<lambda>r. (key_or_none (rc_reporter_id r), r)) current)) (Some k) of
       None \<Rightarrow> Inl (NoReceiver rid)
     | Some old \<Rightarrow> merged_receivers False out (old \<lparr> rc_merge_into := into, rc_merge_grid := grid \<rparr>))"

definition set_merge ::
  "site_receiver list \<Rightarrow> string list \<Rightarrow> string \<Rightarrow> string \<Rightarrow> receiver_error + site_receiver list" where
  "set_merge current reporters into grid =
     (let into = upper (strip into); grid = strip grid in
      if into \<noteq> [] \<and> \<not> call_ok into then Inl (BadCall into)
      else if into = [] \<and> grid \<noteq> [] then Inl GridAlone
      else if grid \<noteq> [] \<and> \<not> grid_ok grid then Inl (BadGrid grid)
      else (case filter (\<lambda>r. key_or_none (rc_reporter_id r) = None) current of
          r # _ \<Rightarrow> Inl (BadReporterId (rc_reporter_id r))
        | [] \<Rightarrow> efold (set_merge_one current into grid) reporters current))"

section \<open>What a clean list is\<close>

definition on_radiod :: "site_receiver \<Rightarrow> bool" where
  "on_radiod r \<longleftrightarrow> rc_radiod r \<noteq> [] \<and> rc_kiwisdr r = []"

definition receiver_key :: "site_receiver \<Rightarrow> string option" where
  "receiver_key r = key_or_none (rc_reporter_id r)"

text \<open>The receiver at hand names a radiod and no KiwiSDR, and only per-reporter clients.\<close>

definition sound_source :: "site_receiver \<Rightarrow> bool" where
  "sound_source r \<longleftrightarrow> rc_kiwisdr r = [] \<and> valid_mdns_hostname (rc_radiod r)
     \<and> set (rc_clients r) \<subseteq> set REPORTER_KEYED"

text \<open>The receiver whose antenna it shares is another one of the list, on the same radiod.\<close>

definition sound_sharing :: "site_receiver list \<Rightarrow> site_receiver \<Rightarrow> bool" where
  "sound_sharing rs r \<longleftrightarrow> rc_same_antenna r = []
     \<or> (\<exists>q \<in> set rs. key_or_none (rc_same_antenna r) = receiver_key q \<and> receiver_key q \<noteq> None
          \<and> receiver_key q \<noteq> receiver_key r \<and> radiod_key q = radiod_key r)"

lemma key_or_none_Some: "key_or_none rid = Some k \<longleftrightarrow> storage_of rid = Inr k"
  by (auto simp: key_or_none_def split: sum.splits)

lemma key_or_none_None: "key_or_none rid = None \<longleftrightarrow> (\<exists>e. storage_of rid = Inl e)"
  by (auto simp: key_or_none_def split: sum.splits)

lemma ids_step:
  "distinct (map fst keys) \<Longrightarrow>
   (case fold id_step rs (keys, msgs) of (keys', msgs') \<Rightarrow>
     (msgs' = [] \<longleftrightarrow> msgs = [] \<and> list_all (\<lambda>r. receiver_key r \<noteq> None) rs
        \<and> distinct (map receiver_key rs) \<and> list_all (\<lambda>r. receiver_key r \<notin> Some ` fst ` set keys) rs)
     \<and> (msgs' = [] \<longrightarrow> keys' = keys @ map (\<lambda>r. (the (receiver_key r), r)) rs))"
proof (induction rs arbitrary: keys msgs)
  case (Cons r rs)
  show ?case
  proof (cases "storage_of (rc_reporter_id r)")
    case (Inl e)
    then have "receiver_key r = None" by (simp add: receiver_key_def key_or_none_def)
    with Cons.IH [OF Cons.prems, of "msgs @ [IdRefused (rc_reporter_id r)]"] Inl show ?thesis
      by (simp add: id_step_def split: prod.splits)
  next
    case (Inr k)
    then have k: "receiver_key r = Some k" by (simp add: receiver_key_def key_or_none_def)
    show ?thesis
    proof (cases "map_of keys k")
      case None
      then have fresh: "k \<notin> fst ` set keys" by (simp add: map_of_eq_None_iff)
      have up: "AList.update k r keys = keys @ [(k, r)]" by (rule update_new [OF None])
      have "distinct (map fst (keys @ [(k, r)]))" using Cons.prems fresh by simp
      from Cons.IH [OF this, of msgs] show ?thesis
        using k fresh None by (auto simp: id_step_def Inr up list_all_iff image_iff split: prod.splits)
    next
      case (Some q)
      then have "k \<in> fst ` set keys" by (metis domI dom_map_of_conv_image_fst)
      with Cons.IH [OF Cons.prems, of "msgs @ [IdTwice (display_reporter_id k)]"] show ?thesis
        using k Some by (auto simp: id_step_def Inr split: prod.splits)
    qed
  qed
qed simp

lemma groups_lookup:
  "dget (fold add_group rs d) k [] = dget d k [] @ filter (\<lambda>r. on_radiod r \<and> radiod_key r = k) rs"
proof (induction rs arbitrary: d)
  case (Cons r rs)
  show ?case unfolding fold_simps comp_def Cons.IH
    by (simp add: add_group_def on_radiod_def dget_def update_conv')
qed simp

lemma groups_keys: "distinct (map fst d) \<Longrightarrow> distinct (map fst (fold add_group rs d))"
  by (induction rs arbitrary: d) (simp_all add: add_group_def distinct_update)

lemma groups_members:
  assumes "(k, g) \<in> set (fold add_group rs [])"
  shows "g = filter (\<lambda>r. on_radiod r \<and> radiod_key r = k) rs"
proof -
  have "map_of (fold add_group rs []) k = Some g"
    using groups_keys [of "[]" rs] assms by simp
  then show ?thesis using groups_lookup [of rs "[]" k] by (simp add: dget_def)
qed

lemma groups_all: "filter (\<lambda>r. on_radiod r \<and> radiod_key r = k) rs \<noteq> [] \<Longrightarrow> \<exists>g. (k, g) \<in> set (fold add_group rs [])"
  using groups_lookup [of rs "[]" k] by (auto simp: dget_def split: option.splits dest!: map_of_SomeD)

lemma sharing_pairs:
  "(\<forall>k. list_all Q (tl (filter (\<lambda>r. P r \<and> f r = k) rs))) \<longleftrightarrow>
   sorted_wrt (\<lambda>a b. P a \<and> P b \<and> f a = f b \<longrightarrow> Q b) rs"
proof (induction rs)
  case (Cons r rs)
  show ?case
  proof (cases "P r")
    case True
    have "(\<forall>k. list_all Q (tl (filter (\<lambda>r. P r \<and> f r = k) (r # rs)))) \<longleftrightarrow>
      list_all Q (filter (\<lambda>s. P s \<and> f s = f r) rs) \<and> (\<forall>k. list_all Q (tl (filter (\<lambda>r. P r \<and> f r = k) rs)))"
    proof -
      have "list_all Q xs \<Longrightarrow> list_all Q (tl xs)" for xs by (cases xs) simp_all
      then show ?thesis using True by auto
    qed
    with Cons True show ?thesis by (auto simp: list_all_iff)
  qed (use Cons in auto)
qed (simp add: list_all_iff)

definition sharing_declared :: "site_receiver \<Rightarrow> site_receiver \<Rightarrow> bool" where
  "sharing_declared a b \<longleftrightarrow> (radiod_key a = radiod_key b \<longrightarrow> rc_same_antenna b \<noteq> [])"

lemma source_clean: "source_problems r = [] \<longleftrightarrow> sound_source r"
  by (auto simp: source_problems_def sound_source_def Let_def filter_empty_conv valid_mdns_hostname_def)

lemma sound_on_radiod: "sound_source r \<Longrightarrow> on_radiod r"
  by (auto simp: sound_source_def on_radiod_def valid_mdns_hostname_def)

lemma same_clean:
  assumes keyed: "list_all (\<lambda>r. receiver_key r \<noteq> None) rs" and "distinct (map receiver_key rs)"
  shows "same_problems (map (\<lambda>r. (the (receiver_key r), r)) rs) r = [] \<longleftrightarrow> sound_sharing rs r"
proof -
  let ?m = "map_of (map (\<lambda>r. (the (receiver_key r), r)) rs)"
  have inj: "distinct (map (\<lambda>r. the (receiver_key r)) rs)"
    using assms by (auto simp: distinct_map inj_on_def list_all_iff) (metis option.sel)
  have look: "?m k = Some q \<longleftrightarrow> q \<in> set rs \<and> receiver_key q = Some k" for k q
  proof -
    have "?m k = Some q \<longleftrightarrow> (k, q) \<in> set (map (\<lambda>r. (the (receiver_key r), r)) rs)"
      using inj by (intro map_of_eq_Some_iff) (simp add: comp_def)
    then show ?thesis using keyed by (force simp: list_all_iff)
  qed
  show ?thesis
  proof (cases "rc_same_antenna r = []")
    case False
    then have eq: "same_problems (map (\<lambda>r. (the (receiver_key r), r)) rs) r = [] \<longleftrightarrow>
      (\<exists>k q. key_or_none (rc_same_antenna r) = Some k \<and> ?m k = Some q \<and> receiver_key r \<noteq> Some k
         \<and> radiod_key q = radiod_key r)"
      by (auto simp: same_problems_def Let_def receiver_key_def split: option.splits)
    show ?thesis unfolding eq look sound_sharing_def using False by (auto, metis)
  qed (simp add: same_problems_def sound_sharing_def)
qed

lemma group_clean: "group_problems g = [] \<longleftrightarrow>
  list_all (\<lambda>r. rc_same_antenna r \<noteq> []) (tl g) \<and> length (filter rc_injector g) \<le> 1"
  by (auto simp: group_problems_def filter_empty_conv list_all_iff)

text \<open>C37. \<open>validate_receivers\<close> finds nothing to say exactly when every id is a reporter id and none occurs
  twice, every receiver names a valid radiod and per-reporter clients only, on each radiod every
  receiver after the first says whose antenna it shares, what it names is another receiver of that
  radiod, and at most one receiver carries the injector.\<close>

theorem receivers_clean_exact:
  "validate_receivers rs = [] \<longleftrightarrow>
     list_all (\<lambda>r. receiver_key r \<noteq> None \<and> sound_source r \<and> sound_sharing rs r) rs
     \<and> distinct (map receiver_key rs) \<and> sorted_wrt sharing_declared rs
     \<and> length (filter rc_injector rs) \<le> 1" (is "_ \<longleftrightarrow> ?R")
proof -
  obtain keys msgs where f: "fold id_step rs ([], []) = (keys, msgs)" by (cases "fold id_step rs ([], [])")
  have ids: "msgs = [] \<longleftrightarrow> list_all (\<lambda>r. receiver_key r \<noteq> None) rs \<and> distinct (map receiver_key rs)"
    "msgs = [] \<Longrightarrow> keys = map (\<lambda>r. (the (receiver_key r), r)) rs"
    using ids_step [where keys = "[]" and msgs = "[]" and rs = rs] f by (auto simp: list_all_iff)
  let ?groups = "fold add_group rs []"
  have "validate_receivers rs = [] \<longleftrightarrow> msgs = [] \<and> list_all (\<lambda>r. source_problems r = []) rs
    \<and> (\<forall>(k, g) \<in> set ?groups. group_problems g = []) \<and> list_all (\<lambda>r. same_problems keys r = []) rs
    \<and> length (filter rc_injector rs) \<le> 1"
    by (auto simp: validate_receivers_def f concat_eq_Nil_conv list_all_iff)
  also have "\<dots> \<longleftrightarrow> msgs = [] \<and> list_all sound_source rs \<and> (\<forall>(k, g) \<in> set ?groups. group_problems g = [])
    \<and> list_all (sound_sharing rs) rs \<and> length (filter rc_injector rs) \<le> 1"
    using ids same_clean [of rs] by (auto simp: source_clean)
  also have "\<dots> \<longleftrightarrow> ?R"
  proof -
    have "(\<forall>(k, g) \<in> set ?groups. group_problems g = []) \<longleftrightarrow> sorted_wrt sharing_declared rs"
      if s: "list_all sound_source rs" and inj: "length (filter rc_injector rs) \<le> 1"
    proof -
      let ?g = "\<lambda>k. filter (\<lambda>r. on_radiod r \<and> radiod_key r = k) rs"
      have one: "length (filter rc_injector (?g k)) \<le> 1" for k
        using inj length_filter_le [of "\<lambda>r. on_radiod r \<and> radiod_key r = k" "filter rc_injector rs"]
        by (simp add: conj_commute)
      have "(\<forall>(k, g) \<in> set ?groups. group_problems g = []) \<longleftrightarrow>
        (\<forall>k. list_all (\<lambda>r. rc_same_antenna r \<noteq> []) (tl (?g k)))"
      proof (intro iffI allI)
        fix k
        assume clean: "\<forall>(k, g) \<in> set ?groups. group_problems g = []"
        show "list_all (\<lambda>r. rc_same_antenna r \<noteq> []) (tl (?g k))"
        proof (cases "?g k = []")
          case False
          with groups_all obtain g where "(k, g) \<in> set ?groups" by blast
          with clean groups_members show ?thesis by (fastforce simp: group_clean)
        qed simp
      next
        assume sharing: "\<forall>k. list_all (\<lambda>r. rc_same_antenna r \<noteq> []) (tl (?g k))"
        have "group_problems g = []" if "(k, g) \<in> set ?groups" for k g
          unfolding groups_members [OF that] group_clean using sharing one by blast
        then show "\<forall>(k, g) \<in> set ?groups. group_problems g = []" by blast
      qed
      also have "\<dots> \<longleftrightarrow> sorted_wrt sharing_declared rs"
      proof -
        have on: "on_radiod r" if "r \<in> set rs" for r using s that sound_on_radiod by (simp add: list_all_iff)
        show ?thesis
          unfolding sharing_pairs
          by (intro iffI; erule sorted_wrt_mono_rel [rotated]) (auto simp: sharing_declared_def on)
      qed
      finally show ?thesis .
    qed
    then show ?thesis using ids(1) by (auto simp: list_all_iff)
  qed
  finally show ?thesis .
qed

section \<open>What a change of the list does\<close>

definition well_keyed :: "site_receiver list \<Rightarrow> bool" where
  "well_keyed rs \<longleftrightarrow> list_all (\<lambda>r. receiver_key r \<noteq> None) rs \<and> distinct (map receiver_key rs)"

definition receiver_at :: "site_receiver list \<Rightarrow> string \<Rightarrow> site_receiver option" where
  "receiver_at rs k = map_of (map (\<lambda>r. (receiver_key r, r)) rs) (Some k)"

lemma receiver_key_Some: "receiver_key r = Some k \<longleftrightarrow> storage_of (rc_reporter_id r) = Inr k"
  by (simp add: receiver_key_def key_or_none_Some)

lemma storage_valid: "storage_of rid = Inr k \<Longrightarrow> REPORTER_ID k"
  by (auto simp: storage_of_def parse_user_reporter_id_def validate_reporter_id_def Let_def
      split: sum.splits if_splits)

lemma storage_display: "storage_of rid = Inr k \<Longrightarrow> storage_of (display_reporter_id k) = Inr k"
  using parse_id(1) [OF storage_valid] by (simp add: storage_of_def)

lemma carried_key: "receiver_key (carry_unset keep old (r \<lparr> rc_reporter_id := rid \<rparr>)) = key_or_none rid"
  by (simp add: receiver_key_def carry_unset_def)

lemma merge_rows_map:
  assumes "list_all (\<lambda>r. receiver_key r \<noteq> None) current"
  shows "merge_rows keep key r current =
    Inr (map (\<lambda>old. if receiver_key old = Some key
        then carry_unset keep old (r \<lparr> rc_reporter_id := display_reporter_id key \<rparr>) else old) current,
      Some key \<in> set (map receiver_key current))"
  using assms
proof (induction current)
  case (Cons old rest)
  then obtain k where "receiver_key old = Some k" "storage_of (rc_reporter_id old) = Inr k"
    by (auto simp: receiver_key_Some)
  with Cons show ?case by (auto simp: receiver_key_def)
qed simp

text \<open>The list after one receiver is put in: its keys are those before it, the new one last.\<close>

lemma merged_map:
  assumes "list_all (\<lambda>r. receiver_key r \<noteq> None) current" and "receiver_key r = Some key"
  shows "merged_receivers keep current r = Inr (map (\<lambda>old. if receiver_key old = Some key
        then carry_unset keep old (r \<lparr> rc_reporter_id := display_reporter_id key \<rparr>) else old) current
      @ (if Some key \<in> set (map receiver_key current) then []
         else [r \<lparr> rc_reporter_id := display_reporter_id key \<rparr>]))"
  using assms(2) by (simp add: merged_receivers_def merge_rows_map [OF assms(1)] receiver_key_Some)

theorem merged_receivers_refines:
  assumes "well_keyed current" and "receiver_key r = Some key"
  shows "\<exists>out. merged_receivers keep current r = Inr out \<and> well_keyed out
    \<and> map receiver_key out = map receiver_key current
        @ (if Some key \<in> set (map receiver_key current) then [] else [Some key])
    \<and> receiver_at out = (receiver_at current)(key \<mapsto> (let new = r \<lparr> rc_reporter_id := display_reporter_id key \<rparr> in
        case receiver_at current key of None \<Rightarrow> new | Some old \<Rightarrow> carry_unset keep old new))"
proof -
  let ?new = "r \<lparr> rc_reporter_id := display_reporter_id key \<rparr>"
  let ?f = "\<lambda>old. if receiver_key old = Some key then carry_unset keep old ?new else old"
  let ?out = "map ?f current @ (if Some key \<in> set (map receiver_key current) then [] else [?new])"
  have nk: "key_or_none (display_reporter_id key) = Some key"
    using storage_display assms(2) by (auto simp: receiver_key_Some key_or_none_Some)
  then have new: "receiver_key ?new = Some key" "receiver_key (carry_unset keep old ?new) = Some key" for old
    using carried_key by (simp_all add: receiver_key_def)
  have keys: "map receiver_key ?out = map receiver_key current
      @ (if Some key \<in> set (map receiver_key current) then [] else [Some key])"
    by (auto simp: new)
  have at: "map_of (map (\<lambda>r. (receiver_key r, r)) (map ?f rs)) k =
      (if k = Some key then map_option (\<lambda>old. carry_unset keep old ?new) (map_of (map (\<lambda>r. (receiver_key r, r)) rs) k)
       else map_of (map (\<lambda>r. (receiver_key r, r)) rs) k)" for k rs
    by (induction rs) (auto simp: new)
  have none: "receiver_at current key = None \<longleftrightarrow> Some key \<notin> set (map receiver_key current)"
    by (simp add: receiver_at_def map_of_eq_None_iff image_image)
  have "receiver_at ?out = (receiver_at current)(key \<mapsto> (let new = ?new in
        case receiver_at current key of None \<Rightarrow> new | Some old \<Rightarrow> carry_unset keep old new))"
  proof (cases "receiver_at current key")
    case None
    with none show ?thesis by (auto simp: receiver_at_def fun_eq_iff at new map_add_def simp del: map_map split: option.splits)
  next
    case (Some old)
    with none have "Some key \<in> set (map receiver_key current)" by simp
    with Some show ?thesis by (auto simp: receiver_at_def fun_eq_iff at simp del: map_map)
  qed
  moreover have "well_keyed ?out"
  proof -
    have "list_all (\<lambda>k. k \<noteq> None) (map receiver_key ?out)" "distinct (map receiver_key ?out)"
      unfolding keys using assms(1) by (auto simp: well_keyed_def list.pred_map comp_def)
    then show ?thesis by (simp only: well_keyed_def list.pred_map comp_def)
  qed
  ultimately show ?thesis
    using merged_map [of current r key keep] assms keys by (auto simp: well_keyed_def)
qed

theorem merged_receivers_refines_witness:
  "\<exists>out. merged_receivers True [] (\<lparr> rc_reporter_id = ''ac0g/b1'', rc_radiod = ''bee1.local'', rc_kiwisdr = [],
     rc_antenna = [], rc_clients = [], rc_injector = False, rc_same_antenna = [], rc_upload = None,
     rc_merge_into = [], rc_merge_grid = [] \<rparr>) = Inr out \<and> map receiver_key out = [Some ''AC0G=B1'']"
proof -
  let ?r = "\<lparr> rc_reporter_id = ''ac0g/b1'', rc_radiod = ''bee1.local'', rc_kiwisdr = [],
     rc_antenna = [], rc_clients = [], rc_injector = False, rc_same_antenna = [], rc_upload = None,
     rc_merge_into = [], rc_merge_grid = [] \<rparr>"
  have "unescape_systemd_instance ''ac0g/b1'' = ''ac0g/b1''" by (rule unescape_plain) simp
  moreover have "strip ''ac0g/b1'' = ''ac0g/b1''" "upper ''ac0g/b1'' = ''AC0G/B1''"
    "replace_char (CHR ''/'') (CHR ''='') ''AC0G/B1'' = ''AC0G=B1''" "REPORTER_ID ''AC0G=B1''" by code_simp+
  ultimately have "receiver_key ?r = Some ''AC0G=B1''"
    by (simp add: receiver_key_Some storage_of_def parse_user_reporter_id_def validate_reporter_id_def)
  moreover have "well_keyed []" by (simp add: well_keyed_def)
  ultimately show ?thesis using merged_receivers_refines [of "[]" ?r "''AC0G=B1''" True] by auto
qed

section \<open>Declaring a merge\<close>

definition merge_ok :: "string \<Rightarrow> string \<Rightarrow> bool" where
  "merge_ok into grid \<longleftrightarrow> (if into = [] then grid = [] else call_ok into) \<and> (grid = [] \<or> grid_ok grid)"

definition merge_set :: "string option list \<Rightarrow> string \<Rightarrow> string \<Rightarrow> site_receiver \<Rightarrow> site_receiver" where
  "merge_set ks into grid r =
     (if receiver_key r \<in> set ks then r \<lparr> rc_merge_into := into, rc_merge_grid := grid \<rparr> else r)"

definition displayed :: "site_receiver \<Rightarrow> bool" where
  "displayed r \<longleftrightarrow> (case receiver_key r of None \<Rightarrow> False | Some k \<Rightarrow> rc_reporter_id r = display_reporter_id k)"

lemma merge_set_key [simp]: "receiver_key (merge_set ks into grid r) = receiver_key r"
  by (simp add: merge_set_def receiver_key_def)

lemma keyed_at:
  assumes "well_keyed current" and "map_of (rev (map (\<lambda>r. (receiver_key r, r)) current)) (Some k) = Some old"
  shows "old \<in> set current \<and> receiver_key old = Some k"
  using map_of_SomeD [OF assms(2)] by auto

lemma set_merge_row:
  assumes w: "well_keyed current" and d: "list_all displayed current" and k: "storage_of rid = Inr k"
    and known: "Some k \<in> receiver_key ` set current"
  shows "set_merge_one current into grid rid (map (merge_set ks into grid) current)
    = Inr (map (merge_set (Some k # ks) into grid) current)"
proof -
  obtain old where old: "map_of (rev (map (\<lambda>r. (receiver_key r, r)) current)) (Some k) = Some old"
    using known by (cases "map_of (rev (map (\<lambda>r. (receiver_key r, r)) current)) (Some k)")
      (auto simp: map_of_eq_None_iff image_image)
  from keyed_at [OF w old] have m: "old \<in> set current" "receiver_key old = Some k" by auto
  have id: "rc_reporter_id old = display_reporter_id k" using d m by (auto simp: list_all_iff displayed_def)
  let ?new = "old \<lparr> rc_merge_into := into, rc_merge_grid := grid \<rparr>"
  have key: "receiver_key ?new = Some k" using m(2) by (simp add: receiver_key_def)
  have same: "?new \<lparr> rc_reporter_id := display_reporter_id k \<rparr> = ?new" using id by simp
  let ?current = "map (merge_set ks into grid) current"
  have keyed: "list_all (\<lambda>r. receiver_key r \<noteq> None) ?current"
    using w by (simp add: well_keyed_def list.pred_map comp_def)
  have "Some k \<in> set (map receiver_key ?current)" using known by (auto simp: image_image)
  then have "merged_receivers False ?current ?new
      = Inr (map (\<lambda>r. if receiver_key r = Some k then ?new else r) ?current)"
    unfolding merged_map [OF keyed key] same by (simp add: carry_unset_def)
  also have "map (\<lambda>r. if receiver_key r = Some k then ?new else r) ?current
      = map (merge_set (Some k # ks) into grid) current"
  proof -
    have "r = old" if "r \<in> set current" "receiver_key r = Some k" for r
      using w m that by (auto simp: well_keyed_def distinct_map inj_on_def)
    then show ?thesis by (auto simp: merge_set_def receiver_key_def)
  qed
  finally show ?thesis using k old by (simp add: set_merge_one_def receiver_key_def [symmetric])
qed

lemma set_merge_rows:
  assumes w: "well_keyed current" and d: "list_all displayed current"
  shows "efold (set_merge_one current into grid) reporters (map (merge_set ks into grid) current) = Inr out \<longleftrightarrow>
    list_all (\<lambda>rid. key_or_none rid \<in> receiver_key ` set current) reporters
    \<and> out = map (merge_set (rev (map key_or_none reporters) @ ks) into grid) current"
proof (induction reporters arbitrary: ks)
  case (Cons rid reporters)
  show ?case
  proof (cases "key_or_none rid \<in> receiver_key ` set current")
    case True
    have "None \<notin> receiver_key ` set current" using w by (auto simp: well_keyed_def list_all_iff)
    with True obtain k where k: "key_or_none rid = Some k" by (cases "key_or_none rid") auto
    then have "storage_of rid = Inr k" by (simp add: key_or_none_Some)
    with True k Cons.IH [of "Some k # ks"] show ?thesis by (simp add: set_merge_row [OF w d])
  next
    case False
    have "set_merge_one current into grid rid xs \<noteq> Inr ys" for xs ys
    proof (cases "storage_of rid")
      case (Inr k)
      with False have "Some k \<notin> receiver_key ` set current" by (simp add: key_or_none_def)
      then have "map_of (rev (map (\<lambda>r. (receiver_key r, r)) current)) (Some k) = None"
        by (auto simp: map_of_eq_None_iff image_image)
      with Inr show ?thesis by (simp add: set_merge_one_def receiver_key_def [symmetric])
    qed (simp add: set_merge_one_def)
    then show ?thesis using False by (simp add: ebind_eq_Inr)
  qed
qed (auto simp: )

text \<open>Declaring a merge answers exactly when the call and the grid are ones and every reporter named is
  in the list, and then it changes the two merge fields of those receivers and nothing else.\<close>

theorem set_merge_exact:
  assumes "well_keyed current" and "list_all displayed current"
  shows "set_merge current reporters into grid = Inr out \<longleftrightarrow>
    merge_ok (upper (strip into)) (strip grid)
    \<and> list_all (\<lambda>rid. key_or_none rid \<in> receiver_key ` set current) reporters
    \<and> out = map (merge_set (map key_or_none reporters) (upper (strip into)) (strip grid)) current"
proof -
  have ids: "filter (\<lambda>r. key_or_none (rc_reporter_id r) = None) current = []"
    using assms(1) by (auto simp: well_keyed_def list_all_iff filter_empty_conv receiver_key_def)
  have "map (merge_set [] into grid) current = current" for into grid
    by (rule map_idI) (simp add: merge_set_def)
  then have "efold (set_merge_one current (upper (strip into)) (strip grid)) reporters current = Inr out \<longleftrightarrow>
    list_all (\<lambda>rid. key_or_none rid \<in> receiver_key ` set current) reporters
    \<and> out = map (merge_set (rev (map key_or_none reporters)) (upper (strip into)) (strip grid)) current"
    using set_merge_rows [OF assms, of "upper (strip into)" "strip grid" reporters "[]" out] by simp
  then show ?thesis by (auto simp: set_merge_def merge_ok_def Let_def ids merge_set_def)
qed

end
