(* ===== verification/UploadState.thy ===== *)
theory UploadState
  imports Receivers
begin

text \<open>
  What the uploads of a station need and what its sink switches say: the status that hs-uploader prints
  (\<open>src/lib/sigmond/sink_state.py\<close>: the parsed document is the argument) and the credentials each upload path
  needs (\<open>src/lib/sigmond/upload_creds.py\<close>: the files of the host and their parsed content are arguments).
\<close>

section \<open>The sink switches\<close>

record sink_site =
  ss_state :: string
  ss_error :: string
  ss_set_at :: string
  ss_set_by :: string
  ss_reason :: string

record sink_client =
  sc_file_state :: string
  sc_effective :: string
  sc_held_by :: "string option"
  sc_error :: string
  sc_pipelines :: "string list"

record held_pipeline =
  hp_pipeline :: string
  hp_client :: "string option"
  hp_held_by :: string
  hp_reason :: string

record refused_file =
  rf_file :: "string option"
  rf_pipeline :: "string option"
  rf_client :: "string option"
  rf_reason :: string

record sink_state =
  si_enforced :: bool
  si_site :: sink_site
  si_clients :: "(string, sink_client) dict"
  si_held :: "held_pipeline list"
  si_refused :: "refused_file list"
  si_no_client :: "string list"
  si_builder :: "string list"
  si_errors :: "string list"
  si_marker :: string
  si_sinks_dir :: string

definition partial_state :: "sink_state \<Rightarrow> bool" where
  "partial_state s = (si_errors s \<noteq> [])"

definition below_upload :: "sink_state \<Rightarrow> string list" where
  "below_upload s = sort (map fst (filter (\<lambda>(n, c). sc_effective c \<noteq> ''upload'') (si_clients s)))"

text \<open>\<open>v[k]\<close>, the iteration over a value, \<open>_str\<close>, \<open>_opt\<close> and \<open>_names\<close>.\<close>

definition index_of :: "pyval \<Rightarrow> string \<Rightarrow> py_error + pyval" where
  "index_of v k = (case v of
       PDict d \<Rightarrow> (case map_of d k of Some x \<Rightarrow> Inr x | None \<Rightarrow> Inl (KeyError k))
     | _ \<Rightarrow> Inl TypeError)"

definition iterate :: "pyval \<Rightarrow> py_error + pyval list" where
  "iterate v = (case v of PList xs \<Rightarrow> Inr xs | PDict d \<Rightarrow> Inr (map (PStr \<circ> fst) d)
     | PStr s \<Rightarrow> Inr (map (\<lambda>c. PStr [c]) s) | _ \<Rightarrow> Inl TypeError)"

definition as_str :: "pyval \<Rightarrow> py_error + string" where
  "as_str v = (case v of PStr s \<Rightarrow> Inr s | _ \<Rightarrow> Inl TypeError)"

definition as_opt :: "pyval \<Rightarrow> py_error + string option" where
  "as_opt v = (case v of PNone \<Rightarrow> Inr None | _ \<Rightarrow> ebind (as_str v) (\<lambda>s. Inr (Some s)))"

definition as_names :: "pyval \<Rightarrow> py_error + string list" where
  "as_names v = (case v of PList xs \<Rightarrow> emap as_str xs | _ \<Rightarrow> Inl TypeError)"

definition str_at :: "pyval \<Rightarrow> string \<Rightarrow> py_error + string" where
  "str_at v k = ebind (index_of v k) as_str"

definition opt_at :: "pyval \<Rightarrow> string \<Rightarrow> py_error + string option" where
  "opt_at v k = ebind (index_of v k) as_opt"

definition names_at :: "pyval \<Rightarrow> string \<Rightarrow> py_error + string list" where
  "names_at v k = ebind (index_of v k) as_names"

definition rows_at :: "pyval \<Rightarrow> string \<Rightarrow> py_error + pyval list" where
  "rows_at v k = ebind (index_of v k) iterate"

definition build_site :: "pyval \<Rightarrow> py_error + sink_site" where
  "build_site s =
     ebind (str_at s ''state'') (\<lambda>st. ebind (str_at s ''error'') (\<lambda>err. ebind (str_at s ''set_at'') (\<lambda>set_at.
     ebind (str_at s ''set_by'') (\<lambda>by_whom. ebind (str_at s ''reason'') (\<lambda>why.
       Inr \<lparr> ss_state = st, ss_error = err, ss_set_at = set_at, ss_set_by = by_whom, ss_reason = why \<rparr>)))))"

definition build_client :: "pyval \<Rightarrow> (string, sink_client) dict \<Rightarrow> py_error + (string, sink_client) dict" where
  "build_client c out =
     ebind (str_at c ''client'') (\<lambda>n. ebind (str_at c ''file_state'') (\<lambda>fs. ebind (str_at c ''effective'') (\<lambda>eff.
     ebind (opt_at c ''held_by'') (\<lambda>held. ebind (str_at c ''error'') (\<lambda>err. ebind (names_at c ''pipelines'') (\<lambda>ps.
       Inr (AList.update n \<lparr> sc_file_state = fs, sc_effective = eff, sc_held_by = held, sc_error = err,
         sc_pipelines = ps \<rparr> out)))))))"

definition build_held :: "pyval \<Rightarrow> py_error + held_pipeline" where
  "build_held h =
     ebind (str_at h ''pipeline'') (\<lambda>p. ebind (opt_at h ''client'') (\<lambda>c. ebind (str_at h ''held_by'') (\<lambda>held.
     ebind (str_at h ''reason'') (\<lambda>why.
       Inr \<lparr> hp_pipeline = p, hp_client = c, hp_held_by = held, hp_reason = why \<rparr>))))"

definition build_refused :: "pyval \<Rightarrow> py_error + refused_file" where
  "build_refused r =
     ebind (opt_at r ''file'') (\<lambda>f. ebind (opt_at r ''pipeline'') (\<lambda>p. ebind (opt_at r ''client'') (\<lambda>c.
     ebind (str_at r ''reason'') (\<lambda>why.
       Inr \<lparr> rf_file = f, rf_pipeline = p, rf_client = c, rf_reason = why \<rparr>))))"

definition build_state :: "pyval \<Rightarrow> py_error + sink_state" where
  "build_state d =
     ebind (index_of d ''enforced'') (\<lambda>enf.
     ebind (case enf of PBool b \<Rightarrow> Inr b | _ \<Rightarrow> Inl TypeError) (\<lambda>enf.
     ebind (index_of d ''site'') (\<lambda>s. ebind (build_site s) (\<lambda>s.
     ebind (rows_at d ''clients'') (\<lambda>cs. ebind (efold build_client cs []) (\<lambda>cs.
     ebind (rows_at d ''held_pipelines'') (\<lambda>hs. ebind (emap build_held hs) (\<lambda>hs.
     ebind (rows_at d ''refused_files'') (\<lambda>rs. ebind (emap build_refused rs) (\<lambda>rs.
     ebind (names_at d ''no_client_pipelines'') (\<lambda>nc. ebind (names_at d ''builder_pipelines'') (\<lambda>bs.
     ebind (names_at d ''errors'') (\<lambda>es. ebind (str_at d ''marker'') (\<lambda>m. ebind (str_at d ''sinks_dir'') (\<lambda>dir.
       Inr \<lparr> si_enforced = enf, si_site = s, si_clients = cs, si_held = hs, si_refused = rs, si_no_client = nc,
         si_builder = bs, si_errors = es, si_marker = m, si_sinks_dir = dir \<rparr>)))))))))))))))"

text \<open>\<open>parse_status\<close> on the parsed document, \<open>None\<close> for a text that is no JSON; its schema must equal 1, which
  the float 1.0 does and \<open>true\<close> may not.\<close>

definition schema_one :: "pyval \<Rightarrow> bool" where
  "schema_one v = (v = PInt 1 \<or> v = PFloat (Fin 1))"

definition parse_status :: "pyval option \<Rightarrow> sink_state option" where
  "parse_status doc = (case doc of
       Some (PDict d) \<Rightarrow>
         if \<not> schema_one (dget d ''schema'' PNone) then None
         else (case build_state (PDict d) of Inr s \<Rightarrow> Some s | Inl e \<Rightarrow> None)
     | _ \<Rightarrow> None)"

text \<open>The answer of the call: \<open>None\<close> when it failed or timed out, else its exit code and its parsed output.\<close>

definition read_state :: "(int \<times> pyval option) option \<Rightarrow> sink_state option" where
  "read_state call = (case call of None \<Rightarrow> None | Some (rc, out) \<Rightarrow> if rc \<noteq> 0 then None else parse_status out)"

datatype lstat_answer = Stands | NoSuchFile | NotADirectory | OtherOSError

definition marker_stands :: "lstat_answer \<Rightarrow> bool" where
  "marker_stands a = (a \<noteq> NoSuchFile \<and> a \<noteq> NotADirectory)"

definition update_notice :: "lstat_answer \<Rightarrow> string set option \<Rightarrow> string option" where
  "update_notice marker features =
     (if marker_stands marker then None
      else case features of None \<Rightarrow> None
        | Some fs \<Rightarrow> if ''gate'' \<notin> fs then None
            else Some ''the sink switches take effect at the next `smd align`'')"

section \<open>Credentials of the upload paths\<close>

record upload_path =
  ul_path :: string
  ul_recorder :: string
  ul_needs_creds :: bool
  ul_ready :: bool
  ul_missing :: string
  ul_fix :: string

record creds_host =
  ch_repr :: "pyval \<Rightarrow> string"
  ch_toml :: "string \<Rightarrow> (string, pyval) dict"
  ch_exists :: "string \<Rightarrow> bool"
  ch_is_dir :: "string \<Rightarrow> bool"

definition HS_UPLOADER_KEY :: string where "HS_UPLOADER_KEY = ''/etc/hs-uploader/keys/id_ed25519''"

definition HS_UPLOADER_KEY_HOST :: string where
  "HS_UPLOADER_KEY_HOST = ''/etc/hs-uploader/keys/id_ed25519_host''"

definition FIX :: "(string, string) dict" where
  "FIX = [
     (''wspr-recorder'', ''the hs-uploader key self-generates on first upload; force it with `smd admin secrets`''),
     (''hf-timestd'', ''smd config edit hf-timestd  (set [station] id + instrument_id),  then  smd psws enroll''),
     (''mag-recorder'', ''smd config edit mag-recorder  (set [station] psws_station_id; instrument_id is PSWS-issued, a short number),  then  smd psws enroll'')]"

definition is_placeholder :: "(pyval \<Rightarrow> string) \<Rightarrow> pyval \<Rightarrow> bool" where
  "is_placeholder repr v = (let s = (if v = PNone then [] else strip (py_str repr v)) in
     s = [] \<or> starts_with s ''<YOUR'')"

definition hs_uploader_key_status :: "creds_host \<Rightarrow> py_error + bool \<times> string" where
  "hs_uploader_key_status h =
     ebind (sub_table (ch_toml h ''/etc/hs-uploader/pipelines.toml'') ''identity'') (\<lambda>ident.
       let configured = dget ident ''ssh_key_file'' PNone in
       if py_truthy configured then (let p = py_str (ch_repr h) configured in Inr (ch_exists h p, p))
       else case find (ch_exists h) [HS_UPLOADER_KEY_HOST, HS_UPLOADER_KEY] of
           Some p \<Rightarrow> Inr (True, p) | None \<Rightarrow> Inr (False, HS_UPLOADER_KEY_HOST))"

definition new_path :: "string \<Rightarrow> string \<Rightarrow> bool \<Rightarrow> string list \<Rightarrow> upload_path" where
  "new_path path rec needs miss = \<lparr> ul_path = path, ul_recorder = rec, ul_needs_creds = needs,
     ul_ready = (miss = []), ul_missing = join_on '', '' miss, ul_fix = (if miss = [] then [] else dget FIX rec []) \<rparr>"

definition wspr_paths :: "creds_host \<Rightarrow> py_error + upload_path list" where
  "wspr_paths h = (if \<not> ch_is_dir h ''/etc/wspr-recorder'' then Inr []
     else ebind (hs_uploader_key_status h) (\<lambda>(ready, key).
       Inr [new_path ''wsprnet.org'' ''wspr-recorder'' False [],
            new_path ''wsprdaemon.org'' ''wspr-recorder'' True (if ready then [] else [''hs-uploader SSH key '' @ key])]))"

text \<open>The branches of hf-timestd and of mag-recorder differ in the file and in the name of the station id.\<close>

definition psws_path :: "creds_host \<Rightarrow> string \<Rightarrow> string \<Rightarrow> string \<Rightarrow> string \<Rightarrow> py_error + upload_path list" where
  "psws_path h config rec id_key id_name = (if \<not> ch_exists h config then Inr []
     else ebind (sub_table (ch_toml h config) ''station'') (\<lambda>st.
       ebind (hs_uploader_key_status h) (\<lambda>(ready, key).
         Inr [new_path (''PSWS ('' @ rec @ '')'') rec True
           ((if is_placeholder (ch_repr h) (dget st id_key PNone) then [id_name] else [])
            @ (if is_placeholder (ch_repr h) (dget st ''instrument_id'' PNone) then [''instrument id''] else [])
            @ (if ready then [] else [''PSWS upload key '' @ key]))])))"

definition upload_paths_status :: "creds_host \<Rightarrow> py_error + upload_path list" where
  "upload_paths_status h =
     ebind (wspr_paths h) (\<lambda>ws.
     ebind (psws_path h ''/etc/hf-timestd/timestd-config.toml'' ''hf-timestd'' ''id'' ''station id'') (\<lambda>ts.
     ebind (psws_path h ''/etc/mag-recorder/mag-recorder-config.toml'' ''mag-recorder'' ''psws_station_id''
         ''PSWS station id'') (\<lambda>ms.
       Inr (ws @ (if ch_is_dir h ''/etc/psk-recorder'' then [new_path ''PSKReporter'' ''psk-recorder'' False []] else [])
         @ ts @ ms))))"

definition lacks_creds :: "upload_path \<Rightarrow> bool" where
  "lacks_creds p = (ul_needs_creds p \<and> \<not> ul_ready p)"

definition missing_upload_paths :: "creds_host \<Rightarrow> py_error + upload_path list" where
  "missing_upload_paths h = ebind (upload_paths_status h) (\<lambda>ps. Inr (filter lacks_creds ps))"

section \<open>Which paths are missing something\<close>

definition key_there :: "creds_host \<Rightarrow> bool" where
  "key_there h = (case hs_uploader_key_status h of Inl e \<Rightarrow> False | Inr (ready, key) \<Rightarrow> ready)"

definition station_filled :: "creds_host \<Rightarrow> string \<Rightarrow> string \<Rightarrow> bool" where
  "station_filled h config id_key = (case sub_table (ch_toml h config) ''station'' of Inl e \<Rightarrow> False
     | Inr st \<Rightarrow> \<not> is_placeholder (ch_repr h) (dget st id_key PNone)
         \<and> \<not> is_placeholder (ch_repr h) (dget st ''instrument_id'' PNone))"

lemma new_path_lacks: "lacks_creds (new_path path rec needs miss) \<longleftrightarrow> needs \<and> miss \<noteq> []"
  by (simp add: lacks_creds_def new_path_def)

lemma wspr_lacks:
  "wspr_paths h = Inr ps \<Longrightarrow> map ul_path (filter lacks_creds ps)
     = (if ch_is_dir h ''/etc/wspr-recorder'' \<and> \<not> key_there h then [''wsprdaemon.org''] else [])"
  by (auto simp: wspr_paths_def ebind_eq_Inr new_path_lacks key_there_def split: if_splits)
    (simp_all add: new_path_def)

lemma psws_lacks:
  assumes "psws_path h config rec id_key id_name = Inr ps"
  shows "map ul_path (filter lacks_creds ps)
     = (if ch_exists h config \<and> \<not> (station_filled h config id_key \<and> key_there h) then [''PSWS ('' @ rec @ '')''] else [])"
proof (cases "ch_exists h config")
  case True
  obtain st ready key where s: "sub_table (ch_toml h config) ''station'' = Inr st"
    and k: "hs_uploader_key_status h = Inr (ready, key)"
    using True assms by (auto simp: psws_path_def ebind_eq_Inr)
  have path: "ul_path (new_path p r needs miss) = p" for p r needs miss by (simp add: new_path_def)
  show ?thesis
    using assms True by (auto simp: psws_path_def s k new_path_lacks path key_there_def station_filled_def)
next
  case False
  then show ?thesis using assms by (simp add: psws_path_def)
qed

text \<open>The paths reported as missing something are exactly these, in this order: wsprdaemon.org where its recorder is
  set up and no uploader key is there, and each PSWS path whose client is configured and whose station,
  instrument or key is missing; the anonymous paths are never reported.\<close>

theorem missing_paths_exact:
  assumes "missing_upload_paths h = Inr ps"
  shows "map ul_path ps =
     (if ch_is_dir h ''/etc/wspr-recorder'' \<and> \<not> key_there h then [''wsprdaemon.org''] else [])
     @ (if ch_exists h ''/etc/hf-timestd/timestd-config.toml''
            \<and> \<not> (station_filled h ''/etc/hf-timestd/timestd-config.toml'' ''id'' \<and> key_there h)
        then [''PSWS (hf-timestd)''] else [])
     @ (if ch_exists h ''/etc/mag-recorder/mag-recorder-config.toml''
            \<and> \<not> (station_filled h ''/etc/mag-recorder/mag-recorder-config.toml'' ''psws_station_id'' \<and> key_there h)
        then [''PSWS (mag-recorder)''] else [])"
proof -
  have names: "''PSWS ('' @ ''hf-timestd'' @ '')'' = ''PSWS (hf-timestd)''"
    "''PSWS ('' @ ''mag-recorder'' @ '')'' = ''PSWS (mag-recorder)''" by simp_all
  obtain ws ts ms where parts: "wspr_paths h = Inr ws"
    "psws_path h ''/etc/hf-timestd/timestd-config.toml'' ''hf-timestd'' ''id'' ''station id'' = Inr ts"
    "psws_path h ''/etc/mag-recorder/mag-recorder-config.toml'' ''mag-recorder'' ''psws_station_id'' ''PSWS station id'' = Inr ms"
    and ps: "ps = filter lacks_creds ws @ filter lacks_creds ts @ filter lacks_creds ms"
    using assms by (auto simp: missing_upload_paths_def upload_paths_status_def ebind_eq_Inr new_path_lacks)
  show ?thesis
    unfolding ps map_append wspr_lacks [OF parts(1)] psws_lacks [OF parts(2)] psws_lacks [OF parts(3)] names
    by (rule refl)
qed

definition timestd_host :: creds_host where
  "timestd_host = \<lparr> ch_repr = (\<lambda>_. []), ch_toml = (\<lambda>p. if p = ''/etc/hf-timestd/timestd-config.toml''
       then [(''station'', PDict [(''id'', PStr ''<YOUR_STATION_ID>''), (''instrument_id'', PStr ''12'')])] else []),
     ch_exists = (\<lambda>p. p = ''/etc/hf-timestd/timestd-config.toml''), ch_is_dir = (\<lambda>_. False) \<rparr>"

theorem missing_paths_exact_witness:
  "(case missing_upload_paths timestd_host of Inl e \<Rightarrow> False | Inr ps \<Rightarrow> map ul_path ps = [''PSWS (hf-timestd)''])"
proof -
  obtain ps where run: "missing_upload_paths timestd_host = Inr ps"
    by (cases "missing_upload_paths timestd_host")
      (simp_all add: missing_upload_paths_def upload_paths_status_def wspr_paths_def psws_path_def timestd_host_def
        hs_uploader_key_status_def sub_table_def or_dict_def dget_def HS_UPLOADER_KEY_HOST_def HS_UPLOADER_KEY_def)
  have "\<not> key_there timestd_host"
    by (simp add: key_there_def hs_uploader_key_status_def timestd_host_def sub_table_def or_dict_def dget_def
        HS_UPLOADER_KEY_HOST_def HS_UPLOADER_KEY_def)
  then have "map ul_path ps = [''PSWS (hf-timestd)'']"
    using missing_paths_exact [OF run] by (simp add: timestd_host_def)
  then show ?thesis by (simp add: run)
qed

end
