(* ===== verification/Manifest.thy ===== *)
theory Manifest
  imports Receivers Senders
begin

text \<open>
  The manifest of the upload daemon (\<open>src/lib/sigmond/uploader_manifest.py\<close>): the pipelines the enabled
  clients declare with the site's identity put in, the split of the shared spot pipeline, proxying and
  merging, the uploads policy, and the text of the manifest.  A pipeline is a table; the deploy files,
  the identity stores and what the daemon supports are arguments.  Log lines are left out.
\<close>

type_synonym pipeline = "(string, pyval) dict"

section \<open>Identity\<close>

record site =
  si_deploy :: "string \<Rightarrow> (string, pyval) dict option"
  si_instances :: "(string \<times> string) list"
  si_psws :: "string \<Rightarrow> (string \<times> string) option"
  si_exists :: "string \<Rightarrow> bool"

definition host_key_file :: "site \<Rightarrow> string" where
  "host_key_file s =
     (if si_exists s ''/etc/hs-uploader/keys/id_ed25519'' \<and> \<not> si_exists s ''/etc/hs-uploader/keys/id_ed25519_host''
      then ''/etc/hs-uploader/keys/id_ed25519'' else ''/etc/hs-uploader/keys/id_ed25519_host'')"

definition or_none :: "pyval \<Rightarrow> pyval" where
  "or_none v = (if py_truthy v then v else PNone)"

definition first_radiod_status :: "coordination \<Rightarrow> pyval" where
  "first_radiod_status c =
     (case filter py_truthy (map (\<lambda>(k, r). effective_status_dns r) (co_radiods c)) of v # _ \<Rightarrow> v | [] \<Rightarrow> PNone)"

definition reporter_call :: "site \<Rightarrow> coordination \<Rightarrow> pyval" where
  "reporter_call s c =
     (case sort (map (\<lambda>(k, r). display_reporter_id r) (filter (\<lambda>(k, r). k = ''wspr-recorder'') (si_instances s))) of
        r # _ \<Rightarrow> PStr r | [] \<Rightarrow> or_none (ho_call (co_host c)))"

definition psws_station_for_host :: "site \<Rightarrow> coordination \<Rightarrow> string" where
  "psws_station_for_host s c =
     (if sn_psws_id (co_station c) \<noteq> [] then sn_psws_id (co_station c)
      else case filter (\<lambda>x. x \<noteq> []) (map (\<lambda>k. case si_psws s k of Some (st, i) \<Rightarrow> st | None \<Rightarrow> [])
             [''hamsci-physics'', ''hf-timestd'', ''mag-recorder'']) of st # _ \<Rightarrow> st | [] \<Rightarrow> [])"

definition PSWS_RECORDERS :: "string list" where
  "PSWS_RECORDERS = [''hf-timestd'', ''hamsci-physics'', ''mag-recorder'']"

text \<open>The tokens and their values; \<open>PNone\<close> is a token without one.\<close>

type_synonym tokens = "(string, pyval) dict"

definition str_or_none :: "string \<Rightarrow> pyval" where
  "str_or_none s = (if s = [] then PNone else PStr s)"

definition pathsafe :: "pyval \<Rightarrow> py_error + pyval" where
  "pathsafe call = (case call of PNone \<Rightarrow> Inr PNone
     | PStr s \<Rightarrow> Inr (PStr (replace_char (CHR ''/'') (CHR ''_'') s)) | _ \<Rightarrow> Inl AttributeError)"

definition resolve_tokens :: "site \<Rightarrow> string \<Rightarrow> coordination \<Rightarrow> pyval \<Rightarrow> py_error + tokens" where
  "resolve_tokens s client c call =
     ebind (pathsafe call) (\<lambda>safe.
     Inr ([(''call'', call), (''call_pathsafe'', safe), (''grid'', or_none (ho_grid (co_host c))),
           (''radiod_status'', first_radiod_status c), (''sink_path'', PStr ''/var/lib/sigmond/sink.db''),
           (''ssh_key_file'', PStr (host_key_file s))]
       @ (if client \<notin> set PSWS_RECORDERS then []
          else case si_psws s client of
              Some (station, instrument) \<Rightarrow>
                [(''station_id'', str_or_none station), (''instrument_id'', str_or_none instrument)]
            | None \<Rightarrow> [(''station_id'', PNone), (''instrument_id'', PNone)])))"

section \<open>Placeholders\<close>

definition token_start :: "char \<Rightarrow> bool" where
  "token_start c = (is_lower c \<or> c = CHR ''_'')"

definition token_char :: "char \<Rightarrow> bool" where
  "token_char c = (token_start c \<or> is_digit c)"

text \<open>\<open>_PLACEHOLDER_RE.findall\<close>: the names in braces, left to right.\<close>

definition placeholder_at :: "string \<Rightarrow> (string \<times> string) option" where
  "placeholder_at s = (case s of [] \<Rightarrow> None | c # cs \<Rightarrow>
     (let name = takeWhile token_char cs; rest = dropWhile token_char cs in
      if c = CHR 0x7B \<and> name \<noteq> [] \<and> token_start (hd name) \<and> rest \<noteq> [] \<and> hd rest = CHR 0x7D
      then Some (name, tl rest) else None))"

lemma placeholder_at_shorter: "placeholder_at s = Some (name, rest) \<Longrightarrow> length rest < length s"
proof -
  assume p: "placeholder_at s = Some (name, rest)"
  then obtain c cs where s: "s = c # cs" by (cases s) (simp_all add: placeholder_at_def)
  with p have "rest = tl (dropWhile token_char cs)" by (auto simp: placeholder_at_def Let_def split: if_splits)
  moreover have "length (dropWhile token_char cs) \<le> length cs" by (rule length_dropWhile_le)
  ultimately show ?thesis by (simp add: s)
qed

function placeholders :: "string \<Rightarrow> string list" where
  "placeholders s = (case s of [] \<Rightarrow> []
     | c # cs \<Rightarrow> (case placeholder_at s of Some (name, rest) \<Rightarrow> name # placeholders rest | None \<Rightarrow> placeholders cs))"
  by pat_completeness auto
termination by (relation "measure length") (auto dest: placeholder_at_shorter)

declare placeholders.simps [simp del]

definition subst_token :: "string \<times> pyval \<Rightarrow> string \<times> string list \<Rightarrow> py_error + string \<times> string list" where
  "subst_token t s = (case (t, s) of ((tok, val), (out, missing)) \<Rightarrow>
     (let ph = [CHR 0x7B] @ tok @ [CHR 0x7D] in
      if \<not> contains_text out ph then Inr s
      else case val of
          PNone \<Rightarrow> Inr (out, missing @ [tok])
        | PStr v \<Rightarrow> Inr (replace_all ph v out, missing)
        | _ \<Rightarrow> Inl TypeError))"

definition subst_text :: "tokens \<Rightarrow> string \<Rightarrow> py_error + string \<times> string list" where
  "subst_text tokens s = ebind (efold subst_token tokens (s, [])) (\<lambda>(out, missing).
     Inr (out, missing @ placeholders out))"

fun subst :: "tokens \<Rightarrow> pyval \<Rightarrow> py_error + pyval \<times> string list" where
  "subst t (PStr s) = ebind (subst_text t s) (\<lambda>(out, missing). Inr (PStr out, missing))"
| "subst t (PList xs) = ebind (emap (subst t) xs) (\<lambda>ys. Inr (PList (map fst ys), concat (map snd ys)))"
| "subst t (PDict d) = ebind (emap (\<lambda>(k, v). ebind (subst t v) (\<lambda>(w, m). Inr ((k, w), m))) d)
     (\<lambda>ys. Inr (PDict (map fst ys), concat (map snd ys)))"
| "subst t v = Inr (v, [])"

section \<open>Collecting the pipelines\<close>

definition pipeline_decls :: "(string, pyval) dict option \<Rightarrow> py_error + pyval list" where
  "pipeline_decls data = (case data of None \<Rightarrow> Inr []
     | Some d \<Rightarrow> ebind (or_dict (dget d ''hs_uploader'' PNone)) (\<lambda>block.
         Inr (case dget block ''pipeline'' PNone of PList ds \<Rightarrow> ds | _ \<Rightarrow> [])))"

definition SPLIT_STORE_VERSION :: int where
  "SPLIT_STORE_VERSION = 2"

definition SHARED_PSK_PIPELINE :: string where
  "SHARED_PSK_PIPELINE = ''psk-pskreporter''"

definition PSK_PRODUCERS :: "(string, string \<times> string list) dict" where
  "PSK_PRODUCERS = [(''psk-recorder'', ''psk-recorder-pskreporter'', [''ft8'', ''ft4'']),
     (''meteor-scatter'', ''meteor-scatter-pskreporter'', [''msk144''])]"

text \<open>\<open>dict(v or {})\<close>, where \<open>v\<close> is a table or an error, and \<open>for x in v or []\<close>.\<close>

definition dict_of :: "pyval \<Rightarrow> py_error + (string, pyval) dict" where
  "dict_of v = (if \<not> py_truthy v then Inr [] else case v of PDict d \<Rightarrow> Inr d | _ \<Rightarrow> Inl TypeError)"

definition items_in :: "pyval \<Rightarrow> py_error + pyval list" where
  "items_in v = (if \<not> py_truthy v then Inr [] else case v of
       PList xs \<Rightarrow> Inr xs
     | PStr s \<Rightarrow> Inr (map (\<lambda>c. PStr [c]) s)
     | PDict d \<Rightarrow> Inr (map (\<lambda>(k, x). PStr k) d)
     | _ \<Rightarrow> Inl TypeError)"

definition mode_clause :: "pyval \<Rightarrow> bool" where
  "mode_clause v = (case v of
       PList [PStr f, PStr op, x] \<Rightarrow> f = ''mode'' \<and> upper op = ''IN'' | _ \<Rightarrow> False)"

definition narrow_clause :: "string list \<Rightarrow> pyval \<Rightarrow> pyval" where
  "narrow_clause modes v = (case v of
       PList [f, op, x] \<Rightarrow> if mode_clause v then PList [PStr ''mode'', op, PList (map PStr modes)] else v
     | _ \<Rightarrow> v)"

definition split_for_producer :: "pipeline \<Rightarrow> string \<Rightarrow> py_error + pipeline" where
  "split_for_producer r client =
     (let (name, modes) = dget PSK_PRODUCERS client ([], []) in
      ebind (dict_of (dget r ''source'' PNone)) (\<lambda>source.
      ebind (items_in (dget source ''extra_where'' PNone)) (\<lambda>clauses.
      let clauses' = map (narrow_clause modes) clauses
            @ (if list_ex mode_clause clauses then [] else [PList [PStr ''mode'', PStr ''IN'', PList (map PStr modes)]]);
          source' = AList.update ''producer'' (PStr client) (AList.update ''extra_where'' (PList clauses') source) in
      Inr (AList.update ''source'' (PDict source') (AList.update ''name'' (PStr name) r)))))"

text \<open>One declaration of a client: the pipelines collected and their names.\<close>

type_synonym collected = "pipeline list \<times> pyval list"

definition add_pipeline :: "string \<Rightarrow> pyval \<Rightarrow> pipeline \<Rightarrow> collected \<Rightarrow> py_error + collected" where
  "add_pipeline client name r s = (case s of (ps, names) \<Rightarrow>
     if \<not> hashable name then Inl TypeError
     else if name \<in> set names then Inr s
     else Inr (ps @ [AList.update ''client'' (PStr client) r], names @ [name]))"

definition collect_decl ::
  "tokens \<Rightarrow> bool \<Rightarrow> string \<Rightarrow> pyval \<Rightarrow> collected \<Rightarrow> py_error + collected" where
  "collect_decl tokens split client decl s =
     ebind (subst tokens decl) (\<lambda>(rendered, missing).
     case rendered of
       PDict r \<Rightarrow>
         (let name = or_empty (dget r ''name'' PNone) (client @ ''-pipeline'') in
          if missing \<noteq> [] then Inr s
          else if name = PStr SHARED_PSK_PIPELINE \<and> client \<in> fst ` set PSK_PRODUCERS \<and> split
          then ebind (split_for_producer r client) (\<lambda>r'. add_pipeline client (dget r' ''name'' PNone) r' s)
          else add_pipeline client name r s)
     | _ \<Rightarrow> Inl AttributeError)"

definition collect_client :: "site \<Rightarrow> coordination \<Rightarrow> bool \<Rightarrow> string \<Rightarrow> collected \<Rightarrow> py_error + collected" where
  "collect_client st c split client s =
     ebind (pipeline_decls (si_deploy st client)) (\<lambda>decls.
     if decls = [] then Inr s
     else ebind (resolve_tokens st client c (reporter_call st c)) (\<lambda>tokens.
       efold (collect_decl tokens split client) decls s))"

section \<open>Proxying\<close>

record proxied =
  px_flag :: string
  px_carrier :: string
  px_direct :: string
  px_enabled :: "station \<Rightarrow> bool"

definition PROXIED_SERVICES :: "proxied list" where
  "PROXIED_SERVICES = [\<lparr> px_flag = ''forward_to_wsprnet'', px_carrier = ''wspr-wsprdaemon'',
     px_direct = ''wspr-wsprnet'', px_enabled = sn_wsprnet_proxy \<rparr>]"

definition named :: "string \<Rightarrow> pipeline \<Rightarrow> bool" where
  "named n p = (dget p ''name'' PNone = PStr n)"

definition transport_of :: "pipeline \<Rightarrow> (string, pyval) dict option" where
  "transport_of p = (case dget p ''transport'' PNone of PDict t \<Rightarrow> Some t | _ \<Rightarrow> None)"

text \<open>Put \<open>transport\<close> into the first pipeline of the name.\<close>

fun set_transport :: "string \<Rightarrow> (string, pyval) dict \<Rightarrow> pipeline list \<Rightarrow> pipeline list" where
  "set_transport n t [] = []"
| "set_transport n t (p # ps) =
     (if named n p then AList.update ''transport'' (PDict t) p # ps else p # set_transport n t ps)"

definition carrier_transport :: "string \<Rightarrow> pipeline list \<Rightarrow> (string, pyval) dict option" where
  "carrier_transport n ps = (case find (named n) ps of None \<Rightarrow> None | Some p \<Rightarrow> transport_of p)"

definition proxy_one :: "coordination \<Rightarrow> proxied \<Rightarrow> pipeline list \<Rightarrow> pipeline list" where
  "proxy_one c x ps =
     (if \<not> px_enabled x (co_station c) then ps
      else case carrier_transport (px_carrier x) ps of
          None \<Rightarrow> ps
        | Some t \<Rightarrow> filter (\<lambda>p. \<not> named (px_direct x) p)
            (set_transport (px_carrier x) (AList.update (px_flag x) (PBool True) t) ps))"

definition apply_proxying :: "pipeline list \<Rightarrow> coordination \<Rightarrow> pipeline list" where
  "apply_proxying ps c = fold (proxy_one c) PROXIED_SERVICES ps"

section \<open>Merging\<close>

datatype merge_error = MixedMerge "string list" "string list" | ManyTargets "(string \<times> string) list" | NoGrid string
  | GridNotText

definition rc_merges :: "site_receiver \<Rightarrow> bool" where
  "rc_merges r = (strip (rc_merge_into r) \<noteq> [])"

definition target_of :: "pyval \<Rightarrow> site_receiver \<Rightarrow> merge_error + string \<times> string" where
  "target_of site_grid r =
     (let call = upper (strip (rc_merge_into r)) in
      if strip (rc_merge_grid r) \<noteq> [] then Inr (call, strip (rc_merge_grid r))
      else if \<not> py_truthy site_grid then Inr (call, [])
      else case site_grid of PStr g \<Rightarrow> Inr (call, strip g) | _ \<Rightarrow> Inl GridNotText)"

definition merge_target :: "site_receiver list \<Rightarrow> pyval \<Rightarrow> merge_error + (string \<times> string) option" where
  "merge_target receivers site_grid =
     (let up = filter rc_uploads receivers; merged = filter rc_merges up;
          unmerged = filter (\<lambda>r. \<not> rc_merges r) up in
      if merged = [] then Inr None
      else if unmerged \<noteq> [] then Inl (MixedMerge (map rc_reporter_id merged) (map rc_reporter_id unmerged))
      else ebind (emap (target_of site_grid) merged) (\<lambda>ts.
        let targets = rev (remdups (rev ts)) in
        if 1 < length targets then Inl (ManyTargets targets)
        else case hd targets of (call, grid) \<Rightarrow>
          if grid = [] then Inl (NoGrid call) else Inr (Some (call, grid))))"

definition merge_problems :: "site_receiver list \<Rightarrow> pyval \<Rightarrow> string list \<times> merge_error option" where
  "merge_problems receivers site_grid =
     (map rc_reporter_id (filter (\<lambda>r. strip (rc_merge_grid r) \<noteq> [] \<and> \<not> rc_merges r) receivers),
      case merge_target receivers site_grid of Inl e \<Rightarrow> Some e | Inr t \<Rightarrow> None)"

definition MERGE_KEYS :: "string list" where
  "MERGE_KEYS = [''wsprnet_reporter_call'', ''wsprnet_reporter_grid'', ''psk_reporter_call'', ''psk_reporter_grid'']"

definition apply_merge :: "pipeline list \<Rightarrow> (string \<times> string) option \<Rightarrow> pipeline list" where
  "apply_merge ps target = (case target of None \<Rightarrow> ps
     | Some (call, grid) \<Rightarrow>
         (case carrier_transport ''wspr-wsprdaemon'' ps of None \<Rightarrow> ps
          | Some t \<Rightarrow> set_transport ''wspr-wsprdaemon''
              (dict_update (zip MERGE_KEYS [PStr call, PStr grid, PStr call, PStr grid]) t) ps))"

text \<open>The checks against the environments of the client instances.\<close>

record host_units =
  hu_units :: "string \<Rightarrow> string list option"
  hu_envs :: "string \<Rightarrow> show_error + (string, string) dict"
  hu_meteor :: ms_host

definition units_env ::
  "host_units \<Rightarrow> topology \<Rightarrow> string \<Rightarrow> show_error + (string \<times> (string, string) dict) list" where
  "units_env h t client =
     (if client \<notin> set (enabled_components t None) then Inr []
      else case hu_units h client of None \<Rightarrow> Inl Failed
        | Some us \<Rightarrow> emap (\<lambda>u. ebind (hu_envs h u) (\<lambda>e. Inr (u, e))) us)"

text \<open>A failed reading is a warning, an undecodable file an exception.\<close>

definition or_unread :: "'a \<Rightarrow> show_error + 'a \<Rightarrow> show_error + 'a" where
  "or_unread v r = (case r of Inl Failed \<Rightarrow> Inr v | _ \<Rightarrow> r)"

definition two_merges_problems ::
  "host_units \<Rightarrow> topology \<Rightarrow> site_receiver list \<Rightarrow> show_error + (string \<times> string) list" where
  "two_merges_problems h t receivers =
     (if \<not> list_ex rc_merges receivers then Inr []
      else ebind (or_unread [] (units_env h t ''wspr-recorder'')) (\<lambda>rows.
        Inr (map (\<lambda>(u, e). (display_unit_name u, strip (dget e ''WD_MERGE_REPORTERS'' [])))
          (filter (\<lambda>(u, e). strip (dget e ''WD_MERGE_REPORTERS'' []) \<noteq> []) rows))))"

definition delivers :: "string \<Rightarrow> (string, string) dict \<Rightarrow> bool" where
  "delivers client e =
     (if client = ''psk-recorder'' then psk_delivery_pipelines e = [''server-merge'']
      else ms_delivery_mode e = ''deposit'')"

definition merged_by_key :: "site_receiver list \<Rightarrow> (string, site_receiver) dict" where
  "merged_by_key receivers = fold (\<lambda>r d. case key_or_none (rc_reporter_id r) of
       None \<Rightarrow> d | Some k \<Rightarrow> AList.update k r d) (filter rc_merges receivers) []"

definition mismatches_of ::
  "(string, site_receiver) dict \<Rightarrow> string \<Rightarrow> (string \<times> (string, string) dict) list \<Rightarrow>
   instance_error + (string \<times> string \<times> string) list" where
  "mismatches_of merged client rows =
     ebind (emap (\<lambda>(k, r). ebind (instance_unit client k ''.service'') (\<lambda>u. Inr (u, r))) merged) (\<lambda>urs.
     Inr (map (\<lambda>(u, r). (client, rc_reporter_id r, upper (strip (rc_merge_into r))))
       (filter (\<lambda>(u, r). case map_of (rev rows) u of None \<Rightarrow> False | Some e \<Rightarrow> \<not> delivers client e) urs)))"

definition delivery_mismatches ::
  "host_units \<Rightarrow> topology \<Rightarrow> site_receiver list \<Rightarrow> show_error + (string \<times> string \<times> string) list" where
  "delivery_mismatches h t receivers =
     (let merged = merged_by_key receivers in
      if merged = [] then Inr []
      else ebind (emap (\<lambda>client. or_unread [] (ebind (units_env h t client) (\<lambda>rows.
          case mismatches_of merged client rows of Inr ms \<Rightarrow> Inr ms | Inl e \<Rightarrow> Inr []))) PSK_CLIENTS)
        (\<lambda>ms. Inr (concat ms)))"

datatype manifest_error = PyRaised py_error | MergeRefused merge_error | MergesTwice "(string \<times> string) list"
  | ReceiversUnreadable receiver_error | EnvUndecodable | ProbeFailed

fun on_error :: "('e \<Rightarrow> 'f) \<Rightarrow> 'e + 'a \<Rightarrow> 'f + 'a" where
  "on_error f (Inl e) = Inl (f e)"
| "on_error f (Inr a) = Inr a"

definition collect_pipelines ::
  "site \<Rightarrow> host_units \<Rightarrow> receiver_error + site_receiver list \<Rightarrow> int \<Rightarrow> topology \<Rightarrow> coordination \<Rightarrow>
   manifest_error + pipeline list" where
  "collect_pipelines st h receivers store_version t c =
     ebind (on_error ReceiversUnreadable receivers) (\<lambda>rs.
     ebind (on_error MergeRefused (merge_target rs (ho_grid (co_host c)))) (\<lambda>target.
     ebind (if target = None then Inr [] else on_error (\<lambda>_. EnvUndecodable) (two_merges_problems h t rs)) (\<lambda>clash.
     if clash \<noteq> [] then Inl (MergesTwice clash)
     else ebind (on_error PyRaised (efold (collect_client st c (SPLIT_STORE_VERSION \<le> store_version))
            (enabled_components t None) ([], []))) (\<lambda>(ps, names).
       Inr (apply_merge (apply_proxying ps c) target)))))"

section \<open>The heartbeat, the policy and the render\<close>

definition heartbeat_pipeline :: "coordination \<Rightarrow> pipeline option" where
  "heartbeat_pipeline c =
     (let hb = co_heartbeat c in
      if \<not> hb_enabled hb \<or> hb_station hb = [] \<or> hb_host hb = [] then None
      else Some
        [(''name'', PStr ''heartbeat''), (''client'', PStr ''sigmond''),
         (''source'', PDict [(''type'', PStr ''filetree''), (''root'', PStr ''/var/lib/sigmond/heartbeat''),
            (''patterns'', PList [PStr ''*.json'']), (''table'', PStr ''station.heartbeat''),
            (''retention'', PStr ''delete_on_ack'')]),
         (''transport'', PDict [(''type'', PStr ''heartbeat_sftp''), (''host'', PStr (hb_host hb)),
            (''port'', PInt (hb_port hb)), (''sftp_user'', PStr (hb_sftp_user hb)),
            (''remote_path'', PStr (hb_remote_path hb))]),
         (''retry'', PDict [(''base'', PFloat (Fin 2)), (''cap_sec'', PFloat (Fin 300))])])"

definition build_identity :: "site \<Rightarrow> coordination \<Rightarrow> pyval \<Rightarrow> (string, pyval) dict" where
  "build_identity st c call =
     (if py_truthy call then [(''call'', call)] else [])
     @ (if py_truthy (ho_grid (co_host c)) then [(''grid'', ho_grid (co_host c))] else [])
     @ (if psws_station_for_host st c \<noteq> [] then [(''station_id'', PStr (psws_station_for_host st c))] else [])
     @ [(''ssh_key_file'', PStr (host_key_file st))]"

definition effective_mode :: "bool \<Rightarrow> coordination \<Rightarrow> string" where
  "effective_mode supports_discard c =
     (if up_mode (co_uploads c) \<noteq> ''discard'' then up_mode (co_uploads c)
      else if supports_discard then ''discard'' else ''hold'')"

text \<open>The D13 pairs are the producers that send themselves.\<close>

definition drop_inprocess_pipelines :: "pipeline list \<Rightarrow> string list \<Rightarrow> int \<Rightarrow> pipeline list" where
  "drop_inprocess_pipelines ps senders store_version =
     (let dropped = concat (map (\<lambda>p. if p \<in> fst ` set PSK_PRODUCERS \<and> SPLIT_STORE_VERSION \<le> store_version
            then [fst (dget PSK_PRODUCERS p ([], []))] else []) (sort senders)) in
      filter (\<lambda>p. \<not> list_ex (\<lambda>n. named n p) dropped) ps)"

definition psk_names :: "string list" where
  "psk_names = SHARED_PSK_PIPELINE # map (\<lambda>(c, n, ms). n) PSK_PRODUCERS"

definition inprocess_pairs :: "host_units \<Rightarrow> topology \<Rightarrow> pipeline list \<Rightarrow> show_error + string list" where
  "inprocess_pairs h t ps =
     (if \<not> list_ex (\<lambda>p. list_ex (\<lambda>n. named n p) psk_names) ps then Inr []
      else inprocess_senders (hu_meteor h) (hu_units h) (hu_envs h) t)"

definition toml_quoted :: "string \<Rightarrow> string" where
  "toml_quoted s = [CHR 0x22] @ concat (map (\<lambda>c. if c = CHR 0x5C then [CHR 0x5C, CHR 0x5C]
     else if c = CHR 0x22 then [CHR 0x5C, CHR 0x22] else [c]) s) @ [CHR 0x22]"

text \<open>\<open>repr\<close> is Python's, used for floats.\<close>

fun toml_value :: "(pyval \<Rightarrow> string) \<Rightarrow> pyval \<Rightarrow> py_error + string" where
  "toml_value repr (PBool b) = Inr (if b then ''true'' else ''false'')"
| "toml_value repr (PInt n) = Inr (string_of_int n)"
| "toml_value repr (PFloat x) = Inr (repr (PFloat x))"
| "toml_value repr (PStr s) = Inr (toml_quoted s)"
| "toml_value repr (PList xs) = ebind (emap (toml_value repr) xs) (\<lambda>ys. Inr (''['' @ join_on '', '' ys @ '']''))"
| "toml_value repr _ = Inl TypeError"

definition is_dict_val :: "pyval \<Rightarrow> bool" where
  "is_dict_val v = (case v of PDict d \<Rightarrow> True | _ \<Rightarrow> False)"

definition scalar_line :: "(pyval \<Rightarrow> string) \<Rightarrow> string \<times> pyval \<Rightarrow> py_error + string" where
  "scalar_line repr kv = (case kv of (k, v) \<Rightarrow> ebind (toml_value repr v) (\<lambda>t. Inr (k @ '' = '' @ t)))"

text \<open>\<open>_emit\<close>: the header line, the values, then the tables, each after an empty line.\<close>

fun emit_table :: "(pyval \<Rightarrow> string) \<Rightarrow> string \<Rightarrow> string \<Rightarrow> pyval \<Rightarrow> py_error + string list" where
  "emit_table repr header shown_as (PDict d) =
     ebind (emap (scalar_line repr) (filter (\<lambda>(k, v). \<not> is_dict_val v) d)) (\<lambda>values.
     ebind (emap (\<lambda>(k, v). if is_dict_val v
            then emit_table repr (header @ ''.'' @ k) (''['' @ header @ ''.'' @ k @ '']'') v else Inr []) d) (\<lambda>tables.
     Inr (shown_as # values @ concat (map (\<lambda>ls. if ls = [] then [] else [] # ls) tables))))"
| "emit_table repr header shown_as v = Inr []"

definition MANIFEST_HEADER :: "string list" where
  "MANIFEST_HEADER =
     [''# HamSCI single-host uploader manifest '' @ [CHR 0xE2, CHR 0x80, CHR 0x94] @ '' GENERATED by sigmond.'',
      ''# Source: each enabled client'' @ [CHR 0x27] @ ''s deploy.toml [[hs_uploader.pipeline]]'',
      ''# blocks, with per-site identity substituted. Regenerate with:'',
      ''#   smd admin uploader manifest --write'',
      ''# Drained by `hs-uploader serve` (hs-uploader.service, user hsupload).'',
      ''# DO NOT hand-edit '' @ [CHR 0xE2, CHR 0x80, CHR 0x94] @ '' changes are overwritten on the next apply.'']"

definition pipeline_text :: "(pyval \<Rightarrow> string) \<Rightarrow> pipeline \<Rightarrow> py_error + string list" where
  "pipeline_text repr p = emit_table repr ''pipeline'' ''[[pipeline]]'' (PDict p)"

definition render_manifest ::
  "(pyval \<Rightarrow> string) \<Rightarrow> pipeline list \<Rightarrow> (string, pyval) dict \<Rightarrow> string list \<Rightarrow> py_error + string" where
  "render_manifest repr ps identity banner =
     ebind (emit_table repr ''identity'' ''[identity]'' (PDict identity)) (\<lambda>ident.
     ebind (emit_table repr ''daemon'' ''[daemon]'' (PDict [(''pump_interval_sec'', PInt 30)])) (\<lambda>daemon.
     ebind (emap (pipeline_text repr) ps) (\<lambda>texts.
     Inr (unlines (MANIFEST_HEADER @ banner @ [[]] @ ident @ [[]] @ daemon
       @ concat (map (\<lambda>ls. [] # ls) texts))))))"

definition HEARTBEAT_HEADER :: "string list" where
  "HEARTBEAT_HEADER =
     [''# HamSCI station heartbeat -- GENERATED by sigmond.'',
      ''# hs-uploader reads each file in pipelines.d/ beside pipelines.toml.  This'',
      ''# one carries the station heartbeat, which no sink switch governs'',
      ''# (governed = false).  Its transport takes the SSH key from'',
      ''# pipelines.toml'' @ [CHR 0x27] @ ''s [identity].  Regenerate with:'',
      ''#   smd admin uploader manifest --write'',
      ''# DO NOT hand-edit -- changes are overwritten on the next apply.'']"

definition governed_entry :: "pipeline \<Rightarrow> pipeline" where
  "governed_entry hb =
     [(''name'', dget hb ''name'' PNone), (''client'', dget hb ''client'' PNone), (''governed'', PBool False)]
     @ map (\<lambda>(k, v). (k, case v of
           PDict d \<Rightarrow> if k = ''source'' then PDict (filter (\<lambda>(j, x). j \<noteq> ''start_at'') d) else v
         | _ \<Rightarrow> v))
       (filter (\<lambda>(k, v). k \<notin> {''name'', ''client'', ''governed''}) hb)"

definition sigmond_pipeline_file :: "(pyval \<Rightarrow> string) \<Rightarrow> coordination \<Rightarrow> py_error + string option" where
  "sigmond_pipeline_file repr c = (case heartbeat_pipeline c of None \<Rightarrow> Inr None
     | Some hb \<Rightarrow> ebind (pipeline_text repr (governed_entry hb)) (\<lambda>ls.
         Inr (Some (unlines (HEARTBEAT_HEADER @ [[]] @ ls)))))"

definition policy_banner :: "coordination \<Rightarrow> string \<Rightarrow> string list" where
  "policy_banner c mode =
     (let up = co_uploads c; why = (if up_reason up = [] then [] else '' ('' @ up_reason up @ '')'') in
      if mode = ''upload'' then []
      else if mode = ''discard'' then
        [''#'',
         ''# *** SITE SINK OFF: DATA PIPELINES ACK WITHOUT SENDING ***'',
         ''# coordination.toml [uploads] mode = \"discard\" sets the site sink switch to off'' @ why,
         ''# Nothing leaves this host except the heartbeat, and no backlog builds.'',
         ''# `smd sink upload` sends the GRAPE and magnetometer packages for today and'',
         ''# yesterday (UTC), even if built while off.  Older packages stay on the'',
         ''# station, and nothing else recorded while off ships.'',
         ''#   smd sink upload    (then the manifest regenerates)'']
      else
        [''#'',
         ''# *** SITE SINK HOLD (LEGACY): DATA PIPELINES NOT RENDERED ***'']
        @ (if up_mode up = ''discard'' then
            [''# The site sink switch reads off ([uploads] mode = \"discard\"), but'',
             ''# the hs-uploader this host runs cannot discard, so sigmond renders'',
             ''# the legacy hold instead.''] else [])
        @ [''# coordination.toml [uploads] enabled = false'' @ why,
           ''# Only the station heartbeat leaves this host.  Clients keep FT8 spots'',
           ''# for one hour and WSPR spots for 24 hours.'',
           ''#   smd sink upload    (then the manifest regenerates; what is still stored ships)''])"

text \<open>What \<open>generate\<close> and \<open>generate_forms\<close> are given: the site, its units and receivers, whether the
  daemon can discard, and its store schema, \<open>None\<close> when the probe fails.\<close>

record render_in =
  re_site :: site
  re_units :: host_units
  re_receivers :: "receiver_error + site_receiver list"
  re_discard :: bool
  re_store :: "int option"

definition client_pipelines :: "render_in \<Rightarrow> topology \<Rightarrow> coordination \<Rightarrow> manifest_error + pipeline list" where
  "client_pipelines e t c = (case re_store e of None \<Rightarrow> Inl ProbeFailed
     | Some v \<Rightarrow>
         ebind (collect_pipelines (re_site e) (re_units e) (re_receivers e) v t c) (\<lambda>ps.
         ebind (on_error (\<lambda>_. EnvUndecodable) (inprocess_pairs (re_units e) t ps)) (\<lambda>senders.
         Inr (drop_inprocess_pipelines ps senders v))))"

definition policy_pipelines :: "render_in \<Rightarrow> topology \<Rightarrow> coordination \<Rightarrow> manifest_error + pipeline list" where
  "policy_pipelines e t c =
     (let mode = effective_mode (re_discard e) c in
      ebind (if mode \<in> set [''upload'', ''discard''] then client_pipelines e t c else Inr []) (\<lambda>ps.
      Inr ((if mode = ''upload'' then ps
            else if mode = ''discard'' then map (AList.update ''discard'' (PBool True)) ps else [])
        @ (case heartbeat_pipeline c of Some hb \<Rightarrow> [hb] | None \<Rightarrow> []))))"

definition generate :: "(pyval \<Rightarrow> string) \<Rightarrow> render_in \<Rightarrow> topology \<Rightarrow> coordination \<Rightarrow> manifest_error + string" where
  "generate repr e t c =
     ebind (policy_pipelines e t c) (\<lambda>ps.
     on_error PyRaised (render_manifest repr ps (build_identity (re_site e) c (reporter_call (re_site e) c))
       (policy_banner c (effective_mode (re_discard e) c))))"

definition GATE_BANNER :: "string list" where
  "GATE_BANNER = [''#'', ''# The sink switches in sinks/ decide what each pipeline sends; this file'',
     ''# renders every client pipeline.  The station heartbeat lives in'',
     ''# pipelines.d/sigmond.toml.  See `smd sink status`.'']"

definition gate_form :: "string set option \<Rightarrow> bool \<Rightarrow> bool" where
  "gate_form features marker = (case features of None \<Rightarrow> False | Some fs \<Rightarrow> ''gate'' \<in> fs \<and> marker)"

definition generate_forms ::
  "(pyval \<Rightarrow> string) \<Rightarrow> render_in \<Rightarrow> string set option \<Rightarrow> bool \<Rightarrow> topology \<Rightarrow> coordination \<Rightarrow>
   manifest_error + string \<times> string option" where
  "generate_forms repr e features marker t c =
     (if \<not> gate_form features marker then ebind (generate repr e t c) (\<lambda>s. Inr (s, None))
      else ebind (client_pipelines e t c) (\<lambda>ps.
        ebind (on_error PyRaised (render_manifest repr ps
            (build_identity (re_site e) c (reporter_call (re_site e) c)) GATE_BANNER)) (\<lambda>s.
        ebind (on_error PyRaised (sigmond_pipeline_file repr c)) (\<lambda>f. Inr (s, f)))))"

text \<open>\<open>suppressed_pipelines\<close>: the names the policy holds back.\<close>

definition suppressed_pipelines ::
  "site \<Rightarrow> host_units \<Rightarrow> receiver_error + site_receiver list \<Rightarrow> int option \<Rightarrow> topology \<Rightarrow> coordination \<Rightarrow>
   manifest_error + pyval list" where
  "suppressed_pipelines st h receivers store t c =
     (if up_mode (co_uploads c) = ''upload'' then Inr []
      else ebind (collect_pipelines st h receivers (case store of Some v \<Rightarrow> v | None \<Rightarrow> 0) t c) (\<lambda>ps.
        ebind (on_error PyRaised (emap (\<lambda>p. case map_of p ''name'' of
            Some n \<Rightarrow> Inr n | None \<Rightarrow> Inl (KeyError ''name'')) ps)) Inr))"

section \<open>Proxying moves both halves together\<close>

lemma named_update_transport [simp]: "named n (AList.update ''transport'' v p) = named n p"
  by (simp add: named_def dget_def update_conv')

lemma set_transport_frame:
  "filter (\<lambda>p. \<not> named n p) (set_transport n t ps) = filter (\<lambda>p. \<not> named n p) ps"
  "map (\<lambda>p. dget p k PNone) (set_transport n t ps) = map (\<lambda>p. dget p k PNone) ps \<or> k = ''transport''"
  by (induction ps) (auto simp: dget_def update_conv')

lemma set_transport_found:
  "find (named n) ps \<noteq> None \<Longrightarrow> carrier_transport n (set_transport n t ps) = Some t"
  by (induction ps) (auto simp: carrier_transport_def transport_of_def dget_def update_conv')

lemma carrier_filter:
  "n \<noteq> m \<Longrightarrow> carrier_transport n (filter (\<lambda>p. \<not> named m p) ps) = carrier_transport n ps"
  by (induction ps) (auto simp: carrier_transport_def named_def)

text \<open>When a station hands an upstream to the servers and the pipeline that carries its spots there is
  rendered, that pipeline is flagged and the direct one is gone; otherwise nothing changes at all, so
  that the direct pipeline never goes without the flag.  The other pipelines are untouched.\<close>

theorem proxy_moves_together:
  "if sn_wsprnet_proxy (co_station c) \<and> carrier_transport ''wspr-wsprdaemon'' ps \<noteq> None
   then \<not> list_ex (named ''wspr-wsprnet'') (apply_proxying ps c)
     \<and> carrier_transport ''wspr-wsprdaemon'' (apply_proxying ps c)
         = map_option (AList.update ''forward_to_wsprnet'' (PBool True)) (carrier_transport ''wspr-wsprdaemon'' ps)
     \<and> filter (\<lambda>p. \<not> named ''wspr-wsprdaemon'' p) (apply_proxying ps c)
         = filter (\<lambda>p. \<not> named ''wspr-wsprnet'' p) (filter (\<lambda>p. \<not> named ''wspr-wsprdaemon'' p) ps)
   else apply_proxying ps c = ps"
proof (cases "sn_wsprnet_proxy (co_station c) \<and> carrier_transport ''wspr-wsprdaemon'' ps \<noteq> None")
  case True
  then obtain t where t: "carrier_transport ''wspr-wsprdaemon'' ps = Some t" by auto
  then have found: "find (named ''wspr-wsprdaemon'') ps \<noteq> None"
    by (auto simp: carrier_transport_def split: option.splits)
  let ?t = "AList.update ''forward_to_wsprnet'' (PBool True) t"
  have out: "apply_proxying ps c = filter (\<lambda>p. \<not> named ''wspr-wsprnet'' p) (set_transport ''wspr-wsprdaemon'' ?t ps)"
    using True t by (simp add: apply_proxying_def PROXIED_SERVICES_def proxy_one_def)
  have "carrier_transport ''wspr-wsprdaemon'' (apply_proxying ps c) = Some ?t"
    unfolding out using set_transport_found [OF found] by (simp add: carrier_filter)
  moreover have "filter (\<lambda>p. \<not> named ''wspr-wsprdaemon'' p) (apply_proxying ps c)
      = filter (\<lambda>p. \<not> named ''wspr-wsprnet'' p) (filter (\<lambda>p. \<not> named ''wspr-wsprdaemon'' p) ps)"
    unfolding out set_transport_frame(1) [where n = "''wspr-wsprdaemon''" and t = ?t and ps = ps, symmetric] filter_filter
    by (simp add: conj_commute)
  moreover have "\<not> list_ex (named ''wspr-wsprnet'') (apply_proxying ps c)"
    unfolding out by (simp add: list_ex_iff)
  ultimately show ?thesis using True t by simp
qed (auto simp: apply_proxying_def PROXIED_SERVICES_def proxy_one_def split: option.splits)

section \<open>The uploads policy\<close>


lemma identity_ignores_uploads:
  "reporter_call st (c \<lparr> co_uploads := u \<rparr>) = reporter_call st c"
  "resolve_tokens st client (c \<lparr> co_uploads := u \<rparr>) call = resolve_tokens st client c call"
  by (simp_all add: reporter_call_def resolve_tokens_def first_radiod_status_def cong: list.case_cong)

lemma pipelines_ignore_uploads:
  "collect_pipelines st h receivers v t (c \<lparr> co_uploads := u \<rparr>) = collect_pipelines st h receivers v t c"
proof -
  have "collect_client st (c \<lparr> co_uploads := u \<rparr>) = collect_client st c"
    by (simp add: fun_eq_iff collect_client_def identity_ignores_uploads cong: if_cong)
  moreover have "apply_proxying ps (c \<lparr> co_uploads := u \<rparr>) = apply_proxying ps c" for ps
    by (simp add: apply_proxying_def PROXIED_SERVICES_def proxy_one_def)
  ultimately show ?thesis by (simp add: collect_pipelines_def cong: if_cong)
qed

text \<open>In the gate form the two files do not depend on the uploads policy, nor on whether the daemon can
  discard: the switches alone decide.\<close>

theorem gate_form_ignores_policy:
  assumes "gate_form features marker"
  shows "generate_forms repr (e \<lparr> re_discard := b \<rparr>) features marker t (c \<lparr> co_uploads := u \<rparr>)
    = generate_forms repr e features marker t c"
proof -
  have "client_pipelines (e \<lparr> re_discard := b \<rparr>) t (c \<lparr> co_uploads := u \<rparr>) = client_pipelines e t c"
    by (simp add: client_pipelines_def pipelines_ignore_uploads cong: option.case_cong)
  moreover have "sigmond_pipeline_file repr (c \<lparr> co_uploads := u \<rparr>) = sigmond_pipeline_file repr c"
    by (simp add: sigmond_pipeline_file_def heartbeat_pipeline_def)
  moreover have "build_identity st (c \<lparr> co_uploads := u \<rparr>) call = build_identity st c call" for st call
    by (simp add: build_identity_def psws_station_for_host_def)
  ultimately show ?thesis
    using assms by (simp add: generate_forms_def identity_ignores_uploads)
qed

text \<open>With the producers split, no producer that posts its spots itself has a pipeline that would post
  them again.\<close>

theorem no_double_post:
  assumes "client_pipelines e t c = Inr ps" and "re_store e = Some v" and "SPLIT_STORE_VERSION \<le> v"
    and "inprocess_senders (hu_meteor (re_units e)) (hu_units (re_units e)) (hu_envs (re_units e)) t = Inr senders"
    and "producer \<in> set senders" and "map_of PSK_PRODUCERS producer = Some (own, modes)"
  shows "\<not> list_ex (named own) ps"
proof -
  obtain qs ss where q: "inprocess_pairs (re_units e) t qs = Inr ss" "ps = drop_inprocess_pipelines qs ss v"
    using assms(1,2) by (auto simp: client_pipelines_def ebind_eq_Inr elim: on_error.elims)
  show ?thesis
  proof (cases "list_ex (named own) qs")
    case True
    have "own \<in> set psk_names" using map_of_SomeD [OF assms(6)] by (force simp: psk_names_def)
    with True have "list_ex (\<lambda>p. list_ex (\<lambda>n. named n p) psk_names) qs" by (auto simp: list_ex_iff)
    then have ss: "ss = senders" using q(1) assms(4) by (simp add: inprocess_pairs_def)
    have "producer \<in> fst ` set PSK_PRODUCERS" using map_of_SomeD [OF assms(6)] by force
    moreover have "dget PSK_PRODUCERS producer ([], []) = (own, modes)" using assms(6) by simp
    ultimately have "named own p \<Longrightarrow> p \<notin> set ps" for p
      using q(2) ss assms(3,5) by (force simp: drop_inprocess_pipelines_def Let_def list_ex_iff)
    then show ?thesis by (auto simp: list_ex_iff)
  next
    case False
    then show ?thesis using q(2) by (auto simp: drop_inprocess_pipelines_def Let_def list_ex_iff)
  qed
qed

section \<open>No unresolved identity reaches the manifest\<close>

text \<open>No name in braces in a text, a value or a key; no key with one.\<close>

fun clean :: "pyval \<Rightarrow> bool" where
  "clean (PStr s) = (placeholders s = [])"
| "clean (PList xs) = list_all clean xs"
| "clean (PDict d) = list_all (\<lambda>(k, v). placeholders k = [] \<and> clean v) d"
| "clean v = True"

fun keys_plain :: "pyval \<Rightarrow> bool" where
  "keys_plain (PList xs) = list_all keys_plain xs"
| "keys_plain (PDict d) = list_all (\<lambda>(k, v). placeholders k = [] \<and> keys_plain v) d"
| "keys_plain v = True"

lemma placeholders_Nil [simp]: "placeholders [] = []"
  by (simp add: placeholders.simps)

lemma placeholders_char [simp]: "placeholders [c] = []"
  by (simp add: placeholders.simps [of "[c]"] placeholder_at_def)

lemma subst_clean: "keys_plain v \<Longrightarrow> subst t v = Inr (w, []) \<Longrightarrow> clean w"
proof (induction t v arbitrary: w rule: subst.induct)
  case (1 t s)
  then show ?case by (auto simp: subst_text_def ebind_eq_Inr)
next
  case (2 t xs)
  then obtain ys where ys: "emap (subst t) xs = Inr ys" "w = PList (map fst ys)" "concat (map snd ys) = []"
    by (auto simp: ebind_eq_Inr)
  have "clean (fst y)" if y: "y \<in> set ys" for y
  proof -
    obtain x where x: "x \<in> set xs" "subst t x = Inr y"
      using emap_member [OF ys(1) y] by blast
    moreover have "snd y = []" using ys(3) y by auto
    ultimately show ?thesis using "2.IH" [OF x(1), of "fst y"] "2.prems"(1) by (cases y) (auto simp: list_all_iff)
  qed
  then show ?case by (simp add: ys(2) list.pred_set)
next
  case (3 t d)
  then obtain ys where ys: "emap (\<lambda>(k, v). ebind (subst t v) (\<lambda>(w, m). Inr ((k, w), m))) d = Inr ys"
    "w = PDict (map fst ys)" "concat (map snd ys) = []"
    by (auto simp: ebind_eq_Inr)
  have "placeholders (fst (fst y)) = [] \<and> clean (snd (fst y))" if y: "y \<in> set ys" for y
  proof -
    obtain x where x: "x \<in> set d" "(\<lambda>(k, v). ebind (subst t v) (\<lambda>(w, m). Inr ((k, w), m))) x = Inr y"
      using emap_member [OF ys(1) y] by blast
    obtain k v where kv: "x = (k, v)" by (cases x)
    from x(2) obtain w' m where w: "subst t v = Inr (w', m)" "y = ((k, w'), m)" by (auto simp: kv ebind_eq_Inr)
    moreover have "m = []" using ys(3) y w(2) by auto
    ultimately show ?thesis
      using "3.IH" [OF x(1) kv [symmetric], of w'] "3.prems"(1) x(1) kv by (auto simp: list_all_iff)
  qed
  then show ?case by (auto simp: ys(2) list_all_iff)
qed auto

lemma clean_get: "clean (PDict d) \<Longrightarrow> clean (dget d k PNone)"
  by (auto simp: dget_def list_all_iff split: option.splits dest!: map_of_SomeD)

lemma clean_update:
  assumes "clean (PDict p)" and "placeholders k = []" and "clean v"
  shows "clean (PDict (AList.update k v p))"
proof -
  have "set (AList.update k v p) \<subseteq> insert (k, v) (set p)" by (induction p) auto
  with assms show ?thesis by (auto simp: list_all_iff)
qed

lemma clean_narrow: "clean v \<Longrightarrow> list_all (\<lambda>m. placeholders m = []) modes \<Longrightarrow> clean (narrow_clause modes v)"
proof -
  have m: "placeholders ''mode'' = []" by code_simp
  show "clean v \<Longrightarrow> list_all (\<lambda>m. placeholders m = []) modes \<Longrightarrow> clean (narrow_clause modes v)"
    by (auto simp: narrow_clause_def m list.pred_map comp_def split: pyval.splits list.splits)
qed

lemma items_clean: "items_in v = Inr cs \<Longrightarrow> clean v \<Longrightarrow> list_all clean cs"
  by (cases v) (fastforce simp: items_in_def list_all_iff split: if_splits)+

lemma producer_texts:
  assumes "client \<in> fst ` set PSK_PRODUCERS"
  shows "placeholders client = []" "placeholders (fst (dget PSK_PRODUCERS client ([], []))) = []"
    "list_all (\<lambda>m. placeholders m = []) (snd (dget PSK_PRODUCERS client ([], [])))"
proof -
  have "list_all (\<lambda>c. placeholders c = [] \<and> placeholders (fst (dget PSK_PRODUCERS c ([], []))) = []
    \<and> list_all (\<lambda>m. placeholders m = []) (snd (dget PSK_PRODUCERS c ([], [])))) (map fst PSK_PRODUCERS)"
    by code_simp
  with assms show "placeholders client = []" "placeholders (fst (dget PSK_PRODUCERS client ([], []))) = []"
    "list_all (\<lambda>m. placeholders m = []) (snd (dget PSK_PRODUCERS client ([], [])))"
    by (auto simp: list_all_iff)
qed

lemma split_clean:
  assumes "split_for_producer r client = Inr r'" and "clean (PDict r)" and "client \<in> fst ` set PSK_PRODUCERS"
  shows "clean (PDict r')"
proof -
  obtain name modes where nm: "dget PSK_PRODUCERS client ([], []) = (name, modes)" by force
  obtain source clauses where s: "dict_of (dget r ''source'' PNone) = Inr source"
    "items_in (dget source ''extra_where'' PNone) = Inr clauses"
    and r': "r' = AList.update ''source'' (PDict (AList.update ''producer'' (PStr client)
        (AList.update ''extra_where'' (PList (map (narrow_clause modes) clauses
            @ (if list_ex mode_clause clauses then [] else [PList [PStr ''mode'', PStr ''IN'', PList (map PStr modes)]]))) source)))
        (AList.update ''name'' (PStr name) r)"
    using assms(1) by (auto simp: split_for_producer_def nm Let_def ebind_eq_Inr)
  have k: "placeholders ''source'' = []" "placeholders ''name'' = []" "placeholders ''producer'' = []"
    "placeholders ''extra_where'' = []" "placeholders ''mode'' = []" "placeholders ''IN'' = []" by code_simp+
  have texts: "placeholders client = []" "placeholders name = []" "list_all (\<lambda>m. placeholders m = []) modes"
    using producer_texts [OF assms(3)] by (simp_all add: nm)
  have source: "clean (PDict source)"
    using s(1) clean_get [OF assms(2), of "''source''"] by (auto simp: dict_of_def split: if_splits pyval.splits)
  from items_clean [OF s(2) clean_get [OF this]] have "list_all clean (map (narrow_clause modes) clauses)"
    using texts(3) clean_narrow by (auto simp: list_all_iff)
  then have "clean (PList (map (narrow_clause modes) clauses
      @ (if list_ex mode_clause clauses then [] else [PList [PStr ''mode'', PStr ''IN'', PList (map PStr modes)]])))"
    using texts(3) k by (simp add: list.pred_map comp_def)
  then show ?thesis
    unfolding r' using source assms(2) k texts by (intro clean_update) auto
qed

definition sound_collected :: "collected \<Rightarrow> bool" where
  "sound_collected s \<longleftrightarrow> (case s of (ps, names) \<Rightarrow>
     list_all (\<lambda>p. clean (PDict p)) ps \<and> distinct (filter py_truthy (map (\<lambda>p. dget p ''name'' PNone) ps))
     \<and> list_all (\<lambda>p. py_truthy (dget p ''name'' PNone) \<longrightarrow> dget p ''name'' PNone \<in> set names) ps)"

lemma add_pipeline_sound:
  assumes "add_pipeline client name r s = Inr s'" and "sound_collected s" and "clean (PDict r)"
    and "placeholders client = []" and "py_truthy (dget r ''name'' PNone) \<longrightarrow> name = dget r ''name'' PNone"
  shows "sound_collected s'"
proof -
  have "placeholders ''client'' = []" by code_simp
  then have "clean (PDict (AList.update ''client'' (PStr client) r))"
    using clean_update [OF assms(3), of "''client''" "PStr client"] assms(4) by simp
  moreover have "dget (AList.update ''client'' v r) ''name'' PNone = dget r ''name'' PNone" for v
    by (simp add: dget_def update_conv')
  ultimately show ?thesis
    using assms(1,2,5) by (cases s) (auto simp: add_pipeline_def sound_collected_def list_all_iff simp del: clean.simps split: if_splits)
qed

lemma split_name:
  "split_for_producer r client = Inr r' \<Longrightarrow> dget r' ''name'' PNone = PStr (fst (dget PSK_PRODUCERS client ([], [])))"
  by (auto simp: split_for_producer_def Let_def ebind_eq_Inr dget_def update_conv' split: prod.splits)

lemma collect_decl_sound:
  assumes "collect_decl tokens split client decl s = Inr s'" and "sound_collected s" and "keys_plain decl"
    and "placeholders client = []"
  shows "sound_collected s'"
proof -
  obtain rendered missing where sub: "subst tokens decl = Inr (rendered, missing)"
    using assms(1) by (auto simp: collect_decl_def ebind_eq_Inr)
  obtain r where r: "rendered = PDict r" using assms(1) by (cases rendered) (auto simp: collect_decl_def sub)
  show ?thesis
  proof (cases "missing = []")
    case True
    then have c: "clean (PDict r)" using subst_clean [OF assms(3), of tokens "PDict r"] sub r by simp
    let ?name = "or_empty (dget r ''name'' PNone) (client @ ''-pipeline'')"
    show ?thesis
    proof (cases "?name = PStr SHARED_PSK_PIPELINE \<and> client \<in> fst ` set PSK_PRODUCERS \<and> split")
      case split: True
      then obtain r' where r': "split_for_producer r client = Inr r'"
        "add_pipeline client (dget r' ''name'' PNone) r' s = Inr s'"
        using assms(1) True by (auto simp: collect_decl_def sub r Let_def ebind_eq_Inr)
      from add_pipeline_sound [OF r'(2) assms(2) split_clean [OF r'(1) c] assms(4)] split show ?thesis by simp
    next
      case False
      then have "add_pipeline client ?name r s = Inr s'"
        using assms(1) True by (auto simp: collect_decl_def sub r Let_def)
      from add_pipeline_sound [OF this assms(2) c assms(4)] show ?thesis by (simp add: or_empty_def)
    qed
  qed (use assms(1,2) in \<open>simp add: collect_decl_def sub r Let_def\<close>)
qed

definition plain_declarations :: "site \<Rightarrow> string \<Rightarrow> bool" where
  "plain_declarations st client \<longleftrightarrow> placeholders client = [] \<and>
     (case pipeline_decls (si_deploy st client) of Inr ds \<Rightarrow> list_all keys_plain ds | Inl e \<Rightarrow> True)"

lemma collect_sound:
  assumes "efold (collect_client st c split) clients ([], []) = Inr s" and "list_all (plain_declarations st) clients"
  shows "sound_collected s"
proof (rule efold_invariant [OF assms(1)])
  show "sound_collected ([], [])" by (simp add: sound_collected_def)
  fix client u v
  assume m: "client \<in> set clients" and u: "sound_collected u" and step: "collect_client st c split client u = Inr v"
  have plain: "plain_declarations st client" using assms(2) m by (simp add: list_all_iff)
  obtain ds where ds: "pipeline_decls (si_deploy st client) = Inr ds"
    using step by (auto simp: collect_client_def ebind_eq_Inr)
  show "sound_collected v"
  proof (cases "ds = []")
    case False
    then obtain tokens where t: "efold (collect_decl tokens split client) ds u = Inr v"
      using step ds by (auto simp: collect_client_def ebind_eq_Inr)
    show ?thesis
      by (rule efold_invariant [where P = sound_collected, OF t u], rule collect_decl_sound)
        (use plain ds in \<open>auto simp: plain_declarations_def list_all_iff\<close>)
  qed (use step ds u in \<open>simp add: collect_client_def\<close>)
qed

definition sound_pipelines :: "pipeline list \<Rightarrow> bool" where
  "sound_pipelines ps \<longleftrightarrow> list_all (\<lambda>p. clean (PDict p)) ps
     \<and> distinct (filter py_truthy (map (\<lambda>p. dget p ''name'' PNone) ps))"

lemma sound_filter: "sound_pipelines ps \<Longrightarrow> sound_pipelines (filter Q ps)"
proof -
  have "distinct (filter P (map f xs)) \<Longrightarrow> distinct (filter P (map f (filter Q xs)))" for P and f :: "pipeline \<Rightarrow> pyval" and xs
    by (induction xs) auto
  then show "sound_pipelines ps \<Longrightarrow> sound_pipelines (filter Q ps)"
    by (auto simp: sound_pipelines_def list_all_iff simp del: clean.simps)
qed

lemma carrier_clean:
  assumes "list_all (\<lambda>p. clean (PDict p)) ps" and "carrier_transport n ps = Some t"
  shows "clean (PDict t)"
proof -
  obtain p where p: "find (named n) ps = Some p" "transport_of p = Some t"
    using assms(2) by (auto simp: carrier_transport_def split: option.splits)
  then have "p \<in> set ps" by (auto simp: find_Some_iff)
  then have "clean (PDict p)" using assms(1) by (simp only: list_all_iff)
  from clean_get [OF this, of "''transport''"] p(2) show ?thesis by (auto simp: transport_of_def split: pyval.splits)
qed

lemma set_transport_sound:
  assumes "sound_pipelines ps" and "clean (PDict t)"
  shows "sound_pipelines (set_transport n t ps)"
proof -
  have k: "placeholders ''transport'' = []" by code_simp
  have "list_all (\<lambda>p. clean (PDict p)) qs \<Longrightarrow> list_all (\<lambda>p. clean (PDict p)) (set_transport n t qs)" for qs
    using clean_update [OF _ k assms(2)] by (induction qs) (auto simp del: clean.simps)
  then show ?thesis
    using assms(1) set_transport_frame(2) [where n = n and t = t and ps = ps and k = "''name''"]
    by (simp add: sound_pipelines_def)
qed


section \<open>A declared merge is what the manifest carries\<close>

lemma call_chars:
  assumes "is_upper c \<or> is_digit c \<or> c = CHR ''/''"
  shows "\<not> is_space c" and "upper_char c = [c]"
proof -
  have slash: "\<not> is_space (CHR ''/'')" by (simp add: is_space_def)
  have up: "upper_char (CHR ''/'') = ''/''" by (simp add: upper_char_def is_lower_def)
  have letter: "id_end c" if "c \<noteq> CHR ''/''" using that assms by (simp add: id_end_def)
  show "\<not> is_space c" by (cases "c = CHR ''/''") (use slash letter id_char_facts(3) in blast)+
  show "upper_char c = [c]" by (cases "c = CHR ''/''") (use up letter id_char_facts(5) in blast)+
qed

lemma call_word: "call_ok s \<Longrightarrow> strip s = s \<and> upper s = s \<and> s \<noteq> []"
proof -
  assume s: "call_ok s"
  have c: "is_upper c \<or> is_digit c \<or> c = CHR ''/''" if "c \<in> set s" for c
    using s that by (simp add: call_ok_def list_all_iff)
  have "\<not> list_ex is_space s" unfolding list_ex_iff using c call_chars(1) by blast
  moreover have "upper s = s"
  proof -
    have "\<forall>c \<in> set s. upper_char c = [c]" using c call_chars(2) by blast
    then show ?thesis unfolding upper_def by (induction s) auto
  qed
  moreover have "s \<noteq> []" using s by (auto simp: call_ok_def)
  ultimately show ?thesis by simp
qed

lemma remdups_same: "xs \<noteq> [] \<Longrightarrow> list_all (\<lambda>x. x = a) xs \<Longrightarrow> rev (remdups (rev xs)) = [a]"
proof -
  have "xs \<noteq> [] \<Longrightarrow> list_all (\<lambda>x. x = a) xs \<Longrightarrow> remdups xs = [a]" for xs
  proof (induction xs)
    case (Cons x xs)
    show ?case
    proof (cases "xs = []")
      case False
      with Cons have r: "remdups xs = [a]" "x = a" by simp_all
      from r(1) have "set (remdups xs) = {a}" by simp
      then have "a \<in> set xs" by simp
      with r show ?thesis by simp
    qed (use Cons.prems in simp)
  qed simp
  then show "xs \<noteq> [] \<Longrightarrow> list_all (\<lambda>x. x = a) xs \<Longrightarrow> rev (remdups (rev xs)) = [a]"
    by (simp add: list.pred_set)
qed

text \<open>The grid a merge ends up with: the one declared, else the site's.\<close>

definition merge_grid_of :: "string \<Rightarrow> pyval \<Rightarrow> string" where
  "merge_grid_of grid site_grid = (if strip grid \<noteq> [] then strip grid
     else case site_grid of PStr g \<Rightarrow> strip g | _ \<Rightarrow> [])"

theorem merge_declared_renders:
  assumes "set_merge current reporters into grid = Inr out" and "well_keyed current" and "list_all displayed current"
    and "list_all (\<lambda>r. \<not> rc_uploads r \<or> receiver_key r \<in> set (map key_or_none reporters)) current"
    and "list_ex rc_uploads current" and "strip into \<noteq> []" and "merge_grid_of grid site_grid \<noteq> []"
  shows "merge_target out site_grid = Inr (Some (upper (strip into), merge_grid_of grid site_grid))"
proof -
  let ?into = "upper (strip into)" and ?ks = "map key_or_none reporters"
  have ok: "merge_ok ?into (strip grid)" and out: "out = map (merge_set ?ks ?into (strip grid)) current"
    using set_merge_exact [OF assms(2,3)] assms(1) by auto
  have "?into \<noteq> []" using assms(6) by (cases "strip into") (auto simp: upper_def upper_char_def Let_def)
  then have call: "strip ?into = ?into" "upper ?into = ?into" "?into \<noteq> []"
    using ok call_word [of ?into] by (auto simp: merge_ok_def)
  have up: "rc_uploads (merge_set ?ks ?into (strip grid) r) = rc_uploads r" for r
    by (simp add: merge_set_def rc_uploads_def split: option.split)
  let ?up = "filter rc_uploads out"
  have row: "rc_merge_into r = ?into \<and> rc_merge_grid r = strip grid" if "r \<in> set ?up" for r
    using that assms(4) by (auto simp: out up list_all_iff merge_set_def)
  have ne: "?up \<noteq> []" using assms(5) by (auto simp: out up list_ex_iff filter_empty_conv)
  have merged: "filter rc_merges ?up = ?up" "filter (\<lambda>r. \<not> rc_merges r) ?up = []"
    using row call by (auto simp: filter_empty_conv rc_merges_def intro!: filter_True simp del: filter_filter)
  have target: "target_of site_grid r = Inr (?into, merge_grid_of grid site_grid)" if "r \<in> set ?up" for r
    using row [OF that] call assms(7) by (auto simp: target_of_def merge_grid_of_def Let_def split: pyval.splits)
  have "emap (target_of site_grid) ?up = Inr (map (\<lambda>_. (?into, merge_grid_of grid site_grid)) ?up)"
    using target by (rule emap_const)
  moreover have "rev (remdups (rev (map (\<lambda>_. (?into, merge_grid_of grid site_grid)) ?up)))
      = [(?into, merge_grid_of grid site_grid)]"
    using ne by (intro remdups_same) (auto simp: list_all_iff)
  ultimately show ?thesis
    using merged ne assms(7) by (simp add: merge_target_def Let_def)
qed

section \<open>A small station\<close>

definition example_deploy :: "string \<Rightarrow> (string, pyval) dict option" where
  "example_deploy client = (if client = ''psk-recorder''
     then Some [(''hs_uploader'', PDict [(''pipeline'', PList [PDict [(''name'', PStr ''psk-pskreporter''),
       (''call'', PStr ''{call}'')]])])] else None)"

definition example_units :: host_units where
  "example_units = \<lparr> hu_units = (\<lambda>_. Some [''psk-recorder@A1=B.service'']),
     hu_envs = (\<lambda>_. Inr [(''PSK_DELIVERY_PIPELINES'', ''direct'')]),
     hu_meteor = \<lparr> ms_exists = (\<lambda>_. False), ms_config = (\<lambda>_. None) \<rparr> \<rparr>"

definition example_site :: site where
  "example_site = \<lparr> si_deploy = example_deploy, si_instances = [(''wspr-recorder'', ''A1=B'')],
     si_psws = (\<lambda>_. None), si_exists = (\<lambda>_. False) \<rparr>"

definition example_render :: render_in where
  "example_render = \<lparr> re_site = example_site, re_units = example_units, re_receivers = Inr [],
     re_discard = False, re_store = Some 2 \<rparr>"

lemma example_collects:
  "collect_pipelines example_site example_units (Inr []) 2 psk_station empty_coordination
    = Inr [[(''name'', PStr ''psk-recorder-pskreporter''), (''call'', PStr ''A1/B''),
        (''source'', PDict [(''extra_where'', PList [PList [PStr ''mode'', PStr ''IN'', PList [PStr ''ft8'', PStr ''ft4'']]]),
          (''producer'', PStr ''psk-recorder'')]), (''client'', PStr ''psk-recorder'')]]"
  by code_simp

lemma example_sends:
  "inprocess_senders (hu_meteor example_units) (hu_units example_units) (hu_envs example_units) psk_station
     = Inr [''psk-recorder'']"
  by code_simp

lemma example_client_pipelines: "client_pipelines example_render psk_station empty_coordination = Inr []"
proof -
  have "inprocess_pairs example_units psk_station
      [[(''name'', PStr ''psk-recorder-pskreporter''), (''call'', PStr ''A1/B''),
        (''source'', PDict [(''extra_where'', PList [PList [PStr ''mode'', PStr ''IN'', PList [PStr ''ft8'', PStr ''ft4'']]]),
          (''producer'', PStr ''psk-recorder'')]), (''client'', PStr ''psk-recorder'')]] = Inr [''psk-recorder'']"
    using example_sends by (simp add: inprocess_pairs_def psk_names_def PSK_PRODUCERS_def named_def)
  then show ?thesis
    by (simp add: client_pipelines_def example_render_def example_collects drop_inprocess_pipelines_def
        PSK_PRODUCERS_def SPLIT_STORE_VERSION_def named_def)
qed

theorem no_double_post_witness:
  "(case client_pipelines example_render psk_station empty_coordination of Inl e \<Rightarrow> False
     | Inr ps \<Rightarrow> \<not> list_ex (named ''psk-recorder-pskreporter'') ps)"
proof -
  have "re_store example_render = Some 2" "SPLIT_STORE_VERSION \<le> 2"
    by (simp_all add: example_render_def SPLIT_STORE_VERSION_def)
  moreover have "inprocess_senders (hu_meteor (re_units example_render)) (hu_units (re_units example_render))
      (hu_envs (re_units example_render)) psk_station = Inr [''psk-recorder'']"
    using example_sends by (simp add: example_render_def)
  moreover have "map_of PSK_PRODUCERS ''psk-recorder'' = Some (''psk-recorder-pskreporter'', [''ft8'', ''ft4''])"
    by (simp add: PSK_PRODUCERS_def)
  ultimately have "\<not> list_ex (named ''psk-recorder-pskreporter'') []"
    using no_double_post [OF example_client_pipelines] by fastforce
  then show ?thesis by (simp add: example_client_pipelines)
qed



theorem gate_form_ignores_policy_witness:
  "generate_forms (\<lambda>v. []) (example_render \<lparr> re_discard := True \<rparr>) (Some {''gate''}) True psk_station
       (empty_coordination \<lparr> co_uploads := new_uploads False [] ''hold'' True \<rparr>)
     = generate_forms (\<lambda>v. []) example_render (Some {''gate''}) True psk_station empty_coordination"
  by (rule gate_form_ignores_policy) (simp add: gate_form_def)

definition example_receiver :: site_receiver where
  "example_receiver = \<lparr> rc_reporter_id = ''A1/B'', rc_radiod = ''bee1.local'', rc_kiwisdr = [], rc_antenna = [],
     rc_clients = [], rc_injector = False, rc_same_antenna = [], rc_upload = None, rc_merge_into = [],
     rc_merge_grid = [] \<rparr>"

theorem merge_declared_renders_witness:
  "(case set_merge [example_receiver] [''A1/B''] ''W1AW'' [] of Inl e \<Rightarrow> False
     | Inr out \<Rightarrow> merge_target out (PStr ''FN31'') = Inr (Some (''W1AW'', ''FN31'')))"
proof -
  have id: "REPORTER_ID ''A1=B''" by code_simp
  have disp: "display_reporter_id ''A1=B'' = ''A1/B''" using display_id [OF id] by (simp add: replace_char_def)
  then have st: "storage_of ''A1/B'' = Inr ''A1=B''" using parse_id(1) [OF id] by (simp add: storage_of_def)
  then have key: "receiver_key example_receiver = Some ''A1=B''" by (simp add: receiver_key_Some example_receiver_def)
  have w: "well_keyed [example_receiver]" "list_all displayed [example_receiver]"
    using key disp by (simp_all add: well_keyed_def displayed_def) (simp add: example_receiver_def)
  have texts: "strip ''W1AW'' = ''W1AW''" "strip ([] :: string) = []" "strip ''FN31'' = ''FN31''" by code_simp+
  have "call_ok ''W1AW''" by code_simp
  then have up: "upper ''W1AW'' = ''W1AW''" using call_word by blast
  have "merge_ok ''W1AW'' []" by code_simp
  moreover have "key_or_none ''A1/B'' = Some ''A1=B''" using st by (simp add: key_or_none_def)
  ultimately have ok: "set_merge [example_receiver] [''A1/B''] ''W1AW'' [] = Inr
      (map (merge_set (map key_or_none [''A1/B'']) ''W1AW'' []) [example_receiver])"
    using set_merge_exact [OF w, of "[''A1/B'']" "''W1AW''" "[]"] key by (simp add: texts up)
  have "merge_target (map (merge_set (map key_or_none [''A1/B'']) ''W1AW'' []) [example_receiver]) (PStr ''FN31'')
      = Inr (Some (''W1AW'', ''FN31''))"
    using merge_declared_renders [OF ok w, of "PStr ''FN31''"] key \<open>key_or_none ''A1/B'' = Some ''A1=B''\<close>
    by (simp add: texts up merge_grid_of_def rc_uploads_def example_receiver_def)
  then show ?thesis by (simp add: ok)
qed

end
