(* ===== verification/HostRules.thy ===== *)
theory HostRules
  imports Harmonize UploadState Manifest CpuReport
begin

text \<open>
  The harmonization rules that read the running host (\<open>src/lib/sigmond/harmonize.py\<close>): the receivers' cores,
  the reference oscillators, the socket buffers, the web page, the timing chain, decoding, the
  hardware a component needs, the delivered secrets, the uploads and the rendered manifest.  What they
  read (reports, files, the output of \<open>systemctl\<close>, the answers of other modules) is an argument.
\<close>

section \<open>The receivers' cores at run time\<close>

datatype core_issue = Pinned nat | Overridden "string list" | ForeignDrops "string list" | Unfenced "string list"
  | BadGovernor pyval "(int \<times> string) list" nat

datatype host_message =
    Plain string
  | CoreIssues "core_issue list"
  | Uncontested "int list"
  | GovernorIssues "(string \<times> string list) list"
  | OneGovernorEach nat
  | Rcvbuf int
  | WebTarget string "string list"
  | LinkDetails "(string \<times> string) list"
  | Summary string
  | Warming string "string list"
  | RecorderOnly "string list"
  | DecodeOn nat
  | NotRunning "(string \<times> string) list"
  | Dormant "(string \<times> string) list"
  | SecretProblems "(string \<times> string) list"
  | NotUploading "(string \<times> string \<times> string list) list"
  | MissingCreds "(string \<times> string \<times> string) list"
  | Drift "(bool \<times> string \<times> string) list"

type_synonym host_result = "host_message rule_result"

definition bad_governors :: "pyval \<Rightarrow> affinity_report \<Rightarrow> (int \<times> string) list" where
  "bad_governors expected rp = List.map_filter (\<lambda>cpu. case map_of (governors (rp_caps rp)) cpu of
       Some g \<Rightarrow> if g \<noteq> [] \<and> PStr g \<noteq> expected then Some (cpu, g) else None | None \<Rightarrow> None)
     (sorted_list_of_set (report_radiod_cpus rp))"

definition core_issues :: "pyval \<Rightarrow> affinity_report \<Rightarrow> core_issue list" where
  "core_issues expected rp =
     (let units = rp_units rp; names = (\<lambda>P. map ua_unit (filter P units));
          pinned = pinned_contention rp;
          overrides = names (\<lambda>u. ua_role u = ''radiod'' \<and> mask_mismatch u);
          foreign = names (\<lambda>u. foreign_drop_ins u \<noteq> []);
          unfenced = names (\<lambda>u. ua_role u = ''radiod'' \<and> ua_main_pid u \<noteq> None \<and> \<not> drop_in_present u);
          bad = bad_governors expected rp in
      (if pinned \<noteq> [] then [Pinned (length pinned)] else [])
      @ (if overrides \<noteq> [] then [Overridden overrides] else [])
      @ (if foreign \<noteq> [] then [ForeignDrops foreign] else [])
      @ (if unfenced \<noteq> [] then [Unfenced unfenced] else [])
      @ (if bad \<noteq> [] then [BadGovernor expected (take 4 bad) (length bad - 4)] else []))"

text \<open>\<open>None\<close> is a report that raised.\<close>

definition rule_cpu_isolation_runtime :: "affinity_report option \<Rightarrow> system_view \<Rightarrow> host_result" where
  "rule_cpu_isolation_runtime report v =
     (let r = ''cpu_isolation_runtime'' in
      if local_radiods (sv_coordination v) = [] then result r Pass (Plain ''skipped (no local radiod)'') []
      else case report of
          None \<Rightarrow> result r Pass (Plain ''runtime check unavailable'') []
        | Some rp \<Rightarrow>
            if report_radiod_cpus rp = {} then result r Pass (Plain ''skipped (no radiod units running)'') []
            else (let issues = core_issues (dget (tp_cpu_affinity (sv_topology v)) ''radiod_governor''
                    (PStr ''performance'')) rp in
              if issues \<noteq> [] then result r Warn (CoreIssues issues) (sorted_set (map ct_comm (pinned_contention rp)))
              else result r Pass (Uncontested (sorted_list_of_set (report_radiod_cpus rp))) []))"

section \<open>Reference oscillators\<close>

text \<open>The reports of the oscillator monitor: the file's name and its parsed content, \<open>None\<close> when it cannot be
  read or parsed.\<close>

type_synonym gpsdo_reports = "(string \<times> pyval option) list"

definition stem :: "string \<Rightarrow> string" where
  "stem n = (if 5 < length n \<and> ends_with n ''.json'' then take (length n - 5) n else n)"

definition governed_id :: "string \<Rightarrow> string" where
  "governed_id token = (if starts_with token ''radiod:'' then snd (split_once (CHR '':'') token) else token)"

definition claims_of :: "(pyval \<Rightarrow> string) \<Rightarrow> string \<times> pyval option \<Rightarrow> (string \<times> string) list" where
  "claims_of repr rep = (case rep of
       (name, Some (PDict d)) \<Rightarrow>
         if dget d ''schema'' PNone \<noteq> PStr ''v1'' then []
         else (let serial = (case dget d ''device'' PNone of
                   PDict dev \<Rightarrow> (let s = dget dev ''serial'' PNone in if py_truthy s then py_str repr s else stem name)
                 | _ \<Rightarrow> stem name);
                   governs = dget d ''governs'' PNone in
           case (if py_truthy governs then governs else PList []) of
             PList ts \<Rightarrow> List.map_filter (\<lambda>t. case t of PStr s \<Rightarrow> Some (governed_id s, serial) | _ \<Rightarrow> None) ts
           | _ \<Rightarrow> [])
     | _ \<Rightarrow> [])"

definition claimants :: "(string \<times> string) list \<Rightarrow> string \<Rightarrow> string list" where
  "claimants claims rid = map snd (filter (\<lambda>(r, s). r = rid) claims)"

definition governor_step ::
  "(string \<times> string) list \<Rightarrow> radiod \<Rightarrow> (string \<times> string list) list \<times> rule_severity \<Rightarrow>
   (string \<times> string list) list \<times> rule_severity" where
  "governor_step claims rd st = (case st of (issues, sev) \<Rightarrow>
     (let cs = claimants claims (ra_id rd) in
      if cs = [] then (issues @ [(ra_id rd, [])], if sev = Pass then Warn else sev)
      else if length cs = 1 then (issues, sev)
      else (issues @ [(ra_id rd, sort cs)], Fail)))"

definition rule_gpsdo_governor_coverage ::
  "(pyval \<Rightarrow> string) \<Rightarrow> gpsdo_reports option \<Rightarrow> system_view \<Rightarrow> host_result" where
  "rule_gpsdo_governor_coverage repr dir v =
     (let r = ''gpsdo_governor_coverage''; skip = (\<lambda>why. result r Pass (Plain why) []) in
      case dir of None \<Rightarrow> skip ''skipped (no /run/gpsdo)''
      | Some reports \<Rightarrow>
          (let files = filter (\<lambda>(n, d). n \<noteq> ''index.json'') reports;
               rds = local_radiods (sv_coordination v);
               claims = concat (map (claims_of repr) files) in
           if files = [] then skip ''skipped (no gpsdo-monitor reports present)''
           else if rds = [] then skip ''skipped (no local radiod)''
           else case fold (governor_step claims) rds ([], Pass) of (issues, sev) \<Rightarrow>
             if sev = Pass then result r Pass (OneGovernorEach (length (filter (\<lambda>rd.
               length (claimants claims (ra_id rd)) = 1) rds))) []
             else result r sev (GovernorIssues issues) (sorted_set (map fst issues))))"

section \<open>Socket buffers\<close>

definition KA9Q_PYTHON_SO_RCVBUF_REQUEST :: int where "KA9Q_PYTHON_SO_RCVBUF_REQUEST = 8 * 1024 * 1024"

definition RCVBUF_FLOOR_BYTES :: int where "RCVBUF_FLOOR_BYTES = 2 * KA9Q_PYTHON_SO_RCVBUF_REQUEST"

definition RCVBUF_RECOMMENDED_BYTES :: int where "RCVBUF_RECOMMENDED_BYTES = 64 * 1024 * 1024"

definition rule_kernel_rcvbuf_adequate :: "string option \<Rightarrow> system_view \<Rightarrow> host_result" where
  "rule_kernel_rcvbuf_adequate proc v =
     (let r = ''kernel_rcvbuf_adequate''; types = declared_types (sv_coordination v) in
      case Option.bind proc (int_of_string \<circ> strip) of
        None \<Rightarrow> result r Pass (Plain ''skipped: cannot read rmem_max'') []
      | Some rmem \<Rightarrow>
          if rmem < RCVBUF_FLOOR_BYTES then result r Fail (Rcvbuf rmem) types
          else if rmem < RCVBUF_RECOMMENDED_BYTES then result r Warn (Rcvbuf rmem) types
          else result r Pass (Rcvbuf rmem) [])"

section \<open>The target of the web page\<close>

text \<open>The search for \<open>^ExecStart=.*\s-m\s+(\S+)\<close>: at a line start, the last \<open>-m\<close> of the line that an argument
  follows (the white space before the argument may be a line break).\<close>

fun dash_m :: "string \<Rightarrow> string option" where
  "dash_m (c # d # m # e # rest) =
     (let target = takeWhile (\<lambda>x. \<not> is_space x) (dropWhile is_space rest) in
      if is_space c \<and> d = CHR ''-'' \<and> m = CHR ''m'' \<and> is_space e \<and> target \<noteq> [] then Some target else None)"
| "dash_m s = None"

fun first_some :: "('a \<Rightarrow> 'b option) \<Rightarrow> 'a list \<Rightarrow> 'b option" where
  "first_some f [] = None"
| "first_some f (x # xs) = (case f x of None \<Rightarrow> first_some f xs | Some y \<Rightarrow> Some y)"

definition exec_target_here :: "string \<Rightarrow> string option" where
  "exec_target_here s =
     (if \<not> starts_with s ''ExecStart='' then None
      else let body = drop 10 s; n = length (takeWhile (\<lambda>c. c \<noteq> CHR 0x0A) body) in
        first_some (\<lambda>i. dash_m (drop i body)) (rev [0..<Suc n]))"

definition line_starts :: "string \<Rightarrow> nat list" where
  "line_starts s = filter (\<lambda>i. i = 0 \<or> s ! (i - 1) = CHR 0x0A) [0..<Suc (length s)]"

definition exec_target :: "string \<Rightarrow> string option" where
  "exec_target s = first_some (\<lambda>i. exec_target_here (drop i s)) (line_starts s)"

text \<open>The names of the local radiods; a name that is no string ends in a TypeError, of the set, of the sort or of
  the join.\<close>

definition local_dns :: "coordination \<Rightarrow> py_error + string list" where
  "local_dns c = ebind (emap as_str (filter py_truthy (map effective_status_dns (local_radiods c)))) (\<lambda>ns.
     Inr (sorted_set ns))"

definition rule_ka9q_web_target :: "string option \<Rightarrow> system_view \<Rightarrow> py_error + host_result" where
  "rule_ka9q_web_target unit v =
     (let r = ''ka9q_web_target''; skip = (\<lambda>why. Inr (result r Pass (Plain why) [])) in
      case unit of None \<Rightarrow> skip ''skipped: ka9q-web.service not installed''
      | Some t \<Rightarrow> (case exec_target t of
            None \<Rightarrow> skip ''skipped: no -m argument in ka9q-web ExecStart''
          | Some target \<Rightarrow> ebind (local_dns (sv_coordination v)) (\<lambda>names.
              if names = [] then skip ''skipped: no local radiod in coordination''
              else Inr (if target \<in> set names then result r Pass (WebTarget target []) []
                else result r Fail (WebTarget target names) [''ka9q-web'']))))"

section \<open>The timing chain and decoding\<close>

text \<open>A link is a name, a status and a detail. \<open>None\<close> is a probe that raised.\<close>

type_synonym link = "string \<times> string \<times> string"

definition rule_timing_reference :: "bool \<Rightarrow> link list option \<Rightarrow> host_result" where
  "rule_timing_reference gpsd links =
     (let r = ''timing_reference'' in
      if \<not> gpsd then result r Pass (Plain ''skipped (no local gpsd / GPS timing chain)'') []
      else case links of None \<Rightarrow> result r Pass (Plain ''skipped (timing probe failed)'') []
      | Some links \<Rightarrow>
          (let by_name = map_of (rev links);
               fails = filter (\<lambda>(n, s, d). s = ''fail'') links;
               warns = filter (\<lambda>(n, s, d). s = ''warn'') links;
               gps = (case by_name ''gps-feed'' of Some (s, d) \<Rightarrow> d | None \<Rightarrow> ''chain present'');
               summary = (case by_name ''chrony'' of Some (s, d) \<Rightarrow> if s = ''ok'' then d else gps | None \<Rightarrow> gps) in
           if fails \<noteq> [] then result r Fail (LinkDetails (map (\<lambda>(n, s, d). (n, d)) fails)) (map fst fails)
           else if warns \<noteq> [] then result r Warn (Warming summary (map fst warns)) (map fst warns)
           else result r Pass (Summary summary) []))"

text \<open>The environment of an instance, by the path of its file; a file that cannot be read is empty.\<close>

definition resolve_instance_env :: "(string \<Rightarrow> string option) \<Rightarrow> string \<Rightarrow> string \<Rightarrow> (string, string) dict" where
  "resolve_instance_env read client inst =
     (case read (join_path (''/etc/'' @ client @ ''/env'') (unescape_systemd_instance inst @ ''.env'')) of
        Some t \<Rightarrow> parse_env_text t | None \<Rightarrow> [])"

text \<open>The first word of each line that is not blank.\<close>

definition listed_units :: "string \<Rightarrow> string list" where
  "listed_units out = map (hd \<circ> split_ws) (filter (\<lambda>l. strip l \<noteq> []) (splitlines out))"

definition decode_on :: "(string \<Rightarrow> string option) \<Rightarrow> string \<Rightarrow> bool" where
  "decode_on read inst = (strip (dget (resolve_instance_env read ''wspr-recorder'' inst) ''WD_DECODE_VIA_DB'' [])
     \<notin> set [[], ''0''])"

definition wspr_inst :: "string \<Rightarrow> string" where
  "wspr_inst u = (let n = length u - length ''.service'' in drop (length ''wspr-recorder@'') (take n u))"

definition rule_wspr_decode_enabled ::
  "bool \<Rightarrow> bool \<Rightarrow> string option \<Rightarrow> (string \<Rightarrow> string option) \<Rightarrow> host_result" where
  "rule_wspr_decode_enabled env_dir legacy out read =
     (let r = ''wspr_decode_enabled''; skip = (\<lambda>why. result r Pass (Plain why) []) in
      if \<not> env_dir then skip ''skipped (no wspr-recorder configured)''
      else if legacy then skip ''skipped (legacy wsprdaemon-client decode chain present)''
      else case out of None \<Rightarrow> skip ''skipped (systemctl unavailable)''
      | Some t \<Rightarrow>
          (let active = listed_units t;
               off = filter (\<lambda>u. \<not> decode_on read (wspr_inst u)) active in
           if active = [] then skip ''skipped (no active wspr-recorder instance)''
           else if off \<noteq> [] then
             result r Warn (RecorderOnly (map (display_reporter_id \<circ> wspr_inst) off)) [''wspr-recorder'']
           else result r Pass (DecodeOn (length active)) []))"

section \<open>Components that need hardware\<close>

definition hardware_gated_registry :: "catalog option \<Rightarrow> (string, string) dict" where
  "hardware_gated_registry ents = (case ents of None \<Rightarrow> []
     | Some es \<Rightarrow> List.map_filter (\<lambda>(n, e). case ce_hardware_gated e of
         Some l \<Rightarrow> if l = [] then None else Some (n, l) | None \<Rightarrow> None) es)"

definition unit_active :: "string option \<Rightarrow> bool" where
  "unit_active out = (case out of None \<Rightarrow> False | Some t \<Rightarrow> list_ex (\<lambda>l. strip l \<noteq> []) (splitlines t))"

text \<open>\<open>ready c\<close> is the readiness of the component's hardware, \<open>None\<close> when unknown; \<open>active p\<close> is what
  \<open>systemctl\<close> lists for a pattern.\<close>

definition dormant_reason ::
  "(string, string) dict \<Rightarrow> (string \<Rightarrow> bool option) \<Rightarrow> string \<Rightarrow> bool \<Rightarrow> string option" where
  "dormant_reason registry ready n enabled =
     (if \<not> enabled then None
      else case map_of registry n of None \<Rightarrow> None
        | Some l \<Rightarrow> if ready n = Some False then Some l else None)"

definition hardware_step ::
  "topology \<Rightarrow> (string \<Rightarrow> bool option) \<Rightarrow> (string \<Rightarrow> string option) \<Rightarrow> string \<times> string \<Rightarrow>
   (string \<times> string) list \<times> (string \<times> string) list \<Rightarrow> (string \<times> string) list \<times> (string \<times> string) list" where
  "hardware_step t ready active cl st = (case (cl, st) of ((n, l), (asleep, stopped)) \<Rightarrow>
     if \<not> is_enabled t n then st
     else case ready n of None \<Rightarrow> st
       | Some False \<Rightarrow> (asleep @ [(n, l)], stopped)
       | Some True \<Rightarrow> if unit_active (active (n @ ''.service'')) then st else (asleep, stopped @ [(n, l)]))"

definition hardware_lists ::
  "(string, string) dict \<Rightarrow> (string \<Rightarrow> bool option) \<Rightarrow> (string \<Rightarrow> string option) \<Rightarrow> topology \<Rightarrow>
   (string \<times> string) list \<times> (string \<times> string) list" where
  "hardware_lists registry ready active t = fold (hardware_step t ready active) registry ([], [])"

definition rule_hardware_gated_core ::
  "(string, string) dict \<Rightarrow> (string \<Rightarrow> bool option) \<Rightarrow> (string \<Rightarrow> string option) \<Rightarrow> system_view \<Rightarrow> host_result" where
  "rule_hardware_gated_core registry ready active v =
     (let r = ''hardware_gated_core'' in
      case hardware_lists registry ready active (sv_topology v) of (asleep, stopped) \<Rightarrow>
        if stopped \<noteq> [] then result r Warn (NotRunning stopped) (sorted_set (map fst stopped))
        else if asleep \<noteq> [] then result r Pass (Dormant asleep) []
        else result r Pass (Plain ''skipped (no hardware-gated core components enabled)'') [])"

section \<open>Delivered secrets\<close>

text \<open>\<open>sf_exists\<close> is false also where the directory forbids to look; \<open>sf_read\<close> is \<open>None\<close> for a file that the
  caller may not read; \<open>sf_mode\<close> the permission bits, \<open>None\<close> when they cannot be read.\<close>

record secret_files =
  sf_exists :: "string \<Rightarrow> bool"
  sf_read :: "string \<Rightarrow> string option"
  sf_mode :: "string \<Rightarrow> nat option"

definition SECRET_EARTHDATA :: string where "SECRET_EARTHDATA = ''/etc/hf-timestd/earthdata-netrc''"
definition SECRET_FRPC :: string where "SECRET_FRPC = ''/etc/sigmond/frpc.toml''"
definition SECRET_KEY :: string where "SECRET_KEY = ''/etc/hs-uploader/keys/id_ed25519''"

definition earthdata_problem :: "string option \<Rightarrow> string option" where
  "earthdata_problem t = (case t of None \<Rightarrow> None | Some s \<Rightarrow>
     if \<not> contains_text s ''urs.earthdata.nasa.gov'' then Some ''missing machine urs.earthdata.nasa.gov''
     else if contains_text s ''YOUR_'' then Some ''contains placeholder values'' else None)"

text \<open>The search for \<open>token\s*=\s*"([^"]*)"\<close>.\<close>

definition token_at :: "string \<Rightarrow> string option" where
  "token_at s = (if \<not> starts_with s ''token'' then None
     else case dropWhile is_space (drop 5 s) of
         [] \<Rightarrow> None
       | c # r \<Rightarrow> if c \<noteq> CHR ''='' then None
           else (case dropWhile is_space r of
               [] \<Rightarrow> None
             | q # body \<Rightarrow> if q = CHR 0x22 \<and> CHR 0x22 \<in> set body
                 then Some (takeWhile (\<lambda>x. x \<noteq> CHR 0x22) body) else None))"

definition frpc_token :: "string \<Rightarrow> string option" where
  "frpc_token s = first_some (\<lambda>i. token_at (drop i s)) [0..<length s]"

definition frpc_problem :: "string option \<Rightarrow> string option" where
  "frpc_problem t = (case t of None \<Rightarrow> None | Some s \<Rightarrow>
     (case frpc_token s of
        None \<Rightarrow> Some ''token is a placeholder/empty''
      | Some k \<Rightarrow> if k = [] \<or> contains_text k ''FROM_WD_ADMIN'' \<or> starts_with k ''<''
          then Some ''token is a placeholder/empty'' else None))"

definition key_perms_problem :: "nat option \<Rightarrow> string option" where
  "key_perms_problem mode = (case mode of None \<Rightarrow> None | Some m \<Rightarrow> if m = 384 then None else Some ''must be 0600'')"

definition secret_problems :: "secret_files \<Rightarrow> bool \<Rightarrow> (string \<times> string) list" where
  "secret_problems h rac =
     (let note = (\<lambda>path p. case p of None \<Rightarrow> [] | Some why \<Rightarrow> [(path, why)]) in
      (if sf_exists h SECRET_EARTHDATA then note SECRET_EARTHDATA (earthdata_problem (sf_read h SECRET_EARTHDATA)) else [])
      @ (if rac \<and> \<not> sf_exists h SECRET_FRPC then [(SECRET_FRPC, ''rac enabled but the file is missing'')]
         else if sf_exists h SECRET_FRPC then note SECRET_FRPC (frpc_problem (sf_read h SECRET_FRPC)) else [])
      @ (if sf_exists h SECRET_KEY then note SECRET_KEY (key_perms_problem (sf_mode h SECRET_KEY)) else []))"

definition rule_secrets :: "secret_files \<Rightarrow> system_view \<Rightarrow> host_result" where
  "rule_secrets h v =
     (let ps = secret_problems h (is_enabled (sv_topology v) ''sigmond-rac''); r = ''secrets'' in
      if ps \<noteq> [] then result r Warn (SecretProblems ps) (map fst ps)
      else result r Pass (Plain ''delivered secrets present/valid'') [])"

section \<open>Uploads\<close>

definition upload_truthy :: "string option \<Rightarrow> bool" where
  "upload_truthy v = (case v of None \<Rightarrow> False
     | Some s \<Rightarrow> lower (strip s) \<notin> set [[], ''0'', ''false'', ''no'', ''off''])"

record upload_host =
  uh_installed :: "string \<Rightarrow> bool"
  uh_units :: "string \<Rightarrow> string option"
  uh_read :: "string \<Rightarrow> string option"
  uh_marker :: bool
  uh_sinks :: "sink_state option"

definition active_instances :: "upload_host \<Rightarrow> string \<Rightarrow> string list" where
  "active_instances h client = (case uh_units h client of None \<Rightarrow> []
     | Some out \<Rightarrow> List.map_filter (\<lambda>u.
         if starts_with u (client @ ''@'') \<and> ends_with u ''.service''
         then Some (unescape_systemd_instance
           (drop (length client + 1) (take (length u - length ''.service'') u)))
         else None) (listed_units out))"

definition sink_below_upload :: "upload_host \<Rightarrow> string list option" where
  "sink_below_upload h = (if \<not> uh_marker h then None else map_option below_upload (uh_sinks h))"

definition read_env_file :: "string option \<Rightarrow> (string, string) dict" where
  "read_env_file t = (case t of None \<Rightarrow> [] | Some s \<Rightarrow> parse_env_text s)"

definition instance_uploads :: "upload_host \<Rightarrow> string \<Rightarrow> string \<Rightarrow> string \<Rightarrow> bool" where
  "instance_uploads h client flag inst = upload_truthy (map_of (dict_update
     (resolve_instance_env (uh_read h) client inst)
     (read_env_file (uh_read h ''/etc/sigmond/coordination.env''))) flag)"

definition held_quiet :: "upload_host \<Rightarrow> string \<Rightarrow> bool" where
  "held_quiet h client = (case sink_below_upload h of None \<Rightarrow> False | Some below \<Rightarrow> client \<in> set below)"

definition client_not_uploading ::
  "upload_host \<Rightarrow> string \<times> string \<times> string list \<Rightarrow> (string \<times> string \<times> string list) list" where
  "client_not_uploading h entry = (case entry of (client, flag, dest) \<Rightarrow>
     if \<not> uh_installed h client then []
     else map (\<lambda>inst. (client, inst, dest)) (filter (\<lambda>inst.
       \<not> instance_uploads h client flag inst \<and> \<not> held_quiet h client) (active_instances h client)))"

definition not_uploading :: "upload_host \<Rightarrow> (string \<times> string \<times> string list) list" where
  "not_uploading h = concat (map (client_not_uploading h) UPLOAD_ENABLE)"

definition rule_upload_enabled :: "upload_host \<Rightarrow> host_result" where
  "rule_upload_enabled h =
     (let off = not_uploading h; r = ''upload_enabled'' in
      if off = [] then result r Pass (Plain ''active recorder instances have upload enabled (or none installed/active)'') []
      else result r Warn (NotUploading (map (\<lambda>(c, i, d). (c, display_reporter_id i, d)) off)) (sorted_set (map fst off)))"

definition rule_upload_credentials :: "creds_host \<Rightarrow> host_result" where
  "rule_upload_credentials h =
     (let r = ''upload_credentials'' in
      case upload_paths_status h of
        Inl e \<Rightarrow> result r Pass (Plain ''skipped (upload-cred check unavailable)'') []
      | Inr ps \<Rightarrow> (let missing = filter lacks_creds ps in
          if missing = [] then result r Pass (Plain ''all upload paths that need credentials have them'') []
          else result r Warn (MissingCreds (map (\<lambda>p. (ul_path p, ul_missing p, ul_fix p)) missing))
            (sorted_set (map ul_recorder missing))))"

section \<open>The rendered manifest\<close>

definition manifest_name :: "pyval \<Rightarrow> py_error + pyval" where
  "manifest_name p = (case p of PDict d \<Rightarrow> (let n = dget d ''name'' PNone in if hashable n then Inr n else Inl TypeError)
     | _ \<Rightarrow> Inl AttributeError)"

definition manifest_names :: "(string, pyval) dict \<Rightarrow> py_error + pyval list" where
  "manifest_names m = (let ps = dget m ''pipeline'' PNone in
     ebind (iterate (if py_truthy ps then ps else PList [])) (emap manifest_name))"

definition drift_of ::
  "pyval list \<Rightarrow> string list \<Rightarrow> string list \<Rightarrow> string \<times> string \<times> string list \<Rightarrow> (bool \<times> string \<times> string) list" where
  "drift_of names senders enabled entry = (case entry of (producer, pipe, modes) \<Rightarrow>
     (let holds = PStr pipe \<in> set names;
          carries = list_ex (\<lambda>n. py_truthy n \<and> n \<noteq> PStr ''heartbeat'') names in
      if producer \<notin> set enabled then []
      else if producer \<in> set senders \<and> holds then [(True, producer, pipe)]
      else if producer \<notin> set senders \<and> carries \<and> \<not> holds \<and> PStr SHARED_PSK_PIPELINE \<notin> set names
        then [(False, producer, pipe)]
      else []))"

text \<open>The manifest is \<open>None\<close> when it cannot be read or parsed, the senders when asking for them raised.\<close>

definition rule_uploader_inprocess_drift ::
  "(string, pyval) dict option \<Rightarrow> string list option \<Rightarrow> system_view \<Rightarrow> py_error + host_result" where
  "rule_uploader_inprocess_drift manifest senders v =
     (let r = ''uploader-inprocess-drift''; skip = (\<lambda>why. Inr (result r Pass (Plain why) [])) in
      case manifest of None \<Rightarrow> skip ''skipped (manifest not readable)''
      | Some m \<Rightarrow> ebind (manifest_names m) (\<lambda>names. case senders of
            None \<Rightarrow> skip ''skipped''
          | Some ss \<Rightarrow>
              (let ps = concat (map (drift_of names ss (enabled_components (sv_topology v) None)) PSK_PRODUCERS) in
               if ps = [] then skip ''manifest agrees with the in-process pskreporter senders''
               else Inr (result r Warn (Drift ps) (map (fst \<circ> snd) ps)))))"

section \<open>All rules\<close>

record live =
  lv_report :: "affinity_report option"
  lv_gpsdo :: "gpsdo_reports option"
  lv_rmem :: "string option"
  lv_web_unit :: "string option"
  lv_gpsd :: bool
  lv_links :: "link list option"
  lv_wspr_dir :: bool
  lv_wspr_legacy :: bool
  lv_wspr_units :: "string option"
  lv_ready :: "string \<Rightarrow> bool option"
  lv_active :: "string \<Rightarrow> string option"
  lv_secrets :: secret_files
  lv_uploads :: upload_host
  lv_creds :: creds_host
  lv_manifest :: "(string, pyval) dict option"
  lv_senders :: "string list option"

definition ALL_RUNTIME_RULES :: "probes \<Rightarrow> live \<Rightarrow> (system_view \<Rightarrow> py_error + host_result) list" where
  "ALL_RUNTIME_RULES p h = [
     Inr \<circ> rule_cpu_isolation_runtime (lv_report h),
     Inr \<circ> rule_gpsdo_governor_coverage (pb_repr p) (lv_gpsdo h),
     Inr \<circ> rule_kernel_rcvbuf_adequate (lv_rmem h),
     rule_ka9q_web_target (lv_web_unit h),
     (\<lambda>v. Inr (rule_timing_reference (lv_gpsd h) (lv_links h))),
     (\<lambda>v. Inr (rule_wspr_decode_enabled (lv_wspr_dir h) (lv_wspr_legacy h) (lv_wspr_units h) (uh_read (lv_uploads h)))),
     Inr \<circ> rule_hardware_gated_core (hardware_gated_registry (pb_catalog p)) (lv_ready h) (lv_active h),
     Inr \<circ> rule_secrets (lv_secrets h),
     (\<lambda>v. Inr (rule_upload_enabled (lv_uploads h))),
     (\<lambda>v. Inr (rule_upload_credentials (lv_creds h))),
     rule_uploader_inprocess_drift (lv_manifest h) (lv_senders h)]"

definition tagged :: "('m \<Rightarrow> 'n) \<Rightarrow> 'm rule_result \<Rightarrow> 'n rule_result" where
  "tagged f r = result (rr_rule r) (rr_severity r) (f (rr_message r)) (rr_affected r)"

definition run_all :: "probes \<Rightarrow> live option \<Rightarrow> system_view \<Rightarrow> py_error + (rule_message + host_message) rule_result list" where
  "run_all p host v =
     ebind (run_rules (ALL_RULES p) v) (\<lambda>rs.
     ebind (case host of None \<Rightarrow> Inr [] | Some h \<Rightarrow> run_rules (ALL_RUNTIME_RULES p h) v) (\<lambda>hs.
       Inr (map (tagged Inl) rs @ map (tagged Inr) hs)))"

section \<open>Which runtime rules can fail\<close>

definition socket_room :: "string option \<Rightarrow> bool" where
  "socket_room proc = (case Option.bind proc (int_of_string \<circ> strip) of None \<Rightarrow> True
     | Some rmem \<Rightarrow> 16 * 1024 * 1024 \<le> rmem)"

text \<open>What the reports claim, and that no local radiod is claimed twice.\<close>

definition oscillator_claims :: "(pyval \<Rightarrow> string) \<Rightarrow> gpsdo_reports option \<Rightarrow> (string \<times> string) list" where
  "oscillator_claims repr dir = (case dir of None \<Rightarrow> []
     | Some reports \<Rightarrow> concat (map (claims_of repr) (filter (\<lambda>(n, d). n \<noteq> ''index.json'') reports)))"

definition one_governor_at_most :: "(pyval \<Rightarrow> string) \<Rightarrow> gpsdo_reports option \<Rightarrow> coordination \<Rightarrow> bool" where
  "one_governor_at_most repr dir c =
     list_all (\<lambda>rd. length (claimants (oscillator_claims repr dir) (ra_id rd)) \<le> 1) (local_radiods c)"

definition web_on_local_radiod :: "string option \<Rightarrow> coordination \<Rightarrow> bool" where
  "web_on_local_radiod unit c = (case Option.bind unit exec_target of None \<Rightarrow> True
     | Some target \<Rightarrow> (let names = filter py_truthy (map effective_status_dns (local_radiods c)) in
         names = [] \<or> PStr target \<in> set names))"

definition chain_unbroken :: "bool \<Rightarrow> link list option \<Rightarrow> bool" where
  "chain_unbroken gpsd links = (\<not> gpsd \<or> (case links of None \<Rightarrow> True | Some ls \<Rightarrow> list_all (\<lambda>(n, s, d). s \<noteq> ''fail'') ls))"

definition governor_verdict :: "(string \<times> string) list \<Rightarrow> radiod \<Rightarrow> rule_severity" where
  "governor_verdict claims rd =
     (let n = length (claimants claims (ra_id rd)) in if n = 0 then Warn else if n = 1 then Pass else Fail)"

lemma governor_step_severity: "snd (governor_step claims rd st) = max (governor_verdict claims rd) (snd st)"
proof (cases st)
  case (Pair issues sev)
  have "max Warn sev = (if sev = Pass then Warn else sev)" "max Pass sev = sev" "max Fail sev = Fail"
    by (cases sev; simp add: max_def less_eq_rule_severity_def severity_rank_def)+
  then show ?thesis by (simp add: Pair governor_step_def governor_verdict_def Let_def)
qed

lemma governor_fold:
  "snd (fold (governor_step claims) rds st) = fold max (map (governor_verdict claims) rds) (snd st)"
proof (induction rds arbitrary: st)
  case (Cons rd rds)
  show ?case unfolding fold_Cons list.map comp_def Cons.IH governor_step_severity by (rule refl)
qed simp

lemma max_Fail: "max a b = Fail \<longleftrightarrow> a = Fail \<or> b = Fail"
  by (cases a; cases b; simp add: max_def less_eq_rule_severity_def severity_rank_def)

lemma fold_max_Fail: "fold max ss sev = Fail \<longleftrightarrow> sev = Fail \<or> Fail \<in> set ss"
proof (induction ss arbitrary: sev)
  case (Cons s ss)
  show ?case unfolding fold_Cons comp_def Cons.IH max_Fail by auto
qed simp

lemma verdict_Fail: "governor_verdict claims rd = Fail \<longleftrightarrow> \<not> length (claimants claims (ra_id rd)) \<le> 1"
  by (simp add: governor_verdict_def Let_def le_Suc_eq)

lemma gpsdo_Fail:
  "rr_severity (rule_gpsdo_governor_coverage repr dir v) \<noteq> Fail
     \<longleftrightarrow> one_governor_at_most repr dir (sv_coordination v)"
proof (cases dir)
  case None
  then show ?thesis by (simp add: rule_gpsdo_governor_coverage_def one_governor_at_most_def oscillator_claims_def
        claimants_def Let_def list_all_iff)
next
  case (Some reports)
  let ?claims = "oscillator_claims repr dir" and ?rds = "local_radiods (sv_coordination v)"
  obtain issues sev where f: "fold (governor_step ?claims) ?rds ([], Pass) = (issues, sev)" by fastforce
  have sev: "sev = Fail \<longleftrightarrow> \<not> one_governor_at_most repr dir (sv_coordination v)"
    using governor_fold [of ?claims ?rds "([], Pass)"]
    by (auto simp: f fold_max_Fail one_governor_at_most_def list_all_iff verdict_Fail image_iff eq_commute [of Fail])
  show ?thesis
    using sev f Some by (auto simp: rule_gpsdo_governor_coverage_def Let_def oscillator_claims_def
        one_governor_at_most_def claimants_def list_all_iff split: if_splits)
qed

lemma rcvbuf_Fail: "rr_severity (rule_kernel_rcvbuf_adequate proc v) \<noteq> Fail \<longleftrightarrow> socket_room proc"
  by (auto simp: rule_kernel_rcvbuf_adequate_def Let_def socket_room_def RCVBUF_FLOOR_BYTES_def
      KA9Q_PYTHON_SO_RCVBUF_REQUEST_def split: option.split)

lemma emap_as_str: "emap as_str vs = Inr ns \<Longrightarrow> vs = map PStr ns"
  by (induction vs arbitrary: ns) (auto simp: ebind_eq_Inr as_str_def split: pyval.splits)

lemma sorted_set_empty: "sorted_set ns = [] \<longleftrightarrow> ns = []"
  by (metis set_empty set_sorted_set)

lemma web_Fail:
  assumes "rule_ka9q_web_target unit v = Inr r"
  shows "rr_severity r \<noteq> Fail \<longleftrightarrow> web_on_local_radiod unit (sv_coordination v)"
proof (cases "Option.bind unit exec_target")
  case None
  then show ?thesis using assms
    by (cases unit) (auto simp: rule_ka9q_web_target_def web_on_local_radiod_def Let_def)
next
  case (Some target)
  then obtain t where t: "unit = Some t" "exec_target t = Some target" by (cases unit) auto
  obtain ns where ns: "emap as_str (filter py_truthy (map effective_status_dns (local_radiods (sv_coordination v)))) = Inr ns"
    using assms t by (auto simp: rule_ka9q_web_target_def Let_def local_dns_def ebind_eq_Inr)
  then show ?thesis using assms t Some emap_as_str [OF ns]
    by (auto simp: rule_ka9q_web_target_def web_on_local_radiod_def Let_def local_dns_def sorted_set_empty split: if_splits)
qed

lemma no_fails: "filter (\<lambda>(n, s, d). s = ''fail'') ls = [] \<longleftrightarrow> list_all (\<lambda>(n, s, d). s \<noteq> ''fail'') ls"
  by (induction ls) auto

lemma timing_Fail: "rr_severity (rule_timing_reference gpsd links) \<noteq> Fail \<longleftrightarrow> chain_unbroken gpsd links"
  by (cases links) (auto simp: rule_timing_reference_def Let_def chain_unbroken_def no_fails)

lemma runtime_never_Fail:
  "rr_severity (rule_cpu_isolation_runtime report v) \<noteq> Fail"
  "rr_severity (rule_wspr_decode_enabled env_dir legacy out read) \<noteq> Fail"
  "rr_severity (rule_hardware_gated_core registry ready active v) \<noteq> Fail"
  "rr_severity (rule_secrets files v) \<noteq> Fail"
  "rr_severity (rule_upload_enabled uploads) \<noteq> Fail"
  "rr_severity (rule_upload_credentials creds) \<noteq> Fail"
  by (auto simp: rule_cpu_isolation_runtime_def rule_wspr_decode_enabled_def rule_hardware_gated_core_def
      rule_secrets_def rule_upload_enabled_def rule_upload_credentials_def Let_def
      split: option.split sum.split prod.split)

lemma drift_never_Fail: "rule_uploader_inprocess_drift manifest senders v = Inr r \<Longrightarrow> rr_severity r \<noteq> Fail"
  by (auto simp: rule_uploader_inprocess_drift_def Let_def ebind_eq_Inr split: option.splits if_splits)

text \<open>C27. With the rules that read the host, a run fails for those grounds only: an oscillator claim that is not
  unique, too little room for a socket, a web page for a radiod that is not there, or a broken timing
  chain.\<close>

theorem runtime_fails_exact:
  assumes "run_rules (ALL_RUNTIME_RULES p h) v = Inr rs"
  shows "worst_severity rs \<noteq> Fail \<longleftrightarrow> one_governor_at_most (pb_repr p) (lv_gpsdo h) (sv_coordination v)
    \<and> socket_room (lv_rmem h) \<and> web_on_local_radiod (lv_web_unit h) (sv_coordination v)
    \<and> chain_unbroken (lv_gpsd h) (lv_links h)"
proof -
  from assms obtain web drift where
    web: "rule_ka9q_web_target (lv_web_unit h) v = Inr web"
    and drift: "rule_uploader_inprocess_drift (lv_manifest h) (lv_senders h) v = Inr drift"
    and rs: "rs = [rule_cpu_isolation_runtime (lv_report h) v,
      rule_gpsdo_governor_coverage (pb_repr p) (lv_gpsdo h) v, rule_kernel_rcvbuf_adequate (lv_rmem h) v, web,
      rule_timing_reference (lv_gpsd h) (lv_links h),
      rule_wspr_decode_enabled (lv_wspr_dir h) (lv_wspr_legacy h) (lv_wspr_units h) (uh_read (lv_uploads h)),
      rule_hardware_gated_core (hardware_gated_registry (pb_catalog p)) (lv_ready h) (lv_active h) v,
      rule_secrets (lv_secrets h) v, rule_upload_enabled (lv_uploads h), rule_upload_credentials (lv_creds h), drift]"
    by (auto simp: run_rules_def ALL_RUNTIME_RULES_def ebind_eq_Inr)
  show ?thesis
    unfolding worst_not_Fail rs
    using runtime_never_Fail gpsdo_Fail rcvbuf_Fail web_Fail [OF web] timing_Fail drift_never_Fail [OF drift]
    by simp
qed

section \<open>Socket buffers\<close>

lemma strip_newline: "is_word w \<Longrightarrow> strip (w @ [newline]) = w"
proof -
  assume w: "is_word w"
  have s: "is_space newline" by (simp add: is_space_def)
  have "\<not> is_space (hd w)" "w \<noteq> []" using w by (cases w; simp add: is_word_def)+
  then have "lstrip (w @ [newline]) = w @ [newline]" by (cases w) (simp_all add: lstrip_def)
  moreover have "\<not> list_ex is_space (rev w)" using w by (simp add: is_word_def list_ex_iff)
  ultimately show ?thesis using s by (simp add: strip_def rstrip_def dropWhile_plain)
qed

text \<open>C30. For the value as the kernel prints it, the rule fails exactly below 16 MiB, warns exactly below 64 MiB, and
  raising the value never makes the verdict worse.\<close>

theorem rcvbuf_bounds:
  "rr_severity (rule_kernel_rcvbuf_adequate (Some (string_of_int (int n) @ [newline])) v)
     = (if n < 16777216 then Fail else if n < 67108864 then Warn else Pass)
   \<and> rr_severity (rule_kernel_rcvbuf_adequate (Some (string_of_int (int (n + k)) @ [newline])) v)
     \<le> rr_severity (rule_kernel_rcvbuf_adequate (Some (string_of_int (int n) @ [newline])) v)"
proof -
  have sev: "rr_severity (rule_kernel_rcvbuf_adequate (Some (string_of_int (int m) @ [newline])) v)
     = (if m < 16777216 then Fail else if m < 67108864 then Warn else Pass)" for m
    by (simp add: rule_kernel_rcvbuf_adequate_def Let_def strip_newline [OF string_of_nonneg(1)] RCVBUF_FLOOR_BYTES_def
        RCVBUF_RECOMMENDED_BYTES_def KA9Q_PYTHON_SO_RCVBUF_REQUEST_def)
  show ?thesis unfolding sev by simp
qed

section \<open>Dormant components\<close>

lemma hardware_fold:
  "fst (fold (hardware_step t ready active) registry st)
     = fst st @ filter (\<lambda>(n, l). is_enabled t n \<and> ready n = Some False) registry"
proof (induction registry arbitrary: st)
  case (Cons nl registry)
  obtain n l where nl: "nl = (n, l)" by fastforce
  obtain asleep stopped where st: "st = (asleep, stopped)" by fastforce
  have "fst (hardware_step t ready active (n, l) (asleep, stopped))
      = asleep @ (if is_enabled t n \<and> ready n = Some False then [(n, l)] else [])"
    by (cases "ready n"; cases "the (ready n)") (simp_all add: hardware_step_def)
  then show ?case unfolding fold_Cons comp_def Cons.IH nl st by simp
qed simp



section \<open>The manifest and the clients' own senders\<close>

text \<open>The manifest as it stands once the pipelines are written: a list of tables under one key.\<close>

definition manifest_of :: "pipeline list \<Rightarrow> (string, pyval) dict" where
  "manifest_of ps = [(''pipeline'', PList (map PDict ps))]"

lemma manifest_names_of:
  "manifest_names (manifest_of ps) = Inr names \<Longrightarrow> PStr n \<in> set names \<longleftrightarrow> list_ex (named n) ps"
proof -
  assume "manifest_names (manifest_of ps) = Inr names"
  then have "emap manifest_name (map PDict ps) = Inr names"
    by (cases ps) (simp_all add: manifest_names_def manifest_of_def Let_def iterate_def dget_def)
  then show ?thesis
    by (induction ps arbitrary: names)
      (auto simp: ebind_eq_Inr manifest_name_def named_def Let_def split: if_splits)
qed

text \<open>C28. Right after a rendering into a split store, as long as the clients' environments stay as they were, the
  drift rule reports no double post.\<close>

theorem fresh_manifest_no_double_post:
  assumes "client_pipelines e t c = Inr ps" and "re_store e = Some s" and "SPLIT_STORE_VERSION \<le> s"
    and "inprocess_senders (hu_meteor (re_units e)) (hu_units (re_units e)) (hu_envs (re_units e)) t = Inr senders"
    and "rule_uploader_inprocess_drift (Some (manifest_of ps)) (Some senders) v = Inr r"
  shows "(case rr_message r of Drift ds \<Rightarrow> list_all (\<lambda>(double, producer, pipe). \<not> double) ds | _ \<Rightarrow> True)"
proof -
  obtain names where names: "manifest_names (manifest_of ps) = Inr names"
    using assms(5) by (auto simp: rule_uploader_inprocess_drift_def Let_def ebind_eq_Inr)
  have none: "PStr pipe \<notin> set names" if "(producer, pipe, modes) \<in> set PSK_PRODUCERS" "producer \<in> set senders"
    for producer pipe modes
  proof -
    have "map_of PSK_PRODUCERS producer = Some (pipe, modes)" using that(1) by (auto simp: PSK_PRODUCERS_def)
    then show ?thesis
      using no_double_post [OF assms(1-4) that(2)] manifest_names_of [OF names] by blast
  qed
  let ?ds = "concat (map (drift_of names senders (enabled_components (sv_topology v) None)) PSK_PRODUCERS)"
  have "list_all (\<lambda>(double, producer, pipe). \<not> double) ?ds"
    using none by (auto simp: list_all_iff drift_of_def Let_def split: if_splits prod.splits)
  moreover have "rr_message r = Plain ''manifest agrees with the in-process pskreporter senders''
      \<or> rr_message r = Drift ?ds"
    using assms(5) names by (auto simp: rule_uploader_inprocess_drift_def Let_def split: if_splits)
  ultimately show ?thesis by auto
qed

theorem fresh_manifest_no_double_post_witness:
  "(case client_pipelines example_render psk_station empty_coordination of Inl e \<Rightarrow> False
     | Inr ps \<Rightarrow> (case rule_uploader_inprocess_drift (Some (manifest_of ps)) (Some [''psk-recorder'']) quiet_view of
         Inl e \<Rightarrow> False
       | Inr r \<Rightarrow> (case rr_message r of Drift ds \<Rightarrow> list_all (\<lambda>(double, producer, pipe). \<not> double) ds | _ \<Rightarrow> True)))"
proof -
  have facts: "re_store example_render = Some 2" "SPLIT_STORE_VERSION \<le> 2"
    by (simp_all add: example_render_def SPLIT_STORE_VERSION_def)
  have senders: "inprocess_senders (hu_meteor (re_units example_render)) (hu_units (re_units example_render))
      (hu_envs (re_units example_render)) psk_station = Inr [''psk-recorder'']"
    using example_sends by (simp add: example_render_def)
  have "manifest_names (manifest_of []) = Inr []"
    by (simp add: manifest_names_def manifest_of_def iterate_def dget_def)
  then obtain r where run: "rule_uploader_inprocess_drift (Some (manifest_of [])) (Some [''psk-recorder'']) quiet_view = Inr r"
    by (cases "rule_uploader_inprocess_drift (Some (manifest_of [])) (Some [''psk-recorder'']) quiet_view")
      (simp_all add: rule_uploader_inprocess_drift_def Let_def split: if_splits)
  from fresh_manifest_no_double_post [OF example_client_pipelines facts senders run] show ?thesis
    by (simp add: example_client_pipelines run)
qed

section \<open>A host that passes\<close>

definition quiet_files :: secret_files where
  "quiet_files = \<lparr> sf_exists = (\<lambda>_. False), sf_read = (\<lambda>_. None), sf_mode = (\<lambda>_. None) \<rparr>"

definition quiet_uploads :: upload_host where
  "quiet_uploads = \<lparr> uh_installed = (\<lambda>_. False), uh_units = (\<lambda>_. None), uh_read = (\<lambda>_. None), uh_marker = False,
     uh_sinks = None \<rparr>"

definition quiet_creds :: creds_host where
  "quiet_creds = \<lparr> ch_repr = (\<lambda>_. []), ch_toml = (\<lambda>_. []), ch_exists = (\<lambda>_. False), ch_is_dir = (\<lambda>_. False) \<rparr>"

definition quiet_live :: live where
  "quiet_live = \<lparr> lv_report = None, lv_gpsdo = None, lv_rmem = Some ''67108864'', lv_web_unit = None, lv_gpsd = True,
     lv_links = Some [(''gpsd'', ''ok'', ''gpsd active'')], lv_wspr_dir = False, lv_wspr_legacy = False,
     lv_wspr_units = None, lv_ready = (\<lambda>_. None), lv_active = (\<lambda>_. None), lv_secrets = quiet_files,
     lv_uploads = quiet_uploads, lv_creds = quiet_creds, lv_manifest = None, lv_senders = None \<rparr>"

theorem runtime_fails_exact_witness:
  "case run_rules (ALL_RUNTIME_RULES quiet_probes quiet_live) quiet_view of
     Inl e \<Rightarrow> False | Inr rs \<Rightarrow> worst_severity rs \<noteq> Fail"
proof -
  have "list_all (\<lambda>rule. \<exists>r. rule quiet_view = Inr r) (ALL_RUNTIME_RULES quiet_probes quiet_live)"
    by (simp add: ALL_RUNTIME_RULES_def rule_ka9q_web_target_def rule_uploader_inprocess_drift_def quiet_live_def Let_def)
  then obtain rs where run: "run_rules (ALL_RUNTIME_RULES quiet_probes quiet_live) quiet_view = Inr rs"
    using run_rules_returns by blast
  have "int_of_string ''67108864'' = Some 67108864" by code_simp
  moreover have "strip ''67108864'' = ''67108864''" by code_simp
  ultimately have "socket_room (Some ''67108864'')" by (simp add: socket_room_def)
  moreover have "local_radiods (sv_coordination quiet_view) = []" by (simp add: local_radiods_def quiet_facts)
  ultimately have "worst_severity rs \<noteq> Fail"
    using runtime_fails_exact [OF run]
    by (simp add: quiet_live_def one_governor_at_most_def web_on_local_radiod_def chain_unbroken_def)
  then show ?thesis by (simp add: run)
qed

section \<open>Clients that are held stay quiet\<close>

text \<open>The upload rule names an instance exactly when its client is installed, the instance is active, the flag of
  its environment (over the station's) does not enable it, and no sink switch that governs holds the
  client below upload.\<close>

theorem upload_warning_exact:
  "(client, inst, dest) \<in> set (not_uploading h) \<longleftrightarrow>
     (\<exists>flag. (client, flag, dest) \<in> set UPLOAD_ENABLE \<and> uh_installed h client \<and> inst \<in> set (active_instances h client)
        \<and> \<not> instance_uploads h client flag inst)
     \<and> \<not> (uh_marker h \<and> (case uh_sinks h of None \<Rightarrow> False
        | Some s \<Rightarrow> list_ex (\<lambda>(n, c). n = client \<and> sc_effective c \<noteq> ''upload'') (si_clients s)))"
proof -
  have held: "held_quiet h client \<longleftrightarrow> uh_marker h \<and> (case uh_sinks h of None \<Rightarrow> False
      | Some s \<Rightarrow> list_ex (\<lambda>(n, c). n = client \<and> sc_effective c \<noteq> ''upload'') (si_clients s))"
    by (cases "uh_sinks h") (force simp: held_quiet_def sink_below_upload_def below_upload_def list_ex_iff)+
  have entry: "(client, inst, dest) \<in> set (client_not_uploading h (c, f, d)) \<longleftrightarrow> c = client \<and> d = dest
      \<and> uh_installed h client \<and> inst \<in> set (active_instances h client) \<and> \<not> instance_uploads h client f inst
      \<and> \<not> held_quiet h client" for c f d
    by (auto simp: client_not_uploading_def)
  have "(client, inst, dest) \<in> set (not_uploading h) \<longleftrightarrow> (\<exists>(c, f, d) \<in> set UPLOAD_ENABLE. c = client \<and> d = dest
      \<and> uh_installed h client \<and> inst \<in> set (active_instances h client) \<and> \<not> instance_uploads h client f inst
      \<and> \<not> held_quiet h client)"
    unfolding not_uploading_def by (simp add: case_prod_unfold) (metis entry prod.collapse)
  also have "\<dots> \<longleftrightarrow> (\<exists>flag. (client, flag, dest) \<in> set UPLOAD_ENABLE \<and> uh_installed h client
      \<and> inst \<in> set (active_instances h client) \<and> \<not> instance_uploads h client flag inst) \<and> \<not> held_quiet h client"
    by blast
  finally show ?thesis unfolding held .
qed

end
