(* ===== verification/Locks.thy ===== *)
theory Locks
  imports PyText
begin

text \<open>
  The two locks: the install lock (\<open>src/lib/sigmond/install_lock.py\<close>), taken in a directory that only root may
  write, and the lifecycle lock (\<open>lifecycle_lock\<close> of \<open>src/lib/sigmond/lifecycle.py\<close>).  A system call is its
  answer, one argument per call, so the environment may change the file between any two of them; the
  calls that matter are recorded as a trace.  The wait for a busy lock is a partial function: a clock
  that stands still makes it run for ever.
\<close>

unbundle bit_operations_syntax

section \<open>The directory and the file\<close>

datatype node_kind = Symlink | Directory | Regular | OtherNode

record stat_result =
  st_kind :: node_kind
  st_uid :: int
  st_mode :: nat
  st_nlink :: nat

datatype lock_error = DirIsSymlink | NotDirectory | DirOwner int | DirWritable nat | CannotCreate | CannotOpenDir
  | Vanished | FileIsSymlink | NotRegular | CannotOpen | HardLinks nat | FileOwner int | OsError | Interrupted
  | TimedOut | BusyNow | StillBusy int

datatype lock_event = OpenDir | CloseDir | OpenFile | Chmod | Locked | Body | Unlocked | CloseFile

type_synonym 'a traced = "(lock_error + 'a) \<times> lock_event list"

text \<open>One call after another: the first error ends it, the trace keeps what was done.\<close>

definition tbind :: "'a traced \<Rightarrow> ('a \<Rightarrow> 'b traced) \<Rightarrow> 'b traced" where
  "tbind m f = (case m of (Inl e, tr) \<Rightarrow> (Inl e, tr) | (Inr a, tr) \<Rightarrow> (case f a of (r, tr') \<Rightarrow> (r, tr @ tr')))"

definition check_dir :: "int \<Rightarrow> stat_result \<Rightarrow> lock_error + unit" where
  "check_dir uid st =
     (if st_kind st = Symlink then Inl DirIsSymlink
      else if st_kind st \<noteq> Directory then Inl NotDirectory
      else if st_uid st \<noteq> uid then Inl (DirOwner (st_uid st))
      else if st_mode st AND 18 \<noteq> 0 then Inl (DirWritable (st_mode st))
      else Inr ())"

datatype mkdir_answer = Made | DirExists | MkdirFails

text \<open>\<open>None\<close> is an OSError of the call.\<close>

record dir_calls =
  dc_mkdir :: mkdir_answer
  dc_lstat :: "stat_result option"
  dc_open :: bool
  dc_fstat :: "stat_result option"

definition open_dir :: "int \<Rightarrow> dir_calls \<Rightarrow> unit traced" where
  "open_dir uid c =
     (if dc_mkdir c = MkdirFails then (Inl CannotCreate, [])
      else case dc_lstat c of None \<Rightarrow> (Inl CannotOpenDir, [])
      | Some st \<Rightarrow> (case check_dir uid st of Inl e \<Rightarrow> (Inl e, [])
          | Inr _ \<Rightarrow>
              if \<not> dc_open c then (Inl CannotOpenDir, [])
              else (case dc_fstat c of None \<Rightarrow> (Inl OsError, [OpenDir, CloseDir])
                | Some st' \<Rightarrow> (case check_dir uid st' of Inl e \<Rightarrow> (Inl e, [OpenDir, CloseDir])
                    | Inr _ \<Rightarrow> (Inr (), [OpenDir])))))"

datatype open_answer = Opened | NotFound | LoopError | IsDirectory | OpenFails

datatype create_answer = Created | AlreadyThere | CreateFails

definition open_error :: "open_answer \<Rightarrow> lock_error" where
  "open_error a = (case a of LoopError \<Rightarrow> FileIsSymlink | IsDirectory \<Rightarrow> NotRegular | _ \<Rightarrow> CannotOpen)"

text \<open>The three rounds of \<open>_open_at\<close>: open, else create exclusively, else try again.\<close>

fun open_at :: "nat \<Rightarrow> (nat \<Rightarrow> open_answer) \<Rightarrow> (nat \<Rightarrow> create_answer) \<Rightarrow> nat \<Rightarrow> lock_error + unit" where
  "open_at 0 opens creates i = Inl Vanished"
| "open_at (Suc n) opens creates i = (case opens i of
       Opened \<Rightarrow> Inr ()
     | NotFound \<Rightarrow> (case creates i of
           Created \<Rightarrow> Inr ()
         | AlreadyThere \<Rightarrow> open_at n opens creates (Suc i)
         | CreateFails \<Rightarrow> Inl CannotOpen)
     | a \<Rightarrow> Inl (open_error a))"

definition check_file :: "int \<Rightarrow> stat_result \<Rightarrow> lock_error + unit" where
  "check_file uid st =
     (if st_kind st \<noteq> Regular then Inl NotRegular
      else if st_nlink st \<noteq> 1 then Inl (HardLinks (st_nlink st))
      else if st_uid st \<noteq> uid then Inl (FileOwner (st_uid st))
      else Inr ())"

record file_calls =
  fc_open :: "nat \<Rightarrow> open_answer"
  fc_create :: "nat \<Rightarrow> create_answer"
  fc_fstat :: "stat_result option"
  fc_chmod :: bool

definition checked_file :: "int \<Rightarrow> file_calls \<Rightarrow> unit traced" where
  "checked_file uid c = (case fc_fstat c of None \<Rightarrow> (Inl OsError, [CloseFile])
     | Some st \<Rightarrow> (case check_file uid st of Inl e \<Rightarrow> (Inl e, [CloseFile])
         | Inr _ \<Rightarrow> if st_mode st = 384 then (Inr (), [])
             else if fc_chmod c then (Inr (), [Chmod]) else (Inl OsError, [CloseFile])))"

definition open_checked :: "int \<Rightarrow> dir_calls \<Rightarrow> file_calls \<Rightarrow> unit traced" where
  "open_checked uid dc fc =
     tbind (open_dir uid dc) (\<lambda>_. case open_at 3 (fc_open fc) (fc_create fc) 0 of
         Inl e \<Rightarrow> (Inl e, [CloseDir])
       | Inr _ \<Rightarrow> tbind (Inr (), [OpenFile, CloseDir]) (\<lambda>_. checked_file uid fc))"

section \<open>Waiting for a busy lock\<close>

datatype flock_answer = Granted | WouldBlock | FlockFails

text \<open>The answers of the attempts, the clock read after a busy one, and whether the sleep before the next one
  is not interrupted.\<close>

record wait_calls =
  wc_flock :: "nat \<Rightarrow> flock_answer"
  wc_clock :: "nat \<Rightarrow> rat"
  wc_sleep :: "nat \<Rightarrow> bool"

partial_function (option) flock_loop :: "rat \<Rightarrow> wait_calls \<Rightarrow> nat \<Rightarrow> (lock_error + nat) option" where
  "flock_loop deadline w i =
     (if wc_flock w i = Granted then Some (Inr i)
      else if wc_flock w i = FlockFails then Some (Inl OsError)
      else if deadline \<le> wc_clock w i then Some (Inl TimedOut)
      else if \<not> wc_sleep w i then Some (Inl Interrupted)
      else flock_loop deadline w (Suc i))"

definition WAIT_S :: rat where "WAIT_S = 30"

text \<open>\<open>held\<close>: the body runs between the lock and the close, which drops it; whatever the body does, the
  descriptor is closed.\<close>

definition held ::
  "int \<Rightarrow> dir_calls \<Rightarrow> file_calls \<Rightarrow> rat \<Rightarrow> rat \<Rightarrow> wait_calls \<Rightarrow> (nat traced) option" where
  "held uid dc fc start wait w = (case open_checked uid dc fc of
       (Inl e, tr) \<Rightarrow> Some (Inl e, tr)
     | (Inr _, tr) \<Rightarrow> map_option (\<lambda>r. case r of
           Inl e \<Rightarrow> (Inl e, tr @ [CloseFile])
         | Inr i \<Rightarrow> (Inr i, tr @ [Locked, Body, CloseFile])) (flock_loop (start + wait) w 0))"

section \<open>The lifecycle lock\<close>

definition DEFAULT_SYSTEMD_LOCK_WAIT_S :: int where "DEFAULT_SYSTEMD_LOCK_WAIT_S = 900"

text \<open>How long to wait: what the caller says, else nothing unless systemd started the command and no terminal is
  there.\<close>

definition lock_wait :: "int option \<Rightarrow> (string, string) dict \<Rightarrow> bool \<Rightarrow> int" where
  "lock_wait wait_s env tty = (case wait_s of Some n \<Rightarrow> n
     | None \<Rightarrow>
         if map_of env ''INVOCATION_ID'' \<noteq> None \<and> \<not> tty
         then (case map_of env ''SIGMOND_LOCK_WAIT_S'' of
             None \<Rightarrow> DEFAULT_SYSTEMD_LOCK_WAIT_S
           | Some raw \<Rightarrow> (case int_of_string raw of Some n \<Rightarrow> n | None \<Rightarrow> DEFAULT_SYSTEMD_LOCK_WAIT_S))
         else 0)"

partial_function (option) lifecycle_loop :: "int \<Rightarrow> rat \<Rightarrow> wait_calls \<Rightarrow> nat \<Rightarrow> (lock_error + nat) option" where
  "lifecycle_loop wait end_at w i =
     (if wc_flock w i = Granted then Some (Inr i)
      else if wait \<le> 0 \<or> end_at \<le> wc_clock w i then Some (Inl (if i = 0 then BusyNow else StillBusy wait))
      else if \<not> wc_sleep w i then Some (Inl Interrupted)
      else lifecycle_loop wait end_at w (Suc i))"

definition lifecycle_lock ::
  "int option \<Rightarrow> (string, string) dict \<Rightarrow> bool \<Rightarrow> bool \<Rightarrow> bool \<Rightarrow> rat \<Rightarrow> wait_calls \<Rightarrow> (nat traced) option" where
  "lifecycle_lock wait_s env tty mkdir_ok open_ok start w =
     (let wait = lock_wait wait_s env tty in
      if \<not> mkdir_ok \<or> \<not> open_ok then Some (Inl OsError, [])
      else map_option (\<lambda>r. case r of
          Inl e \<Rightarrow> (Inl e, [OpenFile, CloseFile])
        | Inr i \<Rightarrow> (Inr i, [OpenFile, Locked, Body, Unlocked, CloseFile]))
      (lifecycle_loop wait (start + of_int wait) w 0))"

section \<open>Many processes and one lock\<close>

text \<open>What every process still has to do, and who holds the lock.  The kernel grants it while nobody holds it, and
  closing the file drops it; a process may be killed at any time, which closes its files.\<close>

record lock_state =
  ls_rest :: "nat \<Rightarrow> lock_event list"
  ls_owner :: "nat option"

definition drop_lock :: "nat \<Rightarrow> lock_state \<Rightarrow> lock_state" where
  "drop_lock p s = (if ls_owner s = Some p then s \<lparr> ls_owner := None \<rparr> else s)"

definition advance :: "nat \<Rightarrow> lock_event list \<Rightarrow> lock_state \<Rightarrow> lock_state" where
  "advance p es s = s \<lparr> ls_rest := (ls_rest s)(p := es) \<rparr>"

inductive lock_step :: "lock_state \<Rightarrow> lock_state \<Rightarrow> bool" where
  acts: "ls_rest s p = e # es \<Longrightarrow> e \<notin> {Locked, Unlocked, CloseFile} \<Longrightarrow> lock_step s (advance p es s)"
| takes: "ls_rest s p = Locked # es \<Longrightarrow> ls_owner s = None \<Longrightarrow>
    lock_step s (advance p es s \<lparr> ls_owner := Some p \<rparr>)"
| releases: "ls_rest s p = e # es \<Longrightarrow> e \<in> {Unlocked, CloseFile} \<Longrightarrow>
    lock_step s (drop_lock p (advance p es s))"

inductive lock_kill :: "lock_state \<Rightarrow> lock_state \<Rightarrow> bool" where
  killed: "lock_kill s (drop_lock p (advance p [] s))"

definition lock_start :: "(nat \<Rightarrow> lock_event list) \<Rightarrow> lock_state" where
  "lock_start programs = \<lparr> ls_rest = programs, ls_owner = None \<rparr>"

definition inside :: "lock_state \<Rightarrow> nat \<Rightarrow> bool" where
  "inside s p = (case ls_rest s p of e # es \<Rightarrow> e = Body | [] \<Rightarrow> False)"

definition reachable :: "(nat \<Rightarrow> lock_event list) \<Rightarrow> lock_state \<Rightarrow> bool" where
  "reachable programs s = (sup lock_step lock_kill)\<^sup>*\<^sup>* (lock_start programs) s"

inductive_cases lock_stepE: "lock_step s t"
inductive_cases lock_killE: "lock_kill s t"

section \<open>What a program of the lock does\<close>

text \<open>Nothing that touches the lock, and then: no more, a close, or the body between taking and dropping it.\<close>

definition harmless :: "lock_event \<Rightarrow> bool" where
  "harmless e = (e \<notin> {Locked, Body, Unlocked, CloseFile})"

definition guarded :: "lock_event list \<Rightarrow> bool" where
  "guarded tr = (dropWhile harmless tr \<in> {[], [CloseFile], [Locked, Body, CloseFile], [Locked, Body, Unlocked, CloseFile]})"

definition holds_lock :: "lock_event list \<Rightarrow> bool" where
  "holds_lock tr = (tr \<in> {[Body, CloseFile], [Body, Unlocked, CloseFile], [Unlocked, CloseFile], [CloseFile]})"

definition lock_inv :: "lock_state \<Rightarrow> bool" where
  "lock_inv s = (\<forall>p. if ls_owner s = Some p then holds_lock (ls_rest s p) else guarded (ls_rest s p))"

lemma guarded_Nil [simp]: "guarded []"
  by (simp add: guarded_def)

lemma guarded_Cons: "guarded (e # es) \<longleftrightarrow> (if harmless e then guarded es
    else e # es \<in> {[CloseFile], [Locked, Body, CloseFile], [Locked, Body, Unlocked, CloseFile]})"
  by (simp add: guarded_def)

lemma harmless_events [simp]: "harmless OpenDir" "harmless CloseDir" "harmless OpenFile" "harmless Chmod"
  "\<not> harmless Locked" "\<not> harmless Body" "\<not> harmless Unlocked" "\<not> harmless CloseFile"
  by (simp_all add: harmless_def)

lemma advance_simps [simp]:
  "ls_owner (advance p es s) = ls_owner s" "ls_rest (advance p es s) q = (if q = p then es else ls_rest s q)"
  "ls_rest (drop_lock p s) = ls_rest s" "ls_owner (drop_lock p s) = (if ls_owner s = Some p then None else ls_owner s)"
  "ls_rest (s \<lparr> ls_owner := x \<rparr>) = ls_rest s" "ls_owner (s \<lparr> ls_owner := x \<rparr>) = x"
  by (simp_all add: advance_def drop_lock_def)

lemma lock_inv_at: "lock_inv s \<Longrightarrow> if ls_owner s = Some p then holds_lock (ls_rest s p) else guarded (ls_rest s p)"
  by (simp add: lock_inv_def)

lemma lock_inv_step:
  assumes "lock_step s t" and inv: "lock_inv s"
  shows "lock_inv t"
  using assms(1)
proof cases
  case (acts p e es)
  have "if ls_owner s = Some p then holds_lock es else guarded es"
    using lock_inv_at [OF inv, of p] acts by (auto simp: holds_lock_def guarded_Cons split: if_splits)
  then show ?thesis using inv acts by (auto simp: lock_inv_def)
next
  case (takes p es)
  have "holds_lock es" using lock_inv_at [OF inv, of p] takes by (auto simp: holds_lock_def guarded_Cons)
  then show ?thesis using inv takes by (auto simp: lock_inv_def)
next
  case (releases p e es)
  have "guarded es" using lock_inv_at [OF inv, of p] releases by (auto simp: holds_lock_def guarded_Cons split: if_splits)
  then show ?thesis using inv releases by (auto simp: lock_inv_def)
qed

lemma lock_inv_kill:
  assumes "lock_kill s t" and inv: "lock_inv s"
  shows "lock_inv t"
  unfolding lock_inv_def
proof
  fix q
  show "if ls_owner t = Some q then holds_lock (ls_rest t q) else guarded (ls_rest t q)"
    using assms(1) lock_inv_at [OF inv, of q] by (auto elim!: lock_killE split: if_splits)
qed

lemma lock_inv_inside: "lock_inv s \<Longrightarrow> inside s p \<Longrightarrow> ls_owner s = Some p"
  using lock_inv_at [of s p] by (auto simp: inside_def guarded_Cons split: list.splits if_splits)

definition work :: "nat \<Rightarrow> lock_state \<Rightarrow> nat" where
  "work n s = (\<Sum>p < n. length (ls_rest s p))"

lemma work_less:
  assumes "ls_rest s p = e # es" and "p < n" and "ls_rest t = (ls_rest s)(p := es)"
  shows "work n t < work n s"
  unfolding work_def using assms by (intro sum_strict_mono_ex1) auto

lemma step_rest:
  "lock_step s t \<Longrightarrow> \<exists>p e es. ls_rest s p = e # es \<and> ls_rest t = (ls_rest s)(p := es)"
proof (erule lock_stepE)
  fix p e es assume "t = advance p es s" "ls_rest s p = e # es"
  then show ?thesis by (intro exI [of _ p] exI [of _ e] exI [of _ es]) (simp add: advance_def)
next
  fix p es assume "t = advance p es s \<lparr> ls_owner := Some p \<rparr>" "ls_rest s p = Locked # es"
  then show ?thesis by (intro exI [of _ p] exI [of _ Locked] exI [of _ es]) (simp add: advance_def)
next
  fix p e es assume "t = drop_lock p (advance p es s)" "ls_rest s p = e # es"
  then show ?thesis by (intro exI [of _ p] exI [of _ e] exI [of _ es]) (simp add: advance_def drop_lock_def)
qed

section \<open>The contract of a lock\<close>

locale lock_protocol =
  fixes runs :: "lock_event list \<Rightarrow> bool"
  assumes runs_guarded: "runs tr \<Longrightarrow> guarded tr"
begin

lemma reachable_inv:
  assumes "reachable programs s" and "\<And>p. runs (programs p)"
  shows "lock_inv s"
  using assms(1) unfolding reachable_def
proof (induction rule: rtranclp_induct)
  case base
  then show ?case using runs_guarded assms(2) by (simp add: lock_inv_def lock_start_def)
next
  case (step y z)
  then show ?case using lock_inv_step lock_inv_kill by auto
qed

lemma exclusive:
  assumes "reachable programs s" and "\<And>p. runs (programs p)" and "inside s p" and "inside s q"
  shows "p = q"
proof -
  have "lock_inv s" using assms(1,2) by (rule reachable_inv)
  then have "ls_owner s = Some p" "ls_owner s = Some q" using lock_inv_inside assms(3,4) by blast+
  then show ?thesis by simp
qed

lemma never_stuck:
  assumes "reachable programs s" and "\<And>p. runs (programs p)" and "ls_rest s p \<noteq> []"
  shows "\<exists>t. lock_step s t"
proof (cases "ls_owner s")
  case None
  obtain e es where "ls_rest s p = e # es" using assms(3) by (cases "ls_rest s p") auto
  then show ?thesis using None by (cases "e = Locked"; cases "e \<in> {Unlocked, CloseFile}") (auto intro: lock_step.intros)
next
  case (Some q)
  then have "holds_lock (ls_rest s q)" using lock_inv_at [OF reachable_inv [OF assms(1,2)], of q] by simp
  then obtain e es where "ls_rest s q = e # es" "e \<noteq> Locked" by (auto simp: holds_lock_def)
  then show ?thesis by (cases "e \<in> {Unlocked, CloseFile}") (auto intro: lock_step.intros)
qed

end

section \<open>Both locks keep the contract\<close>

definition install_run :: "lock_event list \<Rightarrow> bool" where
  "install_run tr = (tr = [] \<or> (\<exists>uid dc fc start wait w r. held uid dc fc start wait w = Some (r, tr)))"

definition lifecycle_run :: "lock_event list \<Rightarrow> bool" where
  "lifecycle_run tr = (tr = [] \<or> (\<exists>wait_s env tty mk op start w r. lifecycle_lock wait_s env tty mk op start w = Some (r, tr)))"

lemma open_checked_trace:
  "open_checked uid dc fc = (r, tr) \<Longrightarrow>
   (case r of Inl e \<Rightarrow> tr \<in> {[], [OpenDir, CloseDir], [OpenDir, OpenFile, CloseDir, CloseFile]}
    | Inr _ \<Rightarrow> tr \<in> {[OpenDir, OpenFile, CloseDir], [OpenDir, OpenFile, CloseDir, Chmod]})"
  by (auto simp: open_checked_def tbind_def open_dir_def checked_file_def
      split: if_splits option.splits sum.splits prod.splits)

lemma held_trace:
  "held uid dc fc start wait w = Some (r, tr) \<Longrightarrow>
   (case r of Inl e \<Rightarrow> tr \<in> {[], [OpenDir, CloseDir], [OpenDir, OpenFile, CloseDir, CloseFile],
       [OpenDir, OpenFile, CloseDir, Chmod, CloseFile]}
    | Inr _ \<Rightarrow> tr \<in> {[OpenDir, OpenFile, CloseDir, Locked, Body, CloseFile],
       [OpenDir, OpenFile, CloseDir, Chmod, Locked, Body, CloseFile]})"
proof -
  assume h: "held uid dc fc start wait w = Some (r, tr)"
  obtain r' tr' where o: "open_checked uid dc fc = (r', tr')" by fastforce
  show ?thesis
  proof (cases r')
    case (Inl e)
    then show ?thesis using h o open_checked_trace [OF o] by (auto simp: held_def)
  next
    case (Inr u)
    then obtain x where x: "flock_loop (start + wait) w 0 = Some x" using h o by (auto simp: held_def)
    show ?thesis using h o x Inr open_checked_trace [OF o] by (cases x) (auto simp: held_def)
  qed
qed

interpretation install: lock_protocol install_run
proof
  fix tr assume "install_run tr"
  then show "guarded tr" unfolding install_run_def
    by (auto dest!: held_trace simp: guarded_Cons split: sum.splits)
qed

lemma lifecycle_trace:
  assumes "lifecycle_lock wait_s env tty mk op start w = Some (r, tr)"
  shows "case r of Inl e \<Rightarrow> tr \<in> {[], [OpenFile, CloseFile]} | Inr _ \<Rightarrow> tr = [OpenFile, Locked, Body, Unlocked, CloseFile]"
proof (cases "mk \<and> op")
  case True
  let ?n = "lock_wait wait_s env tty"
  obtain x where x: "lifecycle_loop ?n (start + of_int ?n) w 0 = Some x"
    using assms True by (auto simp: lifecycle_lock_def Let_def)
  show ?thesis using assms True x by (cases x) (auto simp: lifecycle_lock_def Let_def)
next
  case False
  then show ?thesis using assms by (auto simp: lifecycle_lock_def Let_def)
qed

interpretation lifecycle: lock_protocol lifecycle_run
proof
  fix tr assume "lifecycle_run tr"
  then show "guarded tr" unfolding lifecycle_run_def
    by (auto dest!: lifecycle_trace simp: guarded_Cons split: sum.splits)
qed

section \<open>What the locks promise\<close>

lemma check_dir_ok: "check_dir uid st = Inr u \<longleftrightarrow> st_kind st = Directory \<and> st_uid st = uid \<and> st_mode st AND 18 = 0"
  by (auto simp: check_dir_def)

lemma check_file_ok: "check_file uid st = Inr u \<longleftrightarrow> st_kind st = Regular \<and> st_nlink st = 1 \<and> st_uid st = uid"
  by (auto simp: check_file_def)

definition safe_dir :: "int \<Rightarrow> stat_result option \<Rightarrow> bool" where
  "safe_dir uid a = (case a of None \<Rightarrow> False
     | Some st \<Rightarrow> st_kind st = Directory \<and> st_uid st = uid \<and> st_mode st AND 18 = 0)"

definition safe_file :: "int \<Rightarrow> stat_result option \<Rightarrow> bool \<Rightarrow> bool" where
  "safe_file uid a chmod = (case a of None \<Rightarrow> False
     | Some st \<Rightarrow> st_kind st = Regular \<and> st_nlink st = 1 \<and> st_uid st = uid \<and> (st_mode st = 384 \<or> chmod))"

lemma open_dir_ok: "open_dir uid dc = (Inr u, tr) \<Longrightarrow> safe_dir uid (dc_lstat dc) \<and> safe_dir uid (dc_fstat dc) \<and> Chmod \<notin> set tr"
  by (auto simp: open_dir_def safe_dir_def check_dir_ok split: if_splits option.splits sum.splits)

lemma checked_file_ok: "checked_file uid fc = (Inr u, tr) \<Longrightarrow> safe_file uid (fc_fstat fc) (Chmod \<in> set tr)"
  by (auto simp: checked_file_def safe_file_def check_file_ok split: if_splits option.splits sum.splits)

lemma open_checked_ok:
  "open_checked uid dc fc = (Inr u, tr) \<Longrightarrow>
   safe_dir uid (dc_lstat dc) \<and> safe_dir uid (dc_fstat dc) \<and> safe_file uid (fc_fstat fc) (Chmod \<in> set tr)"
  by (auto simp: open_checked_def tbind_def dest!: open_dir_ok checked_file_ok split: sum.splits prod.splits)

text \<open>C31. Whatever the file system and the other holders do, every descriptor the install lock opens is closed, and
  the body runs only under the lock, after the directory was found safe twice (by its path and on the open
  descriptor) and the file is the caller's own plain file, with one name and no access for others.\<close>

theorem install_lock_checked:
  assumes "held uid dc fc start wait w = Some (r, tr)"
  shows "length (filter ((=) OpenFile) tr) = length (filter ((=) CloseFile) tr)
    \<and> length (filter ((=) OpenDir) tr) = length (filter ((=) CloseDir) tr)
    \<and> (if Body \<in> set tr
       then safe_dir uid (dc_lstat dc) \<and> safe_dir uid (dc_fstat dc) \<and> safe_file uid (fc_fstat fc) (Chmod \<in> set tr)
         \<and> drop (length tr - 3) tr = [Locked, Body, CloseFile]
       else Locked \<notin> set tr \<and> isl r)"
proof (cases r)
  case (Inl e)
  then show ?thesis using held_trace [OF assms] by auto
next
  case (Inr i)
  obtain r' tr' where o: "open_checked uid dc fc = (r', tr')" by fastforce
  then obtain u where r': "r' = Inr u" using assms Inr by (cases r') (auto simp: held_def)
  then obtain x where "flock_loop (start + wait) w 0 = Some x" using assms o by (auto simp: held_def)
  then have tr: "tr = tr' @ [Locked, Body, CloseFile]" using assms Inr o r' by (cases x) (auto simp: held_def)
  show ?thesis using held_trace [OF assms] open_checked_ok [OF o [unfolded r']] Inr tr by auto
qed

lemma flock_loop_ends: "deadline \<le> wc_clock w (i + k) \<Longrightarrow> \<exists>r. flock_loop deadline w i = Some r"
proof (induction k arbitrary: i)
  case 0
  then show ?case by (subst flock_loop.simps) simp
next
  case (Suc k)
  then have "\<exists>r. flock_loop deadline w (Suc i) = Some r" by simp
  then show ?case by (subst flock_loop.simps) auto
qed

lemma lifecycle_loop_ends: "end_at \<le> wc_clock w (i + k) \<Longrightarrow> \<exists>r. lifecycle_loop wait end_at w i = Some r"
proof (induction k arbitrary: i)
  case 0
  then show ?case by (subst lifecycle_loop.simps) simp
next
  case (Suc k)
  then have "\<exists>r. lifecycle_loop wait end_at w (Suc i) = Some r" by simp
  then show ?case by (subst lifecycle_loop.simps) auto
qed

text \<open>C34. On a clock that every sleep advances by at least some fixed amount, both waits end, whoever holds the lock
  and for however long.\<close>

theorem lock_waits_end:
  assumes "0 < poll" and "\<And>i. start + of_nat i * poll \<le> wc_clock w i"
  shows "held uid dc fc start wait w \<noteq> None \<and> lifecycle_lock wait_s env tty mk op start w \<noteq> None"
proof -
  have reach: "\<exists>k. start + d \<le> wc_clock w (0 + k)" for d
  proof -
    obtain k where "d / poll \<le> of_nat k" using real_arch_simple by blast
    then have "d \<le> of_nat k * poll" using assms(1) by (simp add: pos_divide_le_eq)
    then show ?thesis using assms(2) [of k] by (auto intro: exI [of _ k])
  qed
  let ?n = "lock_wait wait_s env tty"
  obtain r where r: "flock_loop (start + wait) w 0 = Some r" using reach [of wait] flock_loop_ends by blast
  obtain r' where r': "lifecycle_loop ?n (start + of_int ?n) w 0 = Some r'"
    using reach [of "of_int ?n"] lifecycle_loop_ends by blast
  show ?thesis by (auto simp: held_def lifecycle_lock_def Let_def r r' split: sum.split prod.split)
qed

definition one_second_clock :: wait_calls where
  "one_second_clock = \<lparr> wc_flock = (\<lambda>_. WouldBlock), wc_clock = of_nat, wc_sleep = (\<lambda>_. True) \<rparr>"

theorem lock_waits_end_witness:
  "held 0 \<lparr> dc_mkdir = Made, dc_lstat = None, dc_open = True, dc_fstat = None \<rparr>
     \<lparr> fc_open = (\<lambda>_. Opened), fc_create = (\<lambda>_. Created), fc_fstat = None, fc_chmod = True \<rparr> 0 30 one_second_clock \<noteq> None
   \<and> lifecycle_lock (Some 900) [] False True True 0 one_second_clock \<noteq> None"
  by (rule lock_waits_end [where poll = 1]) (simp_all add: one_second_clock_def)

text \<open>C32. However many processes take one of the locks, in whatever interleaving and with any of them killed at any
  point, two are never inside at once.\<close>

theorem lock_exclusive:
  assumes "reachable programs s"
    and "(\<forall>p. install_run (programs p)) \<or> (\<forall>p. lifecycle_run (programs p))"
  shows "\<not> (inside s p \<and> inside s q \<and> p \<noteq> q)"
  using assms(2) install.exclusive [OF assms(1), of p q] lifecycle.exclusive [OF assms(1), of p q] by blast

lemma lifecycle_taken: "lifecycle_run [OpenFile, Locked, Body, Unlocked, CloseFile]"
proof -
  let ?w = "\<lparr> wc_flock = (\<lambda>_. Granted), wc_clock = (\<lambda>_. 0), wc_sleep = (\<lambda>_. True) \<rparr>"
  have "lifecycle_loop 0 0 ?w 0 = Some (Inr 0)" by (subst lifecycle_loop.simps) simp
  then have "lifecycle_lock (Some 0) [] True True True 0 ?w
      = Some (Inr 0, [OpenFile, Locked, Body, Unlocked, CloseFile])"
    by (simp add: lifecycle_lock_def lock_wait_def)
  then show ?thesis unfolding lifecycle_run_def by blast
qed

definition two_verbs :: "nat \<Rightarrow> lock_event list" where
  "two_verbs p = (if p < 2 then [OpenFile, Locked, Body, Unlocked, CloseFile] else [])"

lemma two_verbs_run: "lifecycle_run (two_verbs p)"
  using lifecycle_taken by (simp add: two_verbs_def) (simp add: lifecycle_run_def)

definition first_inside :: lock_state where
  "first_inside = advance 0 [Body, Unlocked, CloseFile] (advance 0 [Locked, Body, Unlocked, CloseFile] (lock_start two_verbs))
     \<lparr> ls_owner := Some 0 \<rparr>"

lemma first_inside_reachable: "reachable two_verbs first_inside"
proof -
  have "lock_step (lock_start two_verbs) (advance 0 [Locked, Body, Unlocked, CloseFile] (lock_start two_verbs))"
    by (rule lock_step.acts [where e = OpenFile]) (simp_all add: lock_start_def two_verbs_def)
  moreover have "lock_step (advance 0 [Locked, Body, Unlocked, CloseFile] (lock_start two_verbs)) first_inside"
    unfolding first_inside_def by (rule lock_step.takes) (simp_all add: lock_start_def)
  ultimately show ?thesis unfolding reachable_def by (meson r_into_rtranclp rtranclp.rtrancl_into_rtrancl sup2I1)
qed

theorem lock_exclusive_witness: "inside first_inside 0 \<and> \<not> (inside first_inside 0 \<and> inside first_inside 1 \<and> (0 :: nat) \<noteq> 1)"
proof
  show "inside first_inside 0" by (simp add: inside_def first_inside_def)
  show "\<not> (inside first_inside 0 \<and> inside first_inside 1 \<and> (0 :: nat) \<noteq> 1)"
    using lock_exclusive [OF first_inside_reachable, of 0 1] two_verbs_run by blast
qed

lemma work_step: "lock_step s t \<Longrightarrow> (\<And>p. n \<le> p \<Longrightarrow> ls_rest s p = []) \<Longrightarrow> work n t < work n s"
proof -
  assume step: "lock_step s t" and bound: "\<And>p. n \<le> p \<Longrightarrow> ls_rest s p = []"
  obtain p e es where p: "ls_rest s p = e # es" "ls_rest t = (ls_rest s)(p := es)" using step_rest [OF step] by blast
  have "p < n" using bound [of p] p(1) by (cases "p < n") auto
  then show ?thesis using work_less p by blast
qed

lemma rest_stays_empty: "reachable programs s \<Longrightarrow> programs p = [] \<Longrightarrow> ls_rest s p = []"
  unfolding reachable_def
proof (induction rule: rtranclp_induct)
  case base
  then show ?case by (simp add: lock_start_def)
next
  case (step y z)
  then have y: "ls_rest y p = []" by simp
  from step.hyps(2) have "lock_step y z \<or> lock_kill y z" by auto
  then show ?case
  proof
    assume "lock_step y z"
    then show ?thesis using step_rest [of y z] y by (auto simp: fun_upd_def)
  next
    assume "lock_kill y z"
    then show ?thesis using y by (auto elim!: lock_killE)
  qed
qed

text \<open>C33. Nobody waits for ever on a process that is gone: as long as one of finitely many processes has something
  left to do, one of them can do it, and every step brings the work of all to its end.\<close>

theorem lock_always_freed:
  assumes "reachable programs s"
    and "(\<forall>p. install_run (programs p)) \<or> (\<forall>p. lifecycle_run (programs p))"
    and "\<forall>p \<ge> n. programs p = []"
  shows "((\<exists>t. lock_step s t) \<longleftrightarrow> 0 < work n s) \<and> (lock_step s t \<longrightarrow> work n t < work n s)"
proof -
  have bound: "ls_rest s p = []" if "n \<le> p" for p using rest_stays_empty [OF assms(1)] assms(3) that by blast
  have "\<exists>t. lock_step s t" if "0 < work n s"
  proof -
    have "\<exists>p. ls_rest s p \<noteq> []" by (rule ccontr) (use that in \<open>simp add: work_def\<close>)
    then obtain p where "ls_rest s p \<noteq> []" by blast
    then show ?thesis
      using assms(2) install.never_stuck [OF assms(1), of p] lifecycle.never_stuck [OF assms(1), of p] by blast
  qed
  moreover have "work n t < work n s" if "lock_step s t" for t using work_step [OF that bound] by blast
  ultimately show ?thesis by fastforce
qed

theorem lock_always_freed_witness: "(\<exists>t. lock_step first_inside t) \<longleftrightarrow> 0 < work 2 first_inside"
  using lock_always_freed [OF first_inside_reachable, of 2] two_verbs_run by (auto simp: two_verbs_def)

definition root_dir :: dir_calls where
  "root_dir = (let st = \<lparr> st_kind = Directory, st_uid = 0, st_mode = 448, st_nlink = 2 \<rparr> in
     \<lparr> dc_mkdir = DirExists, dc_lstat = Some st, dc_open = True, dc_fstat = Some st \<rparr>)"

definition plain_file :: file_calls where
  "plain_file = \<lparr> fc_open = (\<lambda>_. Opened), fc_create = (\<lambda>_. Created),
     fc_fstat = Some \<lparr> st_kind = Regular, st_uid = 0, st_mode = 420, st_nlink = 1 \<rparr>, fc_chmod = True \<rparr>"

definition free_lock :: wait_calls where
  "free_lock = \<lparr> wc_flock = (\<lambda>_. Granted), wc_clock = (\<lambda>_. 0), wc_sleep = (\<lambda>_. True) \<rparr>"

theorem install_lock_checked_witness:
  "(case held 0 root_dir plain_file 0 WAIT_S free_lock of None \<Rightarrow> False
    | Some (r, tr) \<Rightarrow> Body \<in> set tr \<and> Chmod \<in> set tr \<and> safe_dir 0 (dc_lstat root_dir)
        \<and> drop (length tr - 3) tr = [Locked, Body, CloseFile])"
proof -
  have bits: "448 AND 18 = (0 :: nat)" by simp
  have "flock_loop (0 + WAIT_S) free_lock 0 = Some (Inr 0)"
    by (subst flock_loop.simps) (simp add: free_lock_def)
  moreover have "open_at 3 (fc_open plain_file) (fc_create plain_file) 0 = Inr ()"
    by (simp add: plain_file_def numeral_3_eq_3)
  ultimately have run: "held 0 root_dir plain_file 0 WAIT_S free_lock
      = Some (Inr 0, [OpenDir, OpenFile, CloseDir, Chmod, Locked, Body, CloseFile])"
    using bits by (simp add: held_def open_checked_def open_dir_def check_dir_def tbind_def checked_file_def
        check_file_def root_dir_def plain_file_def Let_def)
  from install_lock_checked [OF this] show ?thesis by (simp add: run)
qed

end
