(* ===== verification/Lifecycle.thy ===== *)
theory Lifecycle
  imports Harmonize UploadState
begin

text \<open>
  Which units a component has and in which order they start (\<open>src/lib/sigmond/lifecycle.py\<close>; the lock of that
  file is in \<open>Locks\<close>).  The listings of directories, the rows and lines of \<open>systemctl\<close> and the parsed
  deployment files are arguments.  Where the code joins two sets into a list, the order is that of the
  first appearance.
\<close>

section \<open>Units of a component\<close>

record unit_reference =
  ur_component :: string
  ur_unit :: string
  ur_template :: "string option"
  ur_instance :: "string option"
  ur_kind :: string
  ur_source :: string
  ur_orphaned :: bool

text \<open>A listing has the name of an entry, whether it is a file and whether it is a link; \<open>None\<close> is a directory
  that is not there or may not be read.\<close>

datatype deploy_file = NoDeploy | BadDeploy | Deploy string "(string, pyval) dict"

record life_host =
  lh_dir :: "string \<Rightarrow> (string \<times> bool \<times> bool) list option"
  lh_rows :: "string \<Rightarrow> pyval option"
  lh_unit_files :: "string \<Rightarrow> string"
  lh_enabled :: "string \<Rightarrow> bool"
  lh_deploy :: "string \<Rightarrow> deploy_file"
  lh_shim :: "string \<Rightarrow> deploy_file"

definition unit_kind :: "string \<Rightarrow> string" where
  "unit_kind n = (if contains_text n ''.service'' then ''service''
     else if contains_text n ''.timer'' then ''timer''
     else if contains_text n ''.target'' then ''target'' else ''unknown'')"

definition concrete_unit :: "string \<Rightarrow> string \<Rightarrow> string \<Rightarrow> unit_reference" where
  "concrete_unit client source u = \<lparr> ur_component = client, ur_unit = u, ur_template = None, ur_instance = None,
     ur_kind = unit_kind u, ur_source = source, ur_orphaned = False \<rparr>"

definition resolve_optional_units :: "life_host \<Rightarrow> string \<Rightarrow> string list \<Rightarrow> string \<Rightarrow> unit_reference list" where
  "resolve_optional_units h client units source = map (concrete_unit client source) (filter (lh_enabled h) units)"

text \<open>\<open>Path.stem\<close>, and \<open>s.rsplit('.', 1)[0]\<close>.\<close>

definition before_dot :: "string \<Rightarrow> string" where
  "before_dot s = (if CHR ''.'' \<notin> set s then s
     else take (length s - Suc (length (takeWhile (\<lambda>c. c \<noteq> CHR ''.'') (rev s)))) s)"

definition path_stem :: "string \<Rightarrow> string" where
  "path_stem n = (if before_dot n = [] \<or> last n = CHR ''.'' then n else before_dot n)"

definition entries_of :: "life_host \<Rightarrow> string \<Rightarrow> (string \<times> bool \<times> bool) list" where
  "entries_of h d = (case lh_dir h d of None \<Rightarrow> [] | Some es \<Rightarrow> es)"

definition env_names :: "life_host \<Rightarrow> string \<Rightarrow> string list" where
  "env_names h d = map (\<lambda>(n, f, l). unescape_systemd_instance (path_stem n))
     (filter (\<lambda>(n, f, l). ends_with n ''.env'') (entries_of h d))"

definition conf_names :: "life_host \<Rightarrow> string \<Rightarrow> string \<Rightarrow> string list" where
  "conf_names h d base = filter (\<lambda>i. i \<noteq> [])
     (map (\<lambda>(n, f, l). unescape_systemd_instance (drop (length base + 1) (path_stem n)))
       (filter (\<lambda>(n, f, l). starts_with n (base @ ''@'') \<and> ends_with n ''.conf''
          \<and> length base + 1 + length ''.conf'' \<le> length n \<and> f \<and> \<not> l) (entries_of h d)))"

text \<open>A file of the component's own directory that configures one instance, and no shared configuration.\<close>

definition instance_file :: "string \<Rightarrow> string \<Rightarrow> bool" where
  "instance_file client n = (ends_with n ''.toml'' \<and> n \<noteq> ''config.toml'' \<and> n \<noteq> client @ ''-config.toml''
     \<and> path_stem n \<noteq> [] \<and> path_stem n \<noteq> ''config'' \<and> \<not> ends_with (path_stem n) ''-config'')"

definition toml_names :: "life_host \<Rightarrow> string \<Rightarrow> string list" where
  "toml_names h client = map (\<lambda>(n, f, l). unescape_systemd_instance (path_stem n))
     (filter (\<lambda>(n, f, l). f \<and> instance_file client n) (entries_of h (''/etc/'' @ client)))"

definition configured_instances :: "life_host \<Rightarrow> string \<Rightarrow> string \<Rightarrow> string \<Rightarrow> string \<Rightarrow> string list" where
  "configured_instances h client template conf_dir env_dir =
     env_names h (''/etc/'' @ client @ ''/env'') @ (if env_dir = [] then [] else env_names h env_dir)
     @ (if conf_dir = [] then [] else conf_names h conf_dir (hd (split_on (CHR ''@'') template)))
     @ toml_names h client"

definition unit_of_instance :: "string \<Rightarrow> string \<Rightarrow> string option" where
  "unit_of_instance kind n = (if CHR ''@'' \<in> set n \<and> ends_with n (''.'' @ kind)
     then Some (unescape_systemd_instance (before_dot (split_on (CHR ''@'') n ! 1))) else None)"

text \<open>A row names its unit under \<open>unit\<close>, else under \<open>name\<close>.\<close>

definition row_instance :: "string \<Rightarrow> pyval \<Rightarrow> py_error + string option" where
  "row_instance kind row = (case row of
       PDict d \<Rightarrow> (let u = dget d ''unit'' PNone in
         ebind (as_str (if py_truthy u then u else dget d ''name'' (PStr []))) (\<lambda>n. Inr (unit_of_instance kind n)))
     | _ \<Rightarrow> Inl AttributeError)"

definition loaded_instances :: "life_host \<Rightarrow> string \<Rightarrow> string \<Rightarrow> py_error + string list" where
  "loaded_instances h pattern kind = (case lh_rows h pattern of None \<Rightarrow> Inr []
     | Some rows \<Rightarrow> ebind (iterate rows) (\<lambda>rs. ebind (emap (row_instance kind) rs) (\<lambda>is. Inr (List.map_filter id is))))"

definition enabled_instance :: "string \<Rightarrow> string \<Rightarrow> string option" where
  "enabled_instance kind line = (case split_ws line of
       n # state # _ \<Rightarrow> if state = ''enabled'' then
           (case unit_of_instance kind n of Some i \<Rightarrow> if i = [] then None else Some i | None \<Rightarrow> None) else None
     | _ \<Rightarrow> None)"

definition enabled_instances :: "life_host \<Rightarrow> string \<Rightarrow> string \<Rightarrow> string list" where
  "enabled_instances h pattern kind = List.map_filter (enabled_instance kind) (splitlines (lh_unit_files h pattern))"

definition instance_ref :: "string \<Rightarrow> string \<Rightarrow> string \<Rightarrow> string \<Rightarrow> string list \<Rightarrow> string \<Rightarrow> unit_reference" where
  "instance_ref client template source kind configured i =
     \<lparr> ur_component = client, ur_unit = replace_all ''@.'' (''@'' @ systemd_escape i @ ''.'') template,
       ur_template = Some template, ur_instance = Some i, ur_kind = kind, ur_source = source,
       ur_orphaned = (configured \<noteq> [] \<and> i \<notin> set configured) \<rparr>"

definition expand_template ::
  "life_host \<Rightarrow> string \<Rightarrow> string \<Rightarrow> string \<Rightarrow> string \<Rightarrow> string \<Rightarrow> string \<Rightarrow> py_error + unit_reference list" where
  "expand_template h client template source kind conf_dir env_dir =
     (let configured = configured_instances h client template conf_dir env_dir;
          pattern = replace_all ''@.'' ''@*.'' template in
      ebind (loaded_instances h pattern kind) (\<lambda>loaded.
        Inr (map (instance_ref client template source kind configured)
          (sorted_set (configured @ loaded @ enabled_instances h pattern kind)))))"

text \<open>The lists and directories of the \<open>[systemd]\<close> table.\<close>

definition unit_names_at :: "(string, pyval) dict \<Rightarrow> string \<Rightarrow> py_error + string list" where
  "unit_names_at d k = ebind (iterate (dget d k (PList []))) (emap as_str)"

definition dir_at :: "(string, pyval) dict \<Rightarrow> string \<Rightarrow> py_error + string" where
  "dir_at d k = (let v = dget d k (PStr []) in if py_truthy v then as_str v else Inr [])"

definition units_of_config ::
  "life_host \<Rightarrow> string \<Rightarrow> string \<Rightarrow> bool \<Rightarrow> (string, pyval) dict \<Rightarrow> py_error + unit_reference list" where
  "units_of_config h client source move cfg = (case dget cfg ''systemd'' (PDict []) of
       PDict d \<Rightarrow>
         ebind (unit_names_at d ''units'') (\<lambda>us.
         ebind (unit_names_at d ''templated_units'') (\<lambda>ts.
         ebind (dir_at d ''conf_dir'') (\<lambda>conf_dir. ebind (dir_at d ''env_dir'') (\<lambda>env_dir.
         ebind (unit_names_at d ''optional_units'') (\<lambda>opts.
           let old = filter (\<lambda>u. CHR ''@'' \<in> set u) us;
               moved = move \<and> old \<noteq> [];
               ts = (if moved then remdups (ts @ old) else ts);
               us = (if moved then filter (\<lambda>u. CHR ''@'' \<notin> set u) us else us) in
           ebind (emap (\<lambda>t. expand_template h client t source (unit_kind t) conf_dir env_dir) ts) (\<lambda>expanded.
             Inr (map (concrete_unit client source) us @ concat expanded
               @ resolve_optional_units h client opts source)))))))
     | _ \<Rightarrow> Inl AttributeError)"

definition has_fallback_shim :: "life_host \<Rightarrow> string \<Rightarrow> bool" where
  "has_fallback_shim h client = (lh_shim h client \<noteq> NoDeploy)"

definition load_fallback_shim :: "life_host \<Rightarrow> string \<Rightarrow> py_error + unit_reference list" where
  "load_fallback_shim h client = (case lh_shim h client of
       Deploy path cfg \<Rightarrow> units_of_config h client (''fallback:'' @ path) False cfg
     | _ \<Rightarrow> Inr [])"

definition resolve_component_units :: "life_host \<Rightarrow> string \<Rightarrow> py_error + unit_reference list" where
  "resolve_component_units h client = (case lh_deploy h client of
       Deploy path cfg \<Rightarrow> units_of_config h client (''deploy.toml:'' @ path) True cfg
     | _ \<Rightarrow> load_fallback_shim h client)"

definition resolve_units :: "life_host \<Rightarrow> string list \<Rightarrow> string list \<Rightarrow> py_error + unit_reference list" where
  "resolve_units h comps enabled =
     ebind (emap (\<lambda>c. if c \<notin> set enabled \<and> \<not> has_fallback_shim h c
         then Inl (ValueError (''component '' @ c @ '' not found''))
         else resolve_component_units h c) comps) (\<lambda>us. Inr (concat us))"

section \<open>The order of starting\<close>

definition BASELINE_PRIORITIES :: "(string, int) dict" where
  "BASELINE_PRIORITIES = [(''radiod'', 0), (''ka9q-radio'', 0)]"

definition DEFAULT_PRIORITY :: int where "DEFAULT_PRIORITY = 100"

definition entry_priority :: "string \<times> catalog_entry \<Rightarrow> (string, int) dict \<Rightarrow> (string, int) dict" where
  "entry_priority ke out = (case ke of (k, e) \<Rightarrow> (case ce_start_priority e of
       None \<Rightarrow> out
     | Some n \<Rightarrow> (let out = AList.update (ce_name e) n out in
         case ce_alias e of Some a \<Rightarrow> if a = [] then out else AList.update a n out | None \<Rightarrow> out)))"

definition component_priorities :: "catalog option \<Rightarrow> (string, int) dict" where
  "component_priorities ents = (case ents of None \<Rightarrow> BASELINE_PRIORITIES
     | Some es \<Rightarrow> fold entry_priority es BASELINE_PRIORITIES)"

definition bucket_step :: "unit_reference \<Rightarrow> (string, unit_reference list) dict \<Rightarrow> (string, unit_reference list) dict" where
  "bucket_step u b = AList.update (ur_component u) (dget b (ur_component u) [] @ [u]) b"

fun first_index :: "nat \<Rightarrow> client_instance list \<Rightarrow> (string, nat) dict \<Rightarrow> (string, nat) dict" where
  "first_index i [] out = out"
| "first_index i (c # cs) out = first_index (Suc i) cs
     (if map_of out (ci_type c) = None then AList.update (ci_type c) i out else out)"

definition sort_key_of :: "(string, int) dict \<Rightarrow> (string, nat) dict \<Rightarrow> string \<Rightarrow> int \<times> nat \<times> string" where
  "sort_key_of priorities coord n =
     (dget priorities n DEFAULT_PRIORITY, dget coord n (length coord + 1), n)"

definition order_units :: "unit_reference list \<Rightarrow> coordination option \<Rightarrow> (string, int) dict \<Rightarrow> unit_reference list" where
  "order_units units coord priorities =
     (let buckets = fold bucket_step units [];
          order = (case coord of None \<Rightarrow> [] | Some c \<Rightarrow> first_index 0 (co_clients c) []) in
      concat (map (\<lambda>n. dget buckets n []) (sort_key (sort_key_of priorities order) (map fst buckets))))"

section \<open>The order is by priority and stable\<close>

abbreviation of_component :: "string \<Rightarrow> unit_reference \<Rightarrow> bool" where
  "of_component c \<equiv> \<lambda>u. ur_component u = c"

lemma bucket_fold:
  "dget (fold bucket_step us b) c [] = dget b c [] @ filter (of_component c) us
   \<and> fst ` set (fold bucket_step us b) = fst ` set b \<union> ur_component ` set us
   \<and> (distinct (map fst b) \<longrightarrow> distinct (map fst (fold bucket_step us b)))"
proof (induction us arbitrary: b)
  case (Cons u us)
  have "dget (bucket_step u b) c [] = dget b c [] @ (if ur_component u = c then [u] else [])"
    by (simp add: bucket_step_def dget_def update_conv')
  moreover have "fst ` set (bucket_step u b) = insert (ur_component u) (fst ` set b)"
    by (simp add: bucket_step_def dom_update)
  moreover have "distinct (map fst b) \<Longrightarrow> distinct (map fst (bucket_step u b))"
    by (simp add: bucket_step_def distinct_update)
  ultimately show ?case using Cons.IH [of "bucket_step u b"] by auto
qed simp

lemma filter_grouped:
  "distinct ns \<Longrightarrow> filter (of_component c) (concat (map (\<lambda>n. filter (of_component n) us) ns))
     = (if c \<in> set ns then filter (of_component c) us else [])"
proof (induction ns)
  case (Cons n ns)
  have "filter (of_component c) (filter (of_component n) us) = (if n = c then filter (of_component c) us else [])"
    by (auto simp: filter_empty_conv)
  then show ?case using Cons by (auto simp del: filter_filter)
qed simp

lemma sorted_grouped:
  "sorted (map f ns) \<Longrightarrow> sorted (map (\<lambda>u. f (ur_component u)) (concat (map (\<lambda>n. filter (of_component n) us) ns)))"
proof (induction ns)
  case (Cons n ns)
  have "sorted (map (\<lambda>u. f (ur_component u)) (filter (of_component n) us))"
    by (induction us) auto
  with Cons show ?case by (auto simp: sorted_append)
qed simp

lemma sorted_fst: "sorted (xs :: ('a :: linorder \<times> 'b :: linorder) list) \<Longrightarrow> sorted (map fst xs)"
  by (induction xs) (auto simp: less_eq_prod_def)

text \<open>C35. Ordering keeps every unit once, keeps the units of one component in their order, and starts the components
  by ascending priority, whatever the coordination says.\<close>

theorem order_units_correct:
  "mset (order_units units coord priorities) = mset units
   \<and> filter (of_component c) (order_units units coord priorities) = filter (of_component c) units
   \<and> sorted (map (\<lambda>u. dget priorities (ur_component u) DEFAULT_PRIORITY) (order_units units coord priorities))"
proof -
  let ?order = "case coord of None \<Rightarrow> [] | Some c \<Rightarrow> first_index 0 (co_clients c) []"
  let ?b = "fold bucket_step units []"
  let ?ns = "sort_key (sort_key_of priorities ?order) (map fst ?b)"
  have out: "order_units units coord priorities = concat (map (\<lambda>n. filter (of_component n) units) ?ns)"
    using bucket_fold [of units "[]"] by (simp add: order_units_def Let_def dget_def)
  have "distinct ?ns" "set ?ns = ur_component ` set units" using bucket_fold [of units "[]"] by simp_all
  then have same: "filter (of_component c) (order_units units coord priorities) = filter (of_component c) units" for c
    unfolding out by (subst filter_grouped) (auto simp: filter_empty_conv eq_commute [of "[]"])
  have "mset (order_units units coord priorities) = mset units"
  proof (rule multiset_eqI)
    fix u
    have cnt: "count (mset xs) u = count (mset (filter (of_component (ur_component u)) xs)) u" for xs
      by (simp add: mset_filter)
    show "count (mset (order_units units coord priorities)) u = count (mset units) u"
      unfolding cnt [of "order_units units coord priorities"] cnt [of units] same ..
  qed
  moreover have "sorted (map (fst \<circ> sort_key_of priorities ?order) ?ns)"
  proof -
    have "sorted (map (sort_key_of priorities ?order) ?ns)" by (rule sorted_sort_key)
    from sorted_fst [OF this]
    show ?thesis by simp
  qed
  then have "sorted (map (\<lambda>n. dget priorities n DEFAULT_PRIORITY) ?ns)"
    by (simp add: comp_def sort_key_of_def)
  then have "sorted (map (\<lambda>u. dget priorities (ur_component u) DEFAULT_PRIORITY) (order_units units coord priorities))"
    unfolding out by (rule sorted_grouped [where f = "\<lambda>n. dget priorities n DEFAULT_PRIORITY"])
  ultimately show ?thesis using same by blast
qed

text \<open>The index that stands for a component the coordination does not name can be smaller than that of a named one.\<close>

definition three_instances :: coordination where
  "three_instances = empty_coordination \<lparr> co_clients := map (\<lambda>t. \<lparr> ci_type = t, ci_instance = PNone,
     ci_radiod_id = PNone, ci_extras = [] \<rparr>) [''a'', ''a'', ''a'', ''a'', ''b''] \<rparr>"

lemma unnamed_before_named:
  "sort_key_of [] (first_index 0 (co_clients three_instances) []) ''z''
     < sort_key_of [] (first_index 0 (co_clients three_instances) []) ''b''"
  by (simp add: sort_key_of_def three_instances_def dget_def less_prod_def)

end
